(* ===== verification/Pdrad_Prelude.thy ===== *)
theory Pdrad_Prelude
  imports Main "HOL-Library.Word"
begin

text \<open>
  Shared vocabulary of the development: the machine types of the target (aarch64 Linux,
  little endian, LP64, as \<open>CMakeLists.txt\<close> configures it), the collections of rewrite
  rules the component theories use, the list operations that describe writes into a
  buffer, and the byte representation of machine integers in both byte orders.
\<close>

unbundle bit_operations_syntax

type_synonym u8 = "8 word"
type_synonym u16 = "16 word"
type_synonym u32 = "32 word"
type_synonym u64 = "64 word"

named_theorems cm_simps \<open>symbolic execution of C statements on a heap\<close>
named_theorems wire_simps \<open>layout of objects as byte sequences\<close>

section \<open>Writing into and reading from a buffer\<close>

definition patch :: "nat \<Rightarrow> 'a list \<Rightarrow> 'a list \<Rightarrow> 'a list" where
  "patch k xs bs = take k bs @ xs @ drop (k + length xs) bs"

definition segment :: "nat \<Rightarrow> nat \<Rightarrow> 'a list \<Rightarrow> 'a list" where
  "segment k n bs = take n (drop k bs)"

lemma length_patch [simp]: "k + length xs \<le> length bs \<Longrightarrow> length (patch k xs bs) = length bs"
  by (simp add: patch_def)

lemma length_segment [simp]: "k + n \<le> length bs \<Longrightarrow> length (segment k n bs) = n"
  by (simp add: segment_def)

lemma segment_append_segment: "segment k (m + n) bs = segment k m bs @ segment (k + m) n bs"
  by (simp add: segment_def take_add add.commute)

lemma segment_patch_same:
  "k + length xs \<le> length bs \<Longrightarrow> n = length xs \<Longrightarrow> segment k n (patch k xs bs) = xs"
  by (simp add: segment_def patch_def)

lemma segment_patch_before:
  assumes "j + n \<le> k" and "k \<le> length bs"
  shows "segment j n (patch k xs bs) = segment j n bs"
proof -
  have "take n (drop j (take k bs @ ys)) = take n (drop j (take k bs))" for ys
    using assms by simp
  moreover have "take n (drop j (take k bs)) = take n (drop j bs)"
    using assms(1) by (simp add: drop_take min_def)
  ultimately show ?thesis by (simp only: segment_def patch_def)
qed

lemma segment_patch_after:
  assumes "k + length xs \<le> j" and "k + length xs \<le> length bs"
  shows "segment j n (patch k xs bs) = segment j n bs"
proof -
  have "drop (j - k) xs = []" using assms(1) by simp
  moreover have "j - k - length xs + (k + length xs) = j" using assms(1) by simp
  ultimately show ?thesis using assms
    by (simp add: segment_def patch_def add.commute)
qed

lemma patch_append:
  "k = length as \<Longrightarrow> length xs = length bs \<Longrightarrow> patch k xs (as @ bs @ cs) = as @ xs @ cs"
  by (simp add: patch_def)

lemma patch_append_end:
  "k = length as \<Longrightarrow> length xs = length bs \<Longrightarrow> patch k xs (as @ bs) = as @ xs"
  by (simp add: patch_def)

lemma patch_full: "length xs = length bs \<Longrightarrow> patch 0 xs bs = xs"
  by (simp add: patch_def)

lemma segment_append:
  "k = length as \<Longrightarrow> n = length bs \<Longrightarrow> segment k n (as @ bs @ cs) = bs"
  by (simp add: segment_def)

lemma segment_append_end: "k = length as \<Longrightarrow> n = length bs \<Longrightarrow> segment k n (as @ bs) = bs"
  by (simp add: segment_def)

lemma segment_all: "n = length bs \<Longrightarrow> segment 0 n bs = bs"
  by (simp add: segment_def)

lemma map_patch: "map f (patch k xs bs) = patch k (map f xs) (map f bs)"
  by (simp add: patch_def take_map drop_map)

lemma map_segment: "map f (segment k n bs) = segment k n (map f bs)"
  by (simp add: segment_def take_map drop_map)

lemma replicate_numeral_Cons [simp]:
  "replicate (numeral v) x = x # replicate (pred_numeral v) x"
  by (simp add: numeral_eq_Suc)

lemma replicate_add_commute: "replicate (n + k) x = replicate k x @ replicate n x"
  by (metis add.commute replicate_add)

section \<open>Machine integers as bytes\<close>

text \<open>A conversion to a wider unsigned type keeps the value.\<close>

lemma unat_ucast_up:
  fixes w :: "'a::len word"
  assumes "LENGTH('a) \<le> LENGTH('b::len)"
  shows "unat (ucast w :: 'b word) = unat w"
proof -
  have "unat w < 2 ^ LENGTH('a)" by (rule unsigned_less)
  also have "\<dots> \<le> 2 ^ LENGTH('b)" using assms by (simp add: power_increasing)
  finally show ?thesis by (simp add: unsigned_ucast_eq take_bit_nat_eq_self)
qed

text \<open>The bytes of an integer in memory order on the little-endian target, and their inverse.\<close>

primrec le_bytes :: "nat \<Rightarrow> 'a::len word \<Rightarrow> u8 list" where
  "le_bytes 0 w = []"
| "le_bytes (Suc n) w = ucast w # le_bytes n (drop_bit 8 w)"

primrec from_le :: "u8 list \<Rightarrow> 'a::len word" where
  "from_le [] = 0"
| "from_le (b # bs) = ucast b OR push_bit 8 (from_le bs)"

definition be_bytes :: "nat \<Rightarrow> 'a::len word \<Rightarrow> u8 list" where
  "be_bytes n w = rev (le_bytes n w)"

definition from_be :: "u8 list \<Rightarrow> 'a::len word" where
  "from_be bs = from_le (rev bs)"

lemma length_le_bytes [simp]: "length (le_bytes n w) = n"
  by (induction n arbitrary: w) simp_all

lemma length_be_bytes [simp]: "length (be_bytes n w) = n"
  by (simp add: be_bytes_def)

lemma le_bytes_0 [simp]: "le_bytes n 0 = replicate n 0"
  by (induction n) simp_all

lemma be_bytes_0 [simp]: "be_bytes n 0 = replicate n 0"
  by (simp add: be_bytes_def)

lemma le_bytes_1 [simp]: "le_bytes 1 (a::u8) = [a]" "le_bytes (Suc 0) (a::u8) = [a]"
  by simp_all

lemma from_le_le_bytes: "from_le (le_bytes n w) = take_bit (8 * n) w"
proof (induction n arbitrary: w)
  case 0
  then show ?case by simp
next
  case (Suc n)
  have "ucast (ucast w :: u8) OR push_bit 8 (take_bit (8 * n) (drop_bit 8 w)) = take_bit (8 + 8 * n) w"
    by (rule bit_word_eqI) (auto simp: bit_simps)
  with Suc.IH show ?case by simp
qed

lemma le_bytes_take_bit: "8 * n \<le> k \<Longrightarrow> le_bytes n (take_bit k w) = le_bytes n w"
proof (induction n arbitrary: k w)
  case 0
  then show ?case by simp
next
  case (Suc n)
  have "ucast (take_bit k w) = (ucast w :: u8)"
    using Suc.prems by (intro bit_word_eqI) (auto simp: bit_simps)
  moreover have "drop_bit 8 (take_bit k w) = take_bit (k - 8) (drop_bit 8 w)"
    by (rule bit_word_eqI) (auto simp: bit_simps)
  ultimately show ?case using Suc by simp
qed

lemma le_bytes_from_le:
  "length bs = n \<Longrightarrow> 8 * n \<le> LENGTH('a::len) \<Longrightarrow> le_bytes n (from_le bs :: 'a word) = bs"
proof (induction bs arbitrary: n)
  case Nil
  then show ?case by simp
next
  case (Cons b bs)
  then obtain m where n: "n = Suc m" "length bs = m" "8 * m + 8 \<le> LENGTH('a)" by auto
  let ?w = "from_le bs :: 'a word"
  have 1: "ucast (ucast b OR push_bit 8 ?w) = b"
    by (rule bit_word_eqI) (use n in \<open>auto simp: bit_simps\<close>)
  have "drop_bit 8 (ucast b OR push_bit 8 ?w) = take_bit (LENGTH('a) - 8) ?w"
    by (rule bit_word_eqI) (auto simp: bit_simps dest: bit_imp_le_length)
  then have "le_bytes m (drop_bit 8 (ucast b OR push_bit 8 ?w)) = le_bytes m ?w"
    using n by (simp add: le_bytes_take_bit)
  with Cons.IH n 1 show ?case by simp
qed

text \<open>
  The byte-order macros of \<open>endian.h\<close> on a little-endian target: the result is the value
  whose bytes in memory are the big-endian bytes of the argument.
\<close>

definition htobe16 :: "u16 \<Rightarrow> u16" where
  "htobe16 w = from_le (be_bytes 2 w)"

definition htobe32 :: "u32 \<Rightarrow> u32" where
  "htobe32 w = from_le (be_bytes 4 w)"

definition htobe64 :: "u64 \<Rightarrow> u64" where
  "htobe64 w = from_le (be_bytes 8 w)"

definition be16toh :: "u16 \<Rightarrow> u16" where
  "be16toh w = from_be (le_bytes 2 w)"

definition be32toh :: "u32 \<Rightarrow> u32" where
  "be32toh w = from_be (le_bytes 4 w)"

lemma le_bytes_htobe [simp]:
  "le_bytes 2 (htobe16 v) = be_bytes 2 v"
  "le_bytes 4 (htobe32 w) = be_bytes 4 w"
  "le_bytes 8 (htobe64 x) = be_bytes 8 x"
  by (simp_all add: htobe16_def htobe32_def htobe64_def le_bytes_from_le)

lemma from_le_le_bytes_full [simp]:
  "from_le (le_bytes 1 (a::u8)) = a"
  "from_le (le_bytes 2 (v::u16)) = v"
  "from_le (le_bytes 4 (w::u32)) = w"
  "from_le (le_bytes 8 (x::u64)) = x"
  by (simp_all only: from_le_le_bytes) (simp_all add: take_bit_word_eq_self)

lemma be16toh_eq_htobe16: "be16toh w = htobe16 w"
  by (simp add: be16toh_def htobe16_def from_be_def be_bytes_def)

lemma be32toh_eq_htobe32: "be32toh w = htobe32 w"
  by (simp add: be32toh_def htobe32_def from_be_def be_bytes_def)

lemma be16toh_htobe16 [simp]: "be16toh (htobe16 w) = w"
  by (simp add: be16toh_def from_be_def be_bytes_def)

lemma be32toh_htobe32 [simp]: "be32toh (htobe32 w) = w"
  by (simp add: be32toh_def from_be_def be_bytes_def)

lemma htobe16_be16toh [simp]: "htobe16 (be16toh w) = w"
  by (metis be16toh_eq_htobe16 be16toh_htobe16)

lemma htobe32_be32toh [simp]: "htobe32 (be32toh w) = w"
  by (metis be32toh_eq_htobe32 be32toh_htobe32)

lemma le_bytes_be16toh_from_le [simp]:
  "length bs = 2 \<Longrightarrow> le_bytes 2 (be16toh (from_le bs)) = rev bs"
  by (simp add: be16toh_eq_htobe16 be_bytes_def le_bytes_from_le)

lemma from_le_be_bytes16 [simp]: "from_le (be_bytes 2 w) = htobe16 w"
  by (simp add: htobe16_def)

section \<open>Sequences of options on the wire\<close>

text \<open>What a receiver that decodes a sequence of options is entitled to: it reads one encoded option
  off the front, whatever follows. It then reads any sequence, and no two sequences look
  alike on the wire.\<close>

lemma decode_concat:
  assumes "decode [] = Some []"
    and "\<And>x rest. x \<in> set xs \<Longrightarrow> decode (encode x @ rest) = map_option (Cons x) (decode rest)"
  shows "decode (concat (map encode xs)) = Some xs"
  using assms(2) by (induction xs) (simp_all add: assms(1))

locale option_codec =
  fixes encode :: "'a \<Rightarrow> u8 list" and decode :: "u8 list \<Rightarrow> 'a list option" and wf :: "'a \<Rightarrow> bool"
  assumes decode_nil: "decode [] = Some []"
    and decode_one: "wf x \<Longrightarrow> decode (encode x @ rest) = map_option (Cons x) (decode rest)"
begin

lemma decode_encode: "list_all wf xs \<Longrightarrow> decode (concat (map encode xs)) = Some xs"
  by (rule decode_concat [where encode = encode]) (simp_all add: decode_nil decode_one list_all_iff)

lemma encode_inj:
  "list_all wf xs \<Longrightarrow> list_all wf ys \<Longrightarrow> concat (map encode xs) = concat (map encode ys) \<Longrightarrow> xs = ys"
  by (metis decode_encode option.inject)

end

end
