(* ===== verification/C_Memory.thy ===== *)
theory C_Memory
  imports Pdrad_Prelude
begin

text \<open>
  The part of C the program is written in: a byte-addressed heap of blocks, pointers into
  them, \<open>malloc\<close>, \<open>free\<close>, \<open>memcpy\<close>, typed loads and stores, and the state-passing
  error monad in which every function of the program is written. What C leaves undefined
  (a null or dangling dereference, an access outside its block, reading a byte never
  written, an overlapping \<open>memcpy\<close>) is an explicit fault, so that a theorem that a function
  returns \<open>Inr\<close> is also a theorem that it has no undefined behaviour.
\<close>

section \<open>Statements\<close>

datatype c_fault =
    NullDeref        \<comment> \<open>dereference of NULL, e.g.\ of an unchecked \<open>malloc\<close> result\<close>
  | WildDeref        \<comment> \<open>dereference of another address that is in no object\<close>
  | DeadBlock        \<comment> \<open>use after free\<close>
  | OutOfBounds      \<comment> \<open>access beyond the end of the block\<close>
  | Uninit           \<comment> \<open>use of a byte that was never written, or of the wrong kind\<close>
  | Overlap          \<comment> \<open>\<open>memcpy\<close> between overlapping ranges\<close>
  | BadFree          \<comment> \<open>\<open>free\<close> of something that \<open>malloc\<close> did not return\<close>
  | BadVararg        \<comment> \<open>\<open>va_arg\<close> beyond the arguments passed\<close>
  | MissingReturn    \<comment> \<open>use of the value of a function that ended without \<open>return\<close>\<close>
  | Unrepresentable  \<comment> \<open>a conversion whose result its type cannot represent\<close>
  | OutOfFuel        \<comment> \<open>the loop bound of the model was reached\<close>

type_synonym ('s, 'a) cm = "'s \<Rightarrow> c_fault + 'a \<times> 's"

definition ret :: "'a \<Rightarrow> ('s, 'a) cm" where
  "ret x = (\<lambda>s. Inr (x, s))"

definition raise :: "c_fault \<Rightarrow> ('s, 'a) cm" where
  "raise e = (\<lambda>s. Inl e)"

definition bindc :: "('s, 'a) cm \<Rightarrow> ('a \<Rightarrow> ('s, 'b) cm) \<Rightarrow> ('s, 'b) cm" where
  "bindc m f = (\<lambda>s. case m s of Inl e \<Rightarrow> Inl e | Inr (x, s') \<Rightarrow> f x s')"

definition thenc :: "('s, 'a) cm \<Rightarrow> ('s, 'b) cm \<Rightarrow> ('s, 'b) cm" where
  "thenc m n = bindc m (\<lambda>_. n)"

definition gets :: "('s \<Rightarrow> 'a) \<Rightarrow> ('s, 'a) cm" where
  "gets f = (\<lambda>s. Inr (f s, s))"

lemma gets_apply [cm_simps]: "gets f s = Inr (f s, s)"
  by (simp add: gets_def)

lemma ret_apply [cm_simps]: "ret x s = Inr (x, s)"
  by (simp add: ret_def)

lemma raise_apply [cm_simps]: "raise e s = Inl e"
  by (simp add: raise_def)

lemma bindc_apply [cm_simps]:
  "bindc m f s = (case m s of Inl e \<Rightarrow> Inl e | Inr (x, s') \<Rightarrow> f x s')"
  by (simp add: bindc_def)

lemma thenc_apply [cm_simps]:
  "thenc m n s = (case m s of Inl e \<Rightarrow> Inl e | Inr (x, s') \<Rightarrow> n s')"
  by (simp add: thenc_def bindc_def)

lemma bindc_assoc: "bindc (bindc m f) g = bindc m (\<lambda>x. bindc (f x) g)"
  by (rule ext) (simp add: bindc_def split: sum.split prod.split)

lemma bindc_ret_left: "bindc (ret x) f = f x"
  by (rule ext) (simp add: bindc_def ret_def)

lemma bindc_ret_right: "bindc m ret = m"
  by (rule ext) (simp add: bindc_def ret_def split: sum.split prod.split)

lemma bindc_eq_InrD:
  "bindc m f s = Inr (y, t) \<Longrightarrow> \<exists>x s'. m s = Inr (x, s') \<and> f x s' = Inr (y, t)"
  by (auto simp: bindc_def split: sum.splits prod.splits)

lemma thenc_eq_InrD:
  "thenc m n s = Inr (y, t) \<Longrightarrow> \<exists>x s'. m s = Inr (x, s') \<and> n s' = Inr (y, t)"
  by (auto simp: thenc_def dest: bindc_eq_InrD)

section \<open>Memory\<close>

text \<open>
  A byte of memory is undefined, an integer byte, or one of the eight bytes of a stored
  pointer. A pointer is NULL, an offset into a block, or an address that belongs to no
  object (\<open>Wild\<close>: what NULL plus an offset gives). The heap maps block numbers to the
  contents of the live blocks; \<open>avail\<close> is what \<open>malloc\<close> can still hand out (it returns NULL
  beyond that), and \<open>placed\<close> is where the allocator puts each block, which only
  comparisons of addresses can see.
\<close>

datatype ptr = Null | Ptr nat nat | Wild u64

datatype mval = Undef | Byte u8 | Frag ptr nat

record cheap =
  blocks :: "nat \<Rightarrow> mval list option"
  next_block :: nat
  avail :: nat
  placed :: "nat \<Rightarrow> u64"

fun ptr_add :: "ptr \<Rightarrow> nat \<Rightarrow> ptr" where
  "ptr_add (Ptr b k) n = Ptr b (k + n)"
| "ptr_add Null n = (if (of_nat n :: u64) = 0 then Null else Wild (of_nat n))"
| "ptr_add (Wild a) n = (if a + of_nat n = 0 then Null else Wild (a + of_nat n))"

text \<open>The first page is never mapped: a field of a NULL structure is a null dereference.\<close>

definition wild_fault :: "u64 \<Rightarrow> c_fault" where
  "wild_fault a = (if a < 4096 then NullDeref else WildDeref)"

fun uintptr :: "'z cheap_scheme \<Rightarrow> ptr \<Rightarrow> u64" where
  "uintptr h Null = 0"
| "uintptr h (Wild a) = a"
| "uintptr h (Ptr b k) = placed h b + of_nat k"

definition push_block :: "mval list \<Rightarrow> 'z cheap_scheme \<Rightarrow> 'z cheap_scheme" where
  "push_block vs h = h\<lparr>blocks := (blocks h)(next_block h \<mapsto> vs),
     next_block := Suc (next_block h), avail := avail h - length vs\<rparr>"

definition set_block :: "nat \<Rightarrow> mval list \<Rightarrow> 'z cheap_scheme \<Rightarrow> 'z cheap_scheme" where
  "set_block b vs h = h\<lparr>blocks := (blocks h)(b \<mapsto> vs)\<rparr>"

definition malloc :: "u64 \<Rightarrow> ('z cheap_scheme, ptr) cm" where
  "malloc n h =
     (if unat n \<le> avail h
      then Inr (Ptr (next_block h) 0, push_block (replicate (unat n) Undef) h)
      else Inr (Null, h))"

definition free :: "ptr \<Rightarrow> ('z cheap_scheme, unit) cm" where
  "free p h = (case p of
       Null \<Rightarrow> Inr ((), h)
     | Wild a \<Rightarrow> Inl BadFree
     | Ptr b k \<Rightarrow> (case blocks h b of
           None \<Rightarrow> Inl BadFree
         | Some vs \<Rightarrow> if k = 0
             then Inr ((), h\<lparr>blocks := (blocks h)(b := None), avail := avail h + length vs\<rparr>)
             else Inl BadFree))"

definition load_raw :: "ptr \<Rightarrow> nat \<Rightarrow> ('z cheap_scheme, mval list) cm" where
  "load_raw p n h = (case p of
       Null \<Rightarrow> Inl NullDeref
     | Wild a \<Rightarrow> Inl (wild_fault a)
     | Ptr b k \<Rightarrow> (case blocks h b of
           None \<Rightarrow> Inl DeadBlock
         | Some vs \<Rightarrow> if k + n \<le> length vs then Inr (segment k n vs, h) else Inl OutOfBounds))"

definition store_raw :: "ptr \<Rightarrow> mval list \<Rightarrow> ('z cheap_scheme, unit) cm" where
  "store_raw p xs h = (case p of
       Null \<Rightarrow> Inl NullDeref
     | Wild a \<Rightarrow> Inl (wild_fault a)
     | Ptr b k \<Rightarrow> (case blocks h b of
           None \<Rightarrow> Inl DeadBlock
         | Some vs \<Rightarrow> if k + length xs \<le> length vs
             then Inr ((), set_block b (patch k xs vs) h) else Inl OutOfBounds))"

fun overlapping :: "ptr \<Rightarrow> ptr \<Rightarrow> nat \<Rightarrow> bool" where
  "overlapping (Ptr b j) (Ptr c k) n \<longleftrightarrow> b = c \<and> j < k + n \<and> k < j + n"
| "overlapping _ _ _ \<longleftrightarrow> False"

definition memcpy :: "ptr \<Rightarrow> ptr \<Rightarrow> u64 \<Rightarrow> ('z cheap_scheme, unit) cm" where
  "memcpy dst src n =
     (if overlapping dst src (unat n) then raise Overlap
      else bindc (load_raw src (unat n)) (\<lambda>vs. store_raw dst vs))"

lemma blocks_push_block [simp]:
  "blocks (push_block vs h) b = (if b = next_block h then Some vs else blocks h b)"
  by (simp add: push_block_def)

lemma next_block_push_block [simp]: "next_block (push_block vs h) = Suc (next_block h)"
  by (simp add: push_block_def)

lemma avail_push_block [simp]: "avail (push_block vs h) = avail h - length vs"
  by (simp add: push_block_def)

lemma placed_push_block [simp]: "placed (push_block vs h) = placed h"
  by (simp add: push_block_def)

lemma blocks_set_block [simp]:
  "blocks (set_block b vs h) c = (if c = b then Some vs else blocks h c)"
  by (simp add: set_block_def)

lemma set_block_other_fields [simp]:
  "next_block (set_block b vs h) = next_block h"
  "avail (set_block b vs h) = avail h"
  "placed (set_block b vs h) = placed h"
  by (simp_all add: set_block_def)

lemma set_block_push_block_same [simp]:
  "length ws = length vs \<Longrightarrow> set_block (next_block h) ws (push_block vs h) = push_block ws h"
  by (simp add: set_block_def push_block_def)

lemma set_block_push_block_other [simp]:
  "b \<noteq> next_block h \<Longrightarrow> set_block b ws (push_block vs h) = push_block vs (set_block b ws h)"
  by (simp add: set_block_def push_block_def fun_upd_twist)

lemma set_block_twice [simp]: "set_block b ws (set_block b vs h) = set_block b ws h"
  by (simp add: set_block_def)

lemma set_block_id: "blocks h b = Some vs \<Longrightarrow> set_block b vs h = h"
  by (cases h) (auto simp: set_block_def)

lemma load_raw_simps [cm_simps]:
  "load_raw Null n h = Inl NullDeref"
  "load_raw (Wild a) n h = Inl (wild_fault a)"
  "load_raw (Ptr b k) n h = (case blocks h b of None \<Rightarrow> Inl DeadBlock
     | Some vs \<Rightarrow> if k + n \<le> length vs then Inr (segment k n vs, h) else Inl OutOfBounds)"
  by (simp_all add: load_raw_def)

lemma store_raw_simps [cm_simps]:
  "store_raw Null xs h = Inl NullDeref"
  "store_raw (Wild a) xs h = Inl (wild_fault a)"
  "store_raw (Ptr b k) xs h = (case blocks h b of None \<Rightarrow> Inl DeadBlock
     | Some vs \<Rightarrow> if k + length xs \<le> length vs
         then Inr ((), set_block b (patch k xs vs) h) else Inl OutOfBounds)"
  by (simp_all add: store_raw_def)

lemma malloc_apply [cm_simps]:
  "malloc n h =
     (if unat n \<le> avail h
      then Inr (Ptr (next_block h) 0, push_block (replicate (unat n) Undef) h)
      else Inr (Null, h))"
  by (simp add: malloc_def)

lemma memcpy_apply [cm_simps]:
  "memcpy dst src n h =
     (if overlapping dst src (unat n) then Inl Overlap
      else case load_raw src (unat n) h of Inl e \<Rightarrow> Inl e | Inr (vs, h') \<Rightarrow> store_raw dst vs h')"
  by (simp add: memcpy_def cm_simps)

section \<open>Scalar types in memory\<close>

primrec bytes_of :: "mval list \<Rightarrow> u8 list option" where
  "bytes_of [] = Some []"
| "bytes_of (v # vs) = (case v of
       Byte b \<Rightarrow> map_option (Cons b) (bytes_of vs) | _ \<Rightarrow> None)"

lemma bytes_of_map_Byte [simp]: "bytes_of (map Byte bs) = Some bs"
  by (induction bs) simp_all

lemma bytes_of_eq_Some [simp]: "bytes_of vs = Some bs \<longleftrightarrow> vs = map Byte bs"
proof
  show "bytes_of vs = Some bs \<Longrightarrow> vs = map Byte bs"
    by (induction vs arbitrary: bs) (auto split: mval.splits)
qed simp

definition int_enc :: "nat \<Rightarrow> 'a::len word \<Rightarrow> mval list" where
  "int_enc n w = map Byte (le_bytes n w)"

definition int_dec :: "mval list \<Rightarrow> 'a::len word option" where
  "int_dec vs = map_option from_le (bytes_of vs)"

definition ptr_enc :: "ptr \<Rightarrow> mval list" where
  "ptr_enc p = map (Frag p) [0..<8]"

definition ptr_dec :: "mval list \<Rightarrow> ptr option" where
  "ptr_dec vs = (case vs of
       Frag p 0 # _ \<Rightarrow> if vs = ptr_enc p then Some p else None
     | _ \<Rightarrow> if vs = replicate 8 (Byte 0) then Some Null else None)"

definition load_as :: "(mval list \<Rightarrow> 'a option) \<Rightarrow> nat \<Rightarrow> ptr \<Rightarrow> ('z cheap_scheme, 'a) cm" where
  "load_as dec n p = bindc (load_raw p n)
     (\<lambda>vs. case dec vs of None \<Rightarrow> raise Uninit | Some x \<Rightarrow> ret x)"

definition store_as :: "('a \<Rightarrow> mval list) \<Rightarrow> ptr \<Rightarrow> 'a \<Rightarrow> ('z cheap_scheme, unit) cm" where
  "store_as enc p x = store_raw p (enc x)"

abbreviation load8 :: "ptr \<Rightarrow> ('z cheap_scheme, u8) cm" where
  "load8 \<equiv> load_as int_dec 1"
abbreviation load16 :: "ptr \<Rightarrow> ('z cheap_scheme, u16) cm" where
  "load16 \<equiv> load_as int_dec 2"
abbreviation load32 :: "ptr \<Rightarrow> ('z cheap_scheme, u32) cm" where
  "load32 \<equiv> load_as int_dec 4"
abbreviation load64 :: "ptr \<Rightarrow> ('z cheap_scheme, u64) cm" where
  "load64 \<equiv> load_as int_dec 8"
abbreviation load_ptr :: "ptr \<Rightarrow> ('z cheap_scheme, ptr) cm" where
  "load_ptr \<equiv> load_as ptr_dec 8"
abbreviation store8 :: "ptr \<Rightarrow> u8 \<Rightarrow> ('z cheap_scheme, unit) cm" where
  "store8 \<equiv> store_as (int_enc 1)"
abbreviation store16 :: "ptr \<Rightarrow> u16 \<Rightarrow> ('z cheap_scheme, unit) cm" where
  "store16 \<equiv> store_as (int_enc 2)"
abbreviation store32 :: "ptr \<Rightarrow> u32 \<Rightarrow> ('z cheap_scheme, unit) cm" where
  "store32 \<equiv> store_as (int_enc 4)"
abbreviation store64 :: "ptr \<Rightarrow> u64 \<Rightarrow> ('z cheap_scheme, unit) cm" where
  "store64 \<equiv> store_as (int_enc 8)"
abbreviation store_ptr :: "ptr \<Rightarrow> ptr \<Rightarrow> ('z cheap_scheme, unit) cm" where
  "store_ptr \<equiv> store_as ptr_enc"

lemma load_as_apply [cm_simps]:
  "load_as dec n p h = (case load_raw p n h of Inl e \<Rightarrow> Inl e
     | Inr (vs, h') \<Rightarrow> (case dec vs of None \<Rightarrow> Inl Uninit | Some x \<Rightarrow> Inr (x, h')))"
  by (simp add: load_as_def cm_simps split: sum.split option.split)

lemma store_as_apply [cm_simps]: "store_as enc p x h = store_raw p (enc x) h"
  by (simp add: store_as_def)

lemma length_enc [simp]: "length (int_enc n w) = n" "length (ptr_enc p) = 8"
  by (simp_all add: int_enc_def ptr_enc_def)

lemma int_dec_map_Byte [simp]: "int_dec (map Byte bs) = Some (from_le bs)"
  by (simp add: int_dec_def)

text \<open>What the components rely on for a scalar type, whichever its width and byte order.\<close>

locale scalar_type =
  fixes enc :: "'a \<Rightarrow> mval list" and dec :: "mval list \<Rightarrow> 'a option" and width :: nat
  assumes enc_width: "length (enc x) = width"
    and dec_enc: "dec (enc x) = Some x"
begin

lemma enc_inj: "enc x = enc y \<Longrightarrow> x = y"
  by (metis dec_enc option.inject)

lemma load_after_store:
  assumes "store_as enc p x h = Inr (u, h')"
  shows "load_as dec width p h' = Inr (x, h')"
  using assms
  by (cases p)
    (auto simp: cm_simps enc_width dec_enc segment_patch_same split: option.splits if_splits)

lemma store_succeeds_iff_load_in_bounds:
  "(\<exists>h'. store_as enc p x h = Inr ((), h')) \<longleftrightarrow> (\<exists>vs. load_raw p width h = Inr (vs, h))"
  by (cases p) (auto simp: cm_simps enc_width split: option.splits if_splits)

lemma load_frame_other_block:
  assumes "store_raw (Ptr b k) ys h = Inr (u, h')" and "c \<noteq> b"
  shows "load_as dec width (Ptr c j) h' = map_sum id (\<lambda>(x, _). (x, h')) (load_as dec width (Ptr c j) h)"
  using assms by (auto simp: cm_simps split: option.splits if_splits)

lemma load_frame_same_block:
  assumes "store_raw (Ptr b k) ys h = Inr (u, h')" and "j + width \<le> k \<or> k + length ys \<le> j"
    and "load_as dec width (Ptr b j) h = Inr (x, h)"
  shows "load_as dec width (Ptr b j) h' = Inr (x, h')"
  using assms
  by (auto simp: cm_simps segment_patch_before segment_patch_after split: option.splits if_splits)

end

lemma int_scalar: "8 * n \<ge> LENGTH('a::len) \<Longrightarrow> scalar_type (int_enc n :: 'a word \<Rightarrow> _) int_dec n"
  by unfold_locales
    (simp_all add: int_enc_def int_dec_def from_le_le_bytes take_bit_word_eq_self)

interpretation u8_t: scalar_type "int_enc 1 :: u8 \<Rightarrow> mval list" int_dec 1
  by (rule int_scalar) simp

interpretation u16_t: scalar_type "int_enc 2 :: u16 \<Rightarrow> mval list" int_dec 2
  by (rule int_scalar) simp

interpretation u32_t: scalar_type "int_enc 4 :: u32 \<Rightarrow> mval list" int_dec 4
  by (rule int_scalar) simp

interpretation u64_t: scalar_type "int_enc 8 :: u64 \<Rightarrow> mval list" int_dec 8
  by (rule int_scalar) simp

interpretation ptr_t: scalar_type ptr_enc ptr_dec 8
  by unfold_locales (simp_all add: ptr_enc_def ptr_dec_def upt_rec)

section \<open>Local objects and by-value structures\<close>

text \<open>
  A local array whose address is taken is a block that does not count against the heap.
  A structure passed by value has no address the program stores; only \<open>memcpy\<close> reads it.
\<close>

definition stack_alloc :: "mval list \<Rightarrow> ('z cheap_scheme, ptr) cm" where
  "stack_alloc vs h = Inr (Ptr (next_block h) 0,
     h\<lparr>blocks := (blocks h)(next_block h \<mapsto> vs), next_block := Suc (next_block h)\<rparr>)"

definition stack_free :: "ptr \<Rightarrow> ('z cheap_scheme, unit) cm" where
  "stack_free p h = (case p of
       Ptr b k \<Rightarrow> Inr ((), h\<lparr>blocks := (blocks h)(b := None)\<rparr>) | _ \<Rightarrow> Inl BadFree)"

definition memcpy_local :: "ptr \<Rightarrow> u8 list \<Rightarrow> u64 \<Rightarrow> ('z cheap_scheme, unit) cm" where
  "memcpy_local dst src n =
     (if unat n \<le> length src then store_raw dst (map Byte (take (unat n) src))
      else raise OutOfBounds)"

lemma memcpy_local_apply [cm_simps]:
  "memcpy_local dst src n h =
     (if unat n \<le> length src then store_raw dst (map Byte (take (unat n) src)) h
      else Inl OutOfBounds)"
  by (simp add: memcpy_local_def cm_simps)

text \<open>An IPv6 address, as the number its sixteen bytes in memory spell in network order.\<close>

type_synonym in6_addr = "128 word"

definition in6_bytes :: "in6_addr \<Rightarrow> u8 list" where
  "in6_bytes a = be_bytes 16 a"

lemma length_in6_bytes [simp]: "length (in6_bytes a) = 16"
  by (simp add: in6_bytes_def)

section \<open>Readable ranges\<close>

definition readable :: "ptr \<Rightarrow> nat \<Rightarrow> 'z cheap_scheme \<Rightarrow> bool" where
  "readable p n h \<longleftrightarrow> (case p of
       Ptr b k \<Rightarrow> b < next_block h \<and>
         (case blocks h b of None \<Rightarrow> False | Some vs \<Rightarrow> k + n \<le> length vs)
     | _ \<Rightarrow> False)"

definition peek :: "ptr \<Rightarrow> nat \<Rightarrow> 'z cheap_scheme \<Rightarrow> mval list" where
  "peek p n h = (case p of
       Ptr b k \<Rightarrow> (case blocks h b of None \<Rightarrow> [] | Some vs \<Rightarrow> segment k n vs)
     | _ \<Rightarrow> [])"

lemma readable_Ptr:
  "readable (Ptr b k) n h \<longleftrightarrow>
     b < next_block h \<and> (\<exists>vs. blocks h b = Some vs \<and> k + n \<le> length vs)"
  by (auto simp: readable_def split: option.splits)

lemma readableE:
  assumes "readable p n h"
  obtains b k vs where "p = Ptr b k" "b < next_block h" "blocks h b = Some vs"
    "k + n \<le> length vs" "peek p n h = segment k n vs"
  using assms by (cases p) (auto simp: readable_def peek_def split: option.splits)

lemma load_raw_readable [cm_simps]: "readable p n h \<Longrightarrow> load_raw p n h = Inr (peek p n h, h)"
  by (auto elim!: readableE simp: load_raw_simps)

lemma length_peek [simp]: "readable p n h \<Longrightarrow> length (peek p n h) = n"
  by (auto elim!: readableE)

lemma readable_push_block [simp]: "readable p n h \<Longrightarrow> readable p n (push_block vs h)"
  by (auto elim!: readableE simp: readable_Ptr)

lemma peek_push_block [simp]: "readable p n h \<Longrightarrow> peek p n (push_block vs h) = peek p n h"
  by (auto elim!: readableE simp: peek_def)

lemma overlapping_fresh [simp]:
  "readable src n h \<Longrightarrow> \<not> overlapping (Ptr (next_block h) k) src m"
  by (auto elim!: readableE)

lemma memcpy_to_fresh:
  "readable src (unat n) h \<Longrightarrow>
     memcpy (Ptr (next_block h) k) src n (push_block vs h) =
       (if k + unat n \<le> length vs
        then Inr ((), push_block (patch k (peek src (unat n) h) vs) h) else Inl OutOfBounds)"
  by (auto elim!: readableE simp: cm_simps)

section \<open>The shape of a constructor\<close>

text \<open>A heap in which block numbers not yet handed out are free.\<close>

definition heap_wf :: "'z cheap_scheme \<Rightarrow> bool" where
  "heap_wf h \<longleftrightarrow> (\<forall>b. blocks h b \<noteq> None \<longrightarrow> b < next_block h)"

lemma heap_wf_fresh: "heap_wf h \<Longrightarrow> blocks h b = Some vs \<Longrightarrow> b \<noteq> next_block h"
  by (auto simp: heap_wf_def)

lemma heap_wf_next: "heap_wf h \<Longrightarrow> blocks h (next_block h) = None"
  by (auto simp: heap_wf_def)

lemma heap_wf_upd_next: "heap_wf h \<Longrightarrow> (blocks h)(next_block h := None) = blocks h"
  using heap_wf_next [of h] by auto

lemma heap_wf_push_block [simp]: "heap_wf h \<Longrightarrow> heap_wf (push_block vs h)"
  by (auto simp: heap_wf_def less_Suc_eq split: if_splits)

lemma heap_wf_set_block [simp]: "heap_wf h \<Longrightarrow> b < next_block h \<Longrightarrow> heap_wf (set_block b vs h)"
  by (auto simp: heap_wf_def split: if_splits)

text \<open>
  Every option constructor of the program allocates one block, fills it and returns it;
  none of them checks the result of \<open>malloc\<close>. The contract: within its precondition the
  constructor returns a fresh block holding exactly the object's image and changes nothing
  else, and when memory runs out it dereferences NULL.
\<close>

locale fresh_object =
  fixes build :: "'x \<Rightarrow> ('z cheap_scheme, ptr) cm"
    and valid :: "'x \<Rightarrow> 'z cheap_scheme \<Rightarrow> bool"
    and image :: "'x \<Rightarrow> 'z cheap_scheme \<Rightarrow> mval list"
  assumes build_ok: "valid x h \<Longrightarrow> length (image x h) \<le> avail h \<Longrightarrow>
      build x h = Inr (Ptr (next_block h) 0, push_block (image x h) h)"
    and build_oom: "valid x h \<Longrightarrow> avail h < length (image x h) \<Longrightarrow> build x h = Inl NullDeref"
begin

lemma build_eq:
  "valid x h \<Longrightarrow> build x h = (if length (image x h) \<le> avail h
     then Inr (Ptr (next_block h) 0, push_block (image x h) h) else Inl NullDeref)"
  using build_ok build_oom by auto

lemma build_returns_iff:
  "valid x h \<Longrightarrow> (\<exists>p h'. build x h = Inr (p, h')) \<longleftrightarrow> length (image x h) \<le> avail h"
  by (simp add: build_eq)

lemma build_object:
  assumes "valid x h" and "build x h = Inr (p, h')"
  shows "load_raw p (length (image x h)) h' = Inr (image x h, h')"
  using assms by (auto simp: build_eq cm_simps segment_def split: if_splits)

lemma build_frame:
  assumes "valid x h" and "build x h = Inr (p, h')" and "b < next_block h"
  shows "blocks h' b = blocks h b"
  using assms by (auto simp: build_eq split: if_splits)

lemma build_wf:
  assumes "valid x h" and "heap_wf h" and "build x h = Inr (p, h')"
  shows "heap_wf h'"
  using assms by (auto simp: build_eq split: if_splits)

lemma build_not_null:
  assumes "valid x h" and "build x h = Inr (p, h')"
  shows "p \<noteq> Null"
  using assms by (auto simp: build_eq split: if_splits)

lemma build_free:
  assumes "valid x h" and "heap_wf h" and "build x h = Inr (p, h')"
  shows "\<exists>h''. free p h' = Inr ((), h'') \<and> blocks h'' = blocks h \<and> avail h'' = avail h"
proof -
  have "blocks h (next_block h) = None"
    using assms(2) by (auto simp: heap_wf_def)
  then have "(blocks h)(next_block h := None) = blocks h" by auto
  with assms show ?thesis
    by (auto simp: build_eq free_def push_block_def split: if_splits)
qed

end

section \<open>Releasing a block\<close>

definition release :: "nat \<Rightarrow> nat \<Rightarrow> 'z cheap_scheme \<Rightarrow> 'z cheap_scheme" where
  "release b n h = h\<lparr>blocks := (blocks h)(b := None), avail := avail h + n\<rparr>"

lemma free_run: "blocks h b = Some vs \<Longrightarrow> free (Ptr b 0) h = Inr ((), release b (length vs) h)"
  by (simp add: free_def release_def)

lemma release_fields [simp]:
  "blocks (release b n h) c = (if c = b then None else blocks h c)"
  "next_block (release b n h) = next_block h"
  "avail (release b n h) = avail h + n"
  "placed (release b n h) = placed h"
  by (simp_all add: release_def)

lemma heap_wf_release [simp]: "heap_wf h \<Longrightarrow> heap_wf (release b n h)"
  by (auto simp: heap_wf_def)

section \<open>Programs that touch the heap only\<close>

text \<open>Everything written with the operations above leaves an extension of the state alone.\<close>

definition heap_only :: "('z cheap_scheme, 'a) cm \<Rightarrow> bool" where
  "heap_only m \<longleftrightarrow> (\<forall>h x h'. m h = Inr (x, h') \<longrightarrow> cheap.more h' = cheap.more h)"

named_theorems heap_only_intros \<open>statements that touch the heap only\<close>

lemma heap_onlyD: "heap_only m \<Longrightarrow> m h = Inr (x, h') \<Longrightarrow> cheap.more h' = cheap.more h"
  by (simp add: heap_only_def)

lemma heap_only_basic [heap_only_intros]:
  "heap_only (ret x)" "heap_only (raise e)" "heap_only (gets f)"
  by (simp_all add: heap_only_def cm_simps)

lemma heap_only_bindc [heap_only_intros]:
  "heap_only m \<Longrightarrow> (\<And>x. heap_only (f x)) \<Longrightarrow> heap_only (bindc m f)"
  unfolding heap_only_def by (metis bindc_eq_InrD)

lemma heap_only_thenc [heap_only_intros]:
  "heap_only m \<Longrightarrow> heap_only n \<Longrightarrow> heap_only (thenc m n)"
  by (simp add: thenc_def heap_only_bindc)

lemma heap_only_if [heap_only_intros]:
  "heap_only m \<Longrightarrow> heap_only n \<Longrightarrow> heap_only (if b then m else n)"
  by simp

lemma heap_only_option [heap_only_intros]:
  "heap_only m \<Longrightarrow> (\<And>x. heap_only (f x)) \<Longrightarrow> heap_only (case opt of None \<Rightarrow> m | Some x \<Rightarrow> f x)"
  by (cases opt) simp_all

lemma heap_only_prod [heap_only_intros]:
  "(\<And>x y. heap_only (f x y)) \<Longrightarrow> heap_only (case p of (x, y) \<Rightarrow> f x y)"
  by (cases p) simp

lemma heap_only_memory [heap_only_intros]:
  "heap_only (load_raw p n)" "heap_only (store_raw p xs)" "heap_only (malloc m)" "heap_only (free p)"
  by (auto simp: heap_only_def load_raw_def store_raw_def malloc_def free_def push_block_def
      set_block_def split: ptr.splits option.splits if_splits)

lemma heap_only_load_store [heap_only_intros]:
  "heap_only (load_as dec n p)" "heap_only (store_as enc p x)" "heap_only (memcpy p q m)"
  "heap_only (memcpy_local p bs m)"
  unfolding load_as_def store_as_def memcpy_def memcpy_local_def
  by (intro heap_only_intros)+

section \<open>Concrete heaps\<close>

text \<open>The blocks listed, all live, and \<open>n\<close> bytes left: the heaps the examples run on.\<close>

definition sample_heap :: "mval list list \<Rightarrow> nat \<Rightarrow> cheap" where
  "sample_heap vss n = \<lparr>blocks = (\<lambda>b. if b < length vss then Some (vss ! b) else None),
     next_block = length vss, avail = n, placed = (\<lambda>_. 4096)\<rparr>"

lemma sample_heap_fields [simp]:
  "blocks (sample_heap vss n) b = (if b < length vss then Some (vss ! b) else None)"
  "next_block (sample_heap vss n) = length vss"
  "avail (sample_heap vss n) = n"
  "placed (sample_heap vss n) b = 4096"
  by (simp_all add: sample_heap_def)

lemma heap_wf_sample [simp]: "heap_wf (sample_heap vss n)"
  by (simp add: heap_wf_def)

lemma readable_sample [simp]:
  "readable (Ptr b k) n (sample_heap vss m) \<longleftrightarrow> b < length vss \<and> k + n \<le> length (vss ! b)"
  by (auto simp: readable_Ptr)

end
