(* ===== verification/Ndp_Options.thy ===== *)
theory Ndp_Options
  imports C_Memory
begin

text \<open>
  \<open>Inc/ndp_options.h\<close> and \<open>Src/ndp_options.c\<close>: the structures of the Neighbor Discovery
  options, their layout in memory, and the constructors. Each constructor is the C function
  statement by statement; the images below are the objects they leave on the heap. The
  structures are packed, so a field's offset is the sum of the widths before it.
\<close>

section \<open>Structures\<close>

record ndp_optPayload =
  opt_Type :: u8
  opt_Length :: u8
  opt_OptionData :: "u8 list"

definition ndp_optOffset :: u64 where
  "ndp_optOffset = 1 + 1"

definition ndp_optPayload_bytes :: "ndp_optPayload \<Rightarrow> u8 list" where
  "ndp_optPayload_bytes r = [opt_Type r, opt_Length r] @ opt_OptionData r"

record ndp_opt_LinkLayerAddress =
  lla_EtherAddress :: "u8 list"

record ndp_opt_PrefixInformation =
  pi_PrefixLength :: u8
  pi_Flags :: u8
  pi_ValidLifetime :: u32
  pi_PreferredLifetime :: u32
  pi_Reserved :: u32
  pi_Prefix :: in6_addr

definition ndp_opt_PrefixInformation_bytes :: "ndp_opt_PrefixInformation \<Rightarrow> u8 list" where
  "ndp_opt_PrefixInformation_bytes r =
     [pi_PrefixLength r, pi_Flags r] @ le_bytes 4 (pi_ValidLifetime r) @
     le_bytes 4 (pi_PreferredLifetime r) @ le_bytes 4 (pi_Reserved r) @ in6_bytes (pi_Prefix r)"

definition sizeof_ndp_opt_PrefixInformation :: u64 where
  "sizeof_ndp_opt_PrefixInformation = 1 + 1 + 4 + 4 + 4 + 16"

record ndp_opt_Mtu =
  mtu_Reserved :: u16
  mtu_Mtu :: u32

definition ndp_opt_Mtu_bytes :: "ndp_opt_Mtu \<Rightarrow> u8 list" where
  "ndp_opt_Mtu_bytes r = le_bytes 2 (mtu_Reserved r) @ le_bytes 4 (mtu_Mtu r)"

definition sizeof_ndp_opt_Mtu :: u64 where
  "sizeof_ndp_opt_Mtu = 2 + 4"

record ndp_opt_AdvertisementInterval =
  ai_Reserved :: u16
  ai_AdvertisementInterval :: u32

definition ndp_opt_AdvertisementInterval_bytes :: "ndp_opt_AdvertisementInterval \<Rightarrow> u8 list" where
  "ndp_opt_AdvertisementInterval_bytes r =
     le_bytes 2 (ai_Reserved r) @ le_bytes 4 (ai_AdvertisementInterval r)"

definition NDP_OPT_ADVERTISEMENT_INTERVAL_PROP_TYPE :: u8 where
  "NDP_OPT_ADVERTISEMENT_INTERVAL_PROP_TYPE = 7"

definition NDP_OPT_ADVERTISEMENT_INTERVAL_PROP_LEN :: u64 where
  "NDP_OPT_ADVERTISEMENT_INTERVAL_PROP_LEN = 1"

text \<open>The fixed part of the route information option; \<open>Prefix[]\<close> follows it.\<close>

record ndp_opt_RouteInformation =
  ri_PrefixLength :: u8
  ri_RoutePreference :: u8
  ri_RouteLifetime :: u32
  ri_Prefix :: "u8 list"

definition ndp_opt_RouteInformation_bytes :: "ndp_opt_RouteInformation \<Rightarrow> u8 list" where
  "ndp_opt_RouteInformation_bytes r =
     [ri_PrefixLength r, ri_RoutePreference r] @ le_bytes 4 (ri_RouteLifetime r) @ ri_Prefix r"

definition NDP_OPT_ROUTE_INFORMATION_PROP_LEN :: u64 where
  "NDP_OPT_ROUTE_INFORMATION_PROP_LEN = 1"

text \<open>\<open>enum ndp_opt_PrefixInformationFlag\<close>; the values are combined with bit operations.\<close>

definition ndp_opt_PrefixInformation_flag_L :: u32 where
  "ndp_opt_PrefixInformation_flag_L = 0b10000000"
definition ndp_opt_PrefixInformation_flag_A :: u32 where
  "ndp_opt_PrefixInformation_flag_A = 0b01000000"
definition ndp_opt_PrefixInformation_flag_R :: u32 where
  "ndp_opt_PrefixInformation_flag_R = 0b11000000"

lemmas ndp_sizeof_defs = ndp_optOffset_def sizeof_ndp_opt_PrefixInformation_def
  sizeof_ndp_opt_Mtu_def NDP_OPT_ADVERTISEMENT_INTERVAL_PROP_LEN_def
  NDP_OPT_ROUTE_INFORMATION_PROP_LEN_def

lemmas ndp_layout_defs [wire_simps] = ndp_optPayload_bytes_def ndp_opt_PrefixInformation_bytes_def
  ndp_opt_Mtu_bytes_def ndp_opt_AdvertisementInterval_bytes_def ndp_opt_RouteInformation_bytes_def

lemma sizeof_matches_layout:
  "length (ndp_opt_PrefixInformation_bytes pi) = unat sizeof_ndp_opt_PrefixInformation"
  "length (ndp_opt_Mtu_bytes m) = unat sizeof_ndp_opt_Mtu"
  by (simp_all add: wire_simps ndp_sizeof_defs)

section \<open>Constructors\<close>

abbreviation (input) ndp_Type :: "ptr \<Rightarrow> ptr" where "ndp_Type p \<equiv> ptr_add p 0"
abbreviation (input) ndp_Length :: "ptr \<Rightarrow> ptr" where "ndp_Length p \<equiv> ptr_add p 1"
abbreviation (input) ndp_OptionData :: "ptr \<Rightarrow> ptr" where "ndp_OptionData p \<equiv> ptr_add p 2"

definition ndp_createOptionLinkLayerAddressCore :: "u8 \<Rightarrow> ptr \<Rightarrow> ('z cheap_scheme, ptr) cm" where
  "ndp_createOptionLinkLayerAddressCore type etherAddr =
     (if type \<noteq> 1 \<and> type \<noteq> 2 then ret Null
      else
        bindc (malloc (ndp_optOffset + 6)) (\<lambda>option.
        thenc (store8 (ndp_Type option) type) (
        thenc (store8 (ndp_Length option) 1) (
        let data = ndp_OptionData option in
        thenc (memcpy (ptr_add data 0) etherAddr 6) (
        ret option)))))"

definition ndp_createOptionSourceLinkLayerAddress :: "ptr \<Rightarrow> ('z cheap_scheme, ptr) cm" where
  "ndp_createOptionSourceLinkLayerAddress etherAddr =
     ndp_createOptionLinkLayerAddressCore 1 etherAddr"

definition ndp_createOptionTargetLinkLayerAddress :: "ptr \<Rightarrow> ('z cheap_scheme, ptr) cm" where
  "ndp_createOptionTargetLinkLayerAddress etherAddr =
     ndp_createOptionLinkLayerAddressCore 2 etherAddr"

definition ndp_createOptionPrefixInformation ::
  "u8 \<Rightarrow> u32 \<Rightarrow> u32 \<Rightarrow> u32 \<Rightarrow> in6_addr \<Rightarrow> ('z cheap_scheme, ptr) cm" where
  "ndp_createOptionPrefixInformation prefixLength flags validLifetime preferredLifetime prefix =
     bindc (malloc (ndp_optOffset + sizeof_ndp_opt_PrefixInformation)) (\<lambda>option.
     thenc (store8 (ndp_Type option) 3) (
     thenc (store8 (ndp_Length option) 4) (
     let data = ndp_OptionData option in
     thenc (store8 (ptr_add data 0) prefixLength) (
     thenc (store8 (ptr_add data 1) (ucast (flags AND 0xC0))) (
     thenc (store32 (ptr_add data 2) (htobe32 validLifetime)) (
     thenc (store32 (ptr_add data 6) (htobe32 preferredLifetime)) (
     thenc (store32 (ptr_add data 10) 0x00) (
     thenc (memcpy_local (ptr_add data 14) (in6_bytes prefix) 16) (
     ret option)))))))))"

definition ndp_createOptionMtu :: "u32 \<Rightarrow> ('z cheap_scheme, ptr) cm" where
  "ndp_createOptionMtu mtu =
     bindc (malloc (ndp_optOffset + sizeof_ndp_opt_Mtu)) (\<lambda>option.
     thenc (store8 (ndp_Type option) 5) (
     thenc (store8 (ndp_Length option) 1) (
     let data = ndp_OptionData option in
     thenc (store16 (ptr_add data 0) 0x00) (
     thenc (store32 (ptr_add data 2) (htobe32 mtu)) (
     ret option)))))"

definition ndp_createOptionAdvertisementIntervalOption ::
  "u32 \<Rightarrow> ('z cheap_scheme, ptr) cm" where
  "ndp_createOptionAdvertisementIntervalOption interval =
     bindc (malloc (NDP_OPT_ADVERTISEMENT_INTERVAL_PROP_LEN * 8)) (\<lambda>option.
     let subOption = ndp_OptionData option in
     thenc (store32 (ptr_add subOption 2) (htobe32 interval)) (
     ret option))"

text \<open>
  The check of \<open>prefixLength > 128\<close> has an empty body in the source, and the code that would
  clear the bits after the prefix is commented out.
\<close>

definition ndp_createOptionRouteInformation ::
  "u8 \<Rightarrow> u8 \<Rightarrow> u32 \<Rightarrow> in6_addr \<Rightarrow> ('z cheap_scheme, ptr) cm" where
  "ndp_createOptionRouteInformation prefixLength routePreference routeLifetime prefix =
     (let propLen = NDP_OPT_ROUTE_INFORMATION_PROP_LEN;
          propLen = (if prefixLength \<noteq> 0 then propLen + (ucast (prefixLength div 64) + 1) else propLen)
      in
     bindc (malloc (propLen * 8)) (\<lambda>option.
     thenc (store8 (ndp_Type option) 24) (
     thenc (store8 (ndp_Length option) (ucast propLen)) (
     let subOption = ndp_OptionData option in
     thenc (store8 (ptr_add subOption 0) prefixLength) (
     thenc (store8 (ptr_add subOption 1) routePreference) (
     thenc (store32 (ptr_add subOption 2) (htobe32 routeLifetime)) (
     if prefixLength = 0 then ret option
     else
       thenc (memcpy_local (ptr_add subOption 6) (in6_bytes prefix) ((propLen - 1) * 8)) (
       ret option))))))))"

section \<open>The objects the constructors leave\<close>

definition ndp_lla_image :: "u8 \<Rightarrow> mval list \<Rightarrow> mval list" where
  "ndp_lla_image type mac = map Byte [type, 1] @ mac"

definition ndp_prefix_image :: "u8 \<Rightarrow> u32 \<Rightarrow> u32 \<Rightarrow> u32 \<Rightarrow> in6_addr \<Rightarrow> mval list" where
  "ndp_prefix_image pl flags valid preferred prefix = map Byte (ndp_optPayload_bytes
     \<lparr>opt_Type = 3, opt_Length = 4, opt_OptionData = ndp_opt_PrefixInformation_bytes
       \<lparr>pi_PrefixLength = pl, pi_Flags = ucast (flags AND 0xC0),
        pi_ValidLifetime = htobe32 valid, pi_PreferredLifetime = htobe32 preferred,
        pi_Reserved = 0, pi_Prefix = prefix\<rparr>\<rparr>)"

definition ndp_mtu_image :: "u32 \<Rightarrow> mval list" where
  "ndp_mtu_image mtu = map Byte (ndp_optPayload_bytes
     \<lparr>opt_Type = 5, opt_Length = 1, opt_OptionData = ndp_opt_Mtu_bytes
       \<lparr>mtu_Reserved = 0, mtu_Mtu = htobe32 mtu\<rparr>\<rparr>)"

definition ndp_route_units :: "u8 \<Rightarrow> nat" where
  "ndp_route_units pl = (if pl = 0 then 1 else unat pl div 64 + 2)"

definition ndp_route_image :: "u8 \<Rightarrow> u8 \<Rightarrow> u32 \<Rightarrow> in6_addr \<Rightarrow> mval list" where
  "ndp_route_image pl pref lifetime prefix = map Byte (ndp_optPayload_bytes
     \<lparr>opt_Type = 24, opt_Length = of_nat (ndp_route_units pl),
      opt_OptionData = ndp_opt_RouteInformation_bytes
       \<lparr>ri_PrefixLength = pl, ri_RoutePreference = pref, ri_RouteLifetime = htobe32 lifetime,
        ri_Prefix = take (8 * (ndp_route_units pl - 1)) (in6_bytes prefix)\<rparr>\<rparr>)"

lemmas ndp_image_defs = ndp_lla_image_def ndp_prefix_image_def ndp_mtu_image_def
  ndp_route_image_def

lemma length_ndp_images [simp]:
  "length (ndp_lla_image t mac) = 2 + length mac"
  "length (ndp_prefix_image pl f v p a) = 32"
  "length (ndp_mtu_image m) = 8"
  by (simp_all add: ndp_image_defs wire_simps)

lemma ndp_lla_core_run:
  assumes "type = 1 \<or> type = 2" and "readable mac 6 h"
  shows "ndp_createOptionLinkLayerAddressCore type mac h = (if 8 \<le> avail h
    then Inr (Ptr (next_block h) 0, push_block (ndp_lla_image type (peek mac 6 h)) h)
    else Inl NullDeref)"
  using assms
  by (auto simp: ndp_createOptionLinkLayerAddressCore_def ndp_sizeof_defs cm_simps int_enc_def
      ndp_lla_image_def patch_def wild_fault_def)

lemma ndp_mtu_run:
  "ndp_createOptionMtu mtu h = (if 8 \<le> avail h
    then Inr (Ptr (next_block h) 0, push_block (ndp_mtu_image mtu) h) else Inl NullDeref)"
  by (simp add: ndp_createOptionMtu_def ndp_sizeof_defs cm_simps int_enc_def patch_def
      ndp_mtu_image_def wire_simps)

lemma ndp_prefix_run:
  "ndp_createOptionPrefixInformation pl f v p a h = (if 32 \<le> avail h
    then Inr (Ptr (next_block h) 0, push_block (ndp_prefix_image pl f v p a) h)
    else Inl NullDeref)"
  by (simp add: ndp_createOptionPrefixInformation_def ndp_sizeof_defs cm_simps int_enc_def
      patch_def ndp_prefix_image_def wire_simps)

text \<open>The division of the source, for the three lengths a valid prefix can need.\<close>

lemma ndp_route_div64:
  "(ucast (pl div 64 :: u8) :: u64) = of_nat (unat pl div 64)"
proof -
  have "unat (pl div 64) = unat pl div 64"
    by (simp add: unat_div_distrib)
  then show ?thesis by (metis unsigned_ucast_eq of_nat_unat)
qed

lemma ndp_route_cases:
  assumes "pl < (128 :: u8)"
  obtains "pl = 0" "ndp_route_units pl = 1"
  | "pl \<noteq> 0" "unat pl div 64 = 0" "ndp_route_units pl = 2"
  | "pl \<noteq> 0" "unat pl div 64 = 1" "ndp_route_units pl = 3"
proof -
  have "unat pl < 128" using assms by (simp add: word_less_nat_alt)
  then have "unat pl div 64 = 0 \<or> unat pl div 64 = 1" by linarith
  then show thesis using that by (auto simp: ndp_route_units_def)
qed

lemma length_ndp_route_image:
  assumes "pl < 128"
  shows "length (ndp_route_image pl pref lt a) = 8 * ndp_route_units pl"
  using assms by (cases rule: ndp_route_cases) (simp_all add: ndp_route_image_def wire_simps)

lemma ndp_route_run:
  assumes "pl < 128"
  shows "ndp_createOptionRouteInformation pl pref lt a h =
    (if 8 * ndp_route_units pl \<le> avail h
     then Inr (Ptr (next_block h) 0, push_block (ndp_route_image pl pref lt a) h)
     else Inl NullDeref)"
  using assms
  by (cases rule: ndp_route_cases)
    (simp_all add: ndp_createOptionRouteInformation_def ndp_sizeof_defs ndp_route_div64 cm_simps
      int_enc_def patch_def ndp_route_image_def wire_simps)

lemma ndp_route_overread:
  assumes "128 \<le> (pl :: u8)" and "40 \<le> avail h"
  shows "ndp_createOptionRouteInformation pl pref lt a h = Inl OutOfBounds"
proof -
  have "128 \<le> unat pl" using assms(1) by (simp add: word_le_nat_alt)
  moreover have "unat pl < 256" using unsigned_less [of pl] by simp
  ultimately have "unat pl div 64 = 2 \<or> unat pl div 64 = 3" by linarith
  moreover have "pl \<noteq> 0" using assms(1) by auto
  ultimately show ?thesis using assms(2)
    by (auto simp: ndp_createOptionRouteInformation_def ndp_sizeof_defs ndp_route_div64 cm_simps
      int_enc_def patch_def)
qed

lemma ndp_interval_run:
  "ndp_createOptionAdvertisementIntervalOption i h = (if 8 \<le> avail h
    then Inr (Ptr (next_block h) 0,
      push_block ([Undef, Undef, Undef, Undef] @ map Byte (be_bytes 4 i)) h)
    else Inl NullDeref)"
  by (simp add: ndp_createOptionAdvertisementIntervalOption_def ndp_sizeof_defs cm_simps
      int_enc_def patch_def wild_fault_def)

text \<open>The option the constructor is meant to leave: type 7, length 1, no reserved bits. Of its
  eight bytes only the last four, the interval, are written.\<close>

definition ndp_interval_intended :: "u32 \<Rightarrow> ndp_optPayload" where
  "ndp_interval_intended i = \<lparr>opt_Type = NDP_OPT_ADVERTISEMENT_INTERVAL_PROP_TYPE,
     opt_Length = ucast NDP_OPT_ADVERTISEMENT_INTERVAL_PROP_LEN,
     opt_OptionData = ndp_opt_AdvertisementInterval_bytes
       \<lparr>ai_Reserved = 0, ai_AdvertisementInterval = htobe32 i\<rparr>\<rparr>"

lemma ndp_interval_written:
  "replicate 4 Undef @ drop 4 (map Byte (ndp_optPayload_bytes (ndp_interval_intended i))) =
     [Undef, Undef, Undef, Undef] @ map Byte (be_bytes 4 i)"
  by (simp add: ndp_interval_intended_def wire_simps)

section \<open>The constructors keep the contract\<close>

interpretation lla_opt: fresh_object
  "\<lambda>(type, mac). ndp_createOptionLinkLayerAddressCore type mac"
  "\<lambda>(type, mac) h. (type = 1 \<or> type = 2) \<and> readable mac 6 h"
  "\<lambda>(type, mac) h. ndp_lla_image type (peek mac 6 h)"
  by unfold_locales (auto simp: ndp_lla_core_run)

interpretation prefix_opt: fresh_object
  "\<lambda>(pl, f, v, p, a). ndp_createOptionPrefixInformation pl f v p a"
  "\<lambda>_ _. True" "\<lambda>(pl, f, v, p, a) h. ndp_prefix_image pl f v p a"
  by unfold_locales (auto simp: ndp_prefix_run)

interpretation mtu_opt: fresh_object
  ndp_createOptionMtu "\<lambda>_ _. True" "\<lambda>m h. ndp_mtu_image m"
  by unfold_locales (auto simp: ndp_mtu_run)

interpretation route_opt: fresh_object
  "\<lambda>(pl, pref, lt, a). ndp_createOptionRouteInformation pl pref lt a"
  "\<lambda>(pl, _) _. pl < 128" "\<lambda>(pl, pref, lt, a) h. ndp_route_image pl pref lt a"
  by unfold_locales (auto simp: ndp_route_run length_ndp_route_image)

interpretation interval_opt: fresh_object
  ndp_createOptionAdvertisementIntervalOption "\<lambda>_ _. True"
  "\<lambda>i h. [Undef, Undef, Undef, Undef] @ map Byte (be_bytes 4 i)"
  by unfold_locales (auto simp: ndp_interval_run)

end
