(* ===== verification/Ndp_Wire.thy ===== *)
theory Ndp_Wire
  imports Ndp_Options
begin

text \<open>
  The abstract specification of Neighbor Discovery options on the wire (RFC 4861 section
  4.6, RFC 4191 section 2.3): an abstract syntax, the octets of each option in network
  order, and a receiver that parses a sequence of options. It is written from the
  standards and independent of the code; the lemmas at the end say that what the
  constructors leave on the heap is the encoding of the intended option.
\<close>

datatype ndp_option =
    SourceLinkLayer "u8 list"
  | TargetLinkLayer "u8 list"
  | PrefixInfo u8 u8 u32 u32 in6_addr
  | MtuInfo u32
  | RouteInfo u8 u8 u32 "u8 list"
  | OtherOption u8 "u8 list"

primrec ndp_encode :: "ndp_option \<Rightarrow> u8 list" where
  "ndp_encode (SourceLinkLayer mac) = [1, 1] @ mac"
| "ndp_encode (TargetLinkLayer mac) = [2, 1] @ mac"
| "ndp_encode (PrefixInfo pl flags valid preferred prefix) =
     [3, 4, pl, flags] @ be_bytes 4 valid @ be_bytes 4 preferred @ [0, 0, 0, 0] @ be_bytes 16 prefix"
| "ndp_encode (MtuInfo mtu) = [5, 1, 0, 0] @ be_bytes 4 mtu"
| "ndp_encode (RouteInfo pl pref lifetime prefix) =
     [24, 1 + of_nat (length prefix div 8), pl, pref] @ be_bytes 4 lifetime @ prefix"
| "ndp_encode (OtherOption ty body) = [ty, of_nat ((length body + 2) div 8)] @ body"

text \<open>What a receiver makes of one option body; \<open>None\<close> is a body of the wrong size.\<close>

definition ndp_interpret :: "u8 \<Rightarrow> u8 list \<Rightarrow> ndp_option option" where
  "ndp_interpret ty body =
     (if ty = 1 then (if length body = 6 then Some (SourceLinkLayer body) else None)
      else if ty = 2 then (if length body = 6 then Some (TargetLinkLayer body) else None)
      else if ty = 3 then
        (if length body = 30
         then Some (PrefixInfo (body ! 0) (body ! 1) (from_be (segment 2 4 body))
                (from_be (segment 6 4 body)) (from_be (segment 14 16 body)))
         else None)
      else if ty = 5 then (if length body = 6 then Some (MtuInfo (from_be (segment 2 4 body))) else None)
      else if ty = 24 then
        (if length body \<in> {6, 14, 22}
         then Some (RouteInfo (body ! 0) (body ! 1) (from_be (segment 2 4 body)) (drop 6 body))
         else None)
      else Some (OtherOption ty body))"

function ndp_decode :: "u8 list \<Rightarrow> ndp_option list option" where
  "ndp_decode [] = Some []"
| "ndp_decode [t] = None"
| "ndp_decode (t # len # rest) =
     (let n = 8 * unat len - 2 in
      if len = 0 \<or> length rest < n then None
      else case ndp_interpret t (take n rest) of
          None \<Rightarrow> None
        | Some opt \<Rightarrow> map_option (Cons opt) (ndp_decode (drop n rest)))"
  by pat_completeness auto
termination by (relation "measure length") auto

fun ndp_option_wf :: "ndp_option \<Rightarrow> bool" where
  "ndp_option_wf (SourceLinkLayer mac) \<longleftrightarrow> length mac = 6"
| "ndp_option_wf (TargetLinkLayer mac) \<longleftrightarrow> length mac = 6"
| "ndp_option_wf (RouteInfo pl pref lifetime prefix) \<longleftrightarrow> length prefix \<in> {0, 8, 16}"
| "ndp_option_wf (OtherOption ty body) \<longleftrightarrow>
     ty \<notin> {1, 2, 3, 5, 24} \<and> length body mod 8 = 6 \<and> length body < 2038"
| "ndp_option_wf _ \<longleftrightarrow> True"

lemma from_be_be_bytes [simp]:
  "from_be (be_bytes 4 (w::u32)) = w" "from_be (be_bytes 16 (a::in6_addr)) = a"
  by (simp_all add: from_be_def be_bytes_def from_le_le_bytes take_bit_word_eq_self)

lemma ndp_decode_encode_other:
  assumes "ndp_option_wf (OtherOption ty body)"
  shows "ndp_decode (ndp_encode (OtherOption ty body) @ rest) =
    map_option (Cons (OtherOption ty body)) (ndp_decode rest)"
proof -
  let ?n = "(length body + 2) div 8"
  have n: "8 * ?n = length body + 2" "?n < 256" "0 < ?n"
    using assms by (auto simp: mod_eq_0_iff_dvd) presburger+
  then have "unat (of_nat ?n :: u8) = ?n" by (simp add: unat_of_nat)
  moreover from this n have "(of_nat ?n :: u8) \<noteq> 0" by (metis unat_0 less_irrefl)
  ultimately show ?thesis using assms n by (auto simp: ndp_interpret_def Let_def)
qed

theorem ndp_decode_encode1:
  assumes "ndp_option_wf opt"
  shows "ndp_decode (ndp_encode opt @ rest) = map_option (Cons opt) (ndp_decode rest)"
proof (cases opt)
  case (RouteInfo pl pref lifetime prefix)
  with assms show ?thesis by (auto simp: ndp_interpret_def segment_def)
next
  case (OtherOption ty body)
  with assms show ?thesis by (simp only: ndp_decode_encode_other)
qed (use assms in \<open>simp_all add: ndp_interpret_def segment_def\<close>)

interpretation ndp_codec: option_codec ndp_encode ndp_decode ndp_option_wf
  by unfold_locales (simp_all add: ndp_decode_encode1)

lemmas ndp_decode_encode = ndp_codec.decode_encode

text \<open>The encoding is a whole number of 8-octet units, and its second octet says how many.\<close>

definition ndp_units :: "ndp_option \<Rightarrow> u8" where
  "ndp_units opt = ndp_encode opt ! 1"

lemma ndp_encode_length:
  assumes "ndp_option_wf opt"
  shows "length (ndp_encode opt) = 8 * unat (ndp_units opt)" and "0 < unat (ndp_units opt)"
proof -
  have "length (ndp_encode opt) = 8 * unat (ndp_units opt) \<and> 0 < unat (ndp_units opt)"
  proof (cases opt)
    case (OtherOption ty body)
    let ?n = "(length body + 2) div 8"
    have n: "8 * ?n = length body + 2" "?n < 256" "0 < ?n"
      using assms OtherOption by (auto simp: mod_eq_0_iff_dvd) presburger+
    then have u: "unat (of_nat ?n :: u8) = ?n" by (simp add: unat_of_nat)
    then show ?thesis using OtherOption n by (simp add: ndp_units_def)
  qed (use assms in \<open>auto simp: ndp_units_def\<close>)
  then show "length (ndp_encode opt) = 8 * unat (ndp_units opt)"
    and "0 < unat (ndp_units opt)" by auto
qed

section \<open>The constructors build the specified options\<close>

lemma ndp_lla_image_encodes:
  "length mac = 6 \<Longrightarrow> ndp_lla_image 1 (map Byte mac) = map Byte (ndp_encode (SourceLinkLayer mac))"
  "length mac = 6 \<Longrightarrow> ndp_lla_image 2 (map Byte mac) = map Byte (ndp_encode (TargetLinkLayer mac))"
  by (simp_all add: ndp_lla_image_def)

lemma ndp_prefix_image_encodes:
  "ndp_prefix_image pl flags valid preferred prefix =
     map Byte (ndp_encode (PrefixInfo pl (ucast (flags AND 0xC0)) valid preferred prefix))"
  by (simp add: ndp_prefix_image_def wire_simps in6_bytes_def)

lemma ndp_mtu_image_encodes: "ndp_mtu_image mtu = map Byte (ndp_encode (MtuInfo mtu))"
  by (simp add: ndp_mtu_image_def wire_simps)

definition ndp_route_prefix :: "u8 \<Rightarrow> in6_addr \<Rightarrow> u8 list" where
  "ndp_route_prefix pl prefix = take (8 * (ndp_route_units pl - 1)) (be_bytes 16 prefix)"

lemma ndp_route_image_encodes:
  assumes "pl < 128"
  shows "ndp_route_image pl pref lifetime prefix =
    map Byte (ndp_encode (RouteInfo pl pref lifetime (ndp_route_prefix pl prefix)))"
  using assms
  by (cases rule: ndp_route_cases)
    (simp_all add: ndp_route_image_def ndp_route_prefix_def wire_simps in6_bytes_def)

section \<open>Router Advertisements\<close>

text \<open>RFC 4861 section 4.2: the message, its octets, and a receiver's reading of them.\<close>

record ra_message =
  ra_hop_limit :: u8
  ra_flags :: u8
  ra_lifetime :: u16
  ra_reachable_time :: u32
  ra_retrans_timer :: u32
  ra_options :: "ndp_option list"

definition ra_encode :: "u16 \<Rightarrow> ra_message \<Rightarrow> u8 list" where
  "ra_encode cksum m = [134, 0] @ be_bytes 2 cksum @ [ra_hop_limit m, ra_flags m] @
     be_bytes 2 (ra_lifetime m) @ be_bytes 4 (ra_reachable_time m) @
     be_bytes 4 (ra_retrans_timer m) @ concat (map ndp_encode (ra_options m))"

definition ra_decode :: "u8 list \<Rightarrow> (u16 \<times> ra_message) option" where
  "ra_decode bs =
     (if length bs < 16 \<or> bs ! 0 \<noteq> 134 \<or> bs ! 1 \<noteq> 0 then None
      else map_option (\<lambda>opts. (from_be (segment 2 2 bs),
          \<lparr>ra_hop_limit = bs ! 4, ra_flags = bs ! 5, ra_lifetime = from_be (segment 6 2 bs),
           ra_reachable_time = from_be (segment 8 4 bs),
           ra_retrans_timer = from_be (segment 12 4 bs), ra_options = opts\<rparr>))
        (ndp_decode (drop 16 bs)))"

lemma length_ra_encode [simp]:
  "length (ra_encode c m) = 16 + length (concat (map ndp_encode (ra_options m)))"
  by (simp add: ra_encode_def)

lemma from_be_be_bytes16 [simp]: "from_be (be_bytes 2 (w::u16)) = w"
  by (simp add: from_be_def be_bytes_def)

theorem ra_decode_encode:
  assumes "list_all ndp_option_wf (ra_options m)"
  shows "ra_decode (ra_encode c m) = Some (c, m)"
  using ndp_decode_encode [OF assms]
  by (simp add: ra_decode_def) (simp add: ra_encode_def segment_def nth_append)

section \<open>Properties\<close>

text \<open>A receiver that reads the octets at \<open>p\<close> finds this option.\<close>

definition ndp_reads :: "'z cheap_scheme \<Rightarrow> ptr \<Rightarrow> ndp_option \<Rightarrow> bool" where
  "ndp_reads h p opt \<longleftrightarrow> (\<exists>bs. load_raw p (length (ndp_encode opt)) h = Inr (map Byte bs, h) \<and>
     ndp_decode bs = Some [opt])"

lemma ndp_readsI:
  assumes "ndp_option_wf opt" and "vs = map Byte (ndp_encode opt)"
  shows "ndp_reads (push_block vs h) (Ptr (next_block h) 0) opt"
  using ndp_decode_encode1 [OF assms(1), of "[]"] assms(2)
  by (auto simp: ndp_reads_def cm_simps segment_all)

text \<open>The Prefix Information constructor: a receiver reads back the prefix, its length, the
  lifetimes and the flags L and A, and no other flag.\<close>

theorem prefix_option_decodes:
  assumes "ndp_createOptionPrefixInformation pl flags valid preferred prefix h = Inr (p, h')"
  shows "ndp_reads h' p (PrefixInfo pl (ucast (flags AND 0xC0)) valid preferred prefix)"
  using assms
  by (auto simp: ndp_prefix_run split: if_splits intro!: ndp_readsI ndp_prefix_image_encodes)

theorem prefix_option_decodes_witness:
  "\<exists>p h'. ndp_createOptionPrefixInformation 64 0xC0 48000 24000 7 (sample_heap [] 32) = Inr (p, h') \<and>
    ndp_reads h' p (PrefixInfo 64 0xC0 48000 24000 7)"
proof -
  obtain p h' where run: "ndp_createOptionPrefixInformation 64 0xC0 48000 24000 7 (sample_heap [] 32) =
      Inr (p, h')" by (simp add: ndp_prefix_run)
  from prefix_option_decodes [OF run] run show ?thesis by auto
qed

text \<open>The link-layer address constructors copy the six bytes of the address into an option of
  the right type; any other type gives NULL and touches nothing.\<close>

theorem link_layer_options_decode:
  assumes "load_raw mac 6 h = Inr (map Byte bs, h)" and "readable mac 6 h" and "8 \<le> avail h"
  shows "(\<exists>p h'. ndp_createOptionSourceLinkLayerAddress mac h = Inr (p, h') \<and>
      ndp_reads h' p (SourceLinkLayer bs)) \<and>
    (\<exists>p h'. ndp_createOptionTargetLinkLayerAddress mac h = Inr (p, h') \<and>
      ndp_reads h' p (TargetLinkLayer bs)) \<and>
    (\<forall>ty. ty \<noteq> 1 \<and> ty \<noteq> 2 \<longrightarrow> ndp_createOptionLinkLayerAddressCore ty mac h = Inr (Null, h))"
proof -
  have bs: "peek mac 6 h = map Byte bs" "length bs = 6"
    using assms(1) length_peek [OF assms(2)] by (simp_all add: load_raw_readable [OF assms(2)])
  have "ndp_reads (push_block (ndp_lla_image 1 (map Byte bs)) h) (Ptr (next_block h) 0) (SourceLinkLayer bs)"
    and "ndp_reads (push_block (ndp_lla_image 2 (map Byte bs)) h) (Ptr (next_block h) 0) (TargetLinkLayer bs)"
    using bs by (auto intro!: ndp_readsI ndp_lla_image_encodes)
  then show ?thesis using assms(2,3) bs
    by (simp add: ndp_createOptionSourceLinkLayerAddress_def ndp_createOptionTargetLinkLayerAddress_def
        ndp_lla_core_run) (simp add: ndp_createOptionLinkLayerAddressCore_def cm_simps)
qed

theorem link_layer_options_decode_witness:
  "\<exists>p h'. ndp_createOptionSourceLinkLayerAddress (Ptr 0 0) (sample_heap [map Byte [1, 2, 3, 4, 5, 6]] 8) =
      Inr (p, h') \<and> ndp_reads h' p (SourceLinkLayer [1, 2, 3, 4, 5, 6])"
  using link_layer_options_decode [of "Ptr 0 0" "sample_heap [map Byte [1, 2, 3, 4, 5, 6]] 8"
      "[1, 2, 3, 4, 5, 6]"]
  by (simp add: cm_simps segment_def)

text \<open>The MTU constructor.\<close>

theorem mtu_option_decodes:
  assumes "ndp_createOptionMtu mtu h = Inr (p, h')"
  shows "ndp_reads h' p (MtuInfo mtu)"
  using assms by (auto simp: ndp_mtu_run split: if_splits intro!: ndp_readsI ndp_mtu_image_encodes)

theorem mtu_option_decodes_witness:
  "\<exists>p h'. ndp_createOptionMtu 1500 (sample_heap [] 8) = Inr (p, h') \<and> ndp_reads h' p (MtuInfo 1500)"
proof -
  obtain p h' where run: "ndp_createOptionMtu 1500 (sample_heap [] 8) = Inr (p, h')"
    by (simp add: ndp_mtu_run)
  from mtu_option_decodes [OF run] run show ?thesis by auto
qed

text \<open>C20: The Route Information constructor, for prefix lengths below 128: the option has one, two
  or three units and the receiver reads back the first 0, 8 or 16 octets of the prefix as
  they are, with no bit after the prefix length cleared.\<close>

theorem route_option_decodes:
  assumes "pl < 128" and "ndp_createOptionRouteInformation pl pref lifetime prefix h = Inr (p, h')"
  shows "ndp_reads h' p (RouteInfo pl pref lifetime
    (take (if pl = 0 then 0 else if pl < 64 then 8 else 16) (be_bytes 16 prefix)))"
proof -
  have pl: "unat pl div 64 = 0 \<longleftrightarrow> pl < 64" by (simp add: word_less_nat_alt div_eq_0_iff)
  have "ndp_route_prefix pl prefix =
      take (if pl = 0 then 0 else if pl < 64 then 8 else 16) (be_bytes 16 prefix)"
    using assms(1) by (cases rule: ndp_route_cases) (auto simp: ndp_route_prefix_def simp flip: pl)
  moreover have "ndp_option_wf (RouteInfo pl pref lifetime (ndp_route_prefix pl prefix))"
    using assms(1) by (cases rule: ndp_route_cases) (auto simp: ndp_route_prefix_def)
  note ndp_readsI [OF this ndp_route_image_encodes [OF assms(1)], of h]
  moreover have "p = Ptr (next_block h) 0" "h' = push_block (ndp_route_image pl pref lifetime prefix) h"
    using assms by (auto simp: ndp_route_run split: if_splits)
  ultimately show ?thesis by metis
qed

theorem route_option_decodes_witness:
  "\<exists>p h'. ndp_createOptionRouteInformation 56 0 48000 0 (sample_heap [] 16) = Inr (p, h') \<and>
    ndp_reads h' p (RouteInfo 56 0 48000 (replicate 8 0))"
proof -
  have pl: "(56 :: u8) < 128" by simp
  obtain p h' where run: "ndp_createOptionRouteInformation 56 0 48000 0 (sample_heap [] 16) = Inr (p, h')"
    by (simp add: ndp_route_run ndp_route_units_def)
  from route_option_decodes [OF pl run] run show ?thesis by auto
qed

text \<open>C21: For a prefix length of 128 or more, which the constructor does not refuse, it asks for
  a Length of 4 or 5 and copies beyond the end of the 16-byte address.\<close>

theorem route_option_overreads:
  assumes "128 \<le> pl" and "40 \<le> avail h"
  shows "ndp_createOptionRouteInformation pl pref lifetime prefix h = Inl OutOfBounds"
  by (rule ndp_route_overread [OF assms])

theorem route_option_overreads_witness:
  "ndp_createOptionRouteInformation 128 0 48000 0 (sample_heap [] 40) = Inl OutOfBounds"
  by (rule route_option_overreads) simp_all

end
