(* ===== verification/Ndp_Packets.thy ===== *)
theory Ndp_Packets
  imports Ndp_Wire
begin

text \<open>
  \<open>Inc/ndp_packets.h\<close> and \<open>Src/ndp_packets.c\<close>: the Router Advertisement builder and the
  ICMPv6 checksum routines.
\<close>

section \<open>Constants\<close>

text \<open>\<open>enum ndp_ra_flag\<close>, combined with bit operations in the source.\<close>

definition ndp_ra_flag_M :: u32 where "ndp_ra_flag_M = 0b10000000"
definition ndp_ra_flag_O :: u32 where "ndp_ra_flag_O = 0b01000000"
definition ndp_ra_flag_H :: u32 where "ndp_ra_flag_H = 0b00100000"
definition ndp_ra_flag_Prf_Medium :: u32 where "ndp_ra_flag_Prf_Medium = 0b00000000"
definition ndp_ra_flag_Prf_High :: u32 where "ndp_ra_flag_Prf_High = 0b00001000"
definition ndp_ra_flag_Prf_Low :: u32 where "ndp_ra_flag_Prf_Low = 0b00011000"
definition ndp_ra_flag_Invalid :: u32 where "ndp_ra_flag_Invalid = 0b00010000"
definition ndp_ra_flag_P :: u32 where "ndp_ra_flag_P = 0b00000100"
definition ndp_ra_flag_R :: u32 where "ndp_ra_flag_R = 0b11111100"

text \<open>From \<open>netinet/icmp6.h\<close> and \<open>netinet/in.h\<close>.\<close>

definition ND_ROUTER_ADVERT :: u8 where "ND_ROUTER_ADVERT = 134"
definition IPPROTO_ICMPV6 :: u8 where "IPPROTO_ICMPV6 = 58"
definition sizeof_nd_router_advert :: u64 where "sizeof_nd_router_advert = 16"

abbreviation (input) icmp6_type :: "ptr \<Rightarrow> ptr" where "icmp6_type p \<equiv> ptr_add p 0"
abbreviation (input) icmp6_code :: "ptr \<Rightarrow> ptr" where "icmp6_code p \<equiv> ptr_add p 1"
abbreviation (input) icmp6_cksum :: "ptr \<Rightarrow> ptr" where "icmp6_cksum p \<equiv> ptr_add p 2"
abbreviation (input) icmp6_data8 :: "ptr \<Rightarrow> nat \<Rightarrow> ptr" where "icmp6_data8 p i \<equiv> ptr_add p (4 + i)"
abbreviation (input) icmp6_data16 :: "ptr \<Rightarrow> nat \<Rightarrow> ptr" where
  "icmp6_data16 p i \<equiv> ptr_add p (4 + 2 * i)"
abbreviation (input) nd_ra_reachable :: "ptr \<Rightarrow> ptr" where "nd_ra_reachable p \<equiv> ptr_add p 8"
abbreviation (input) nd_ra_retransmit :: "ptr \<Rightarrow> ptr" where "nd_ra_retransmit p \<equiv> ptr_add p 12"

section \<open>Checksum\<close>

record ndp_pseudoHeader =
  SourceAddress :: in6_addr
  DestinationAddress :: in6_addr
  UpperLayerPacketLength :: u32
  Zero :: "u8 list"
  NextHeader :: u8

definition ndp_pseudoHeader_bytes :: "ndp_pseudoHeader \<Rightarrow> u8 list" where
  "ndp_pseudoHeader_bytes r = in6_bytes (SourceAddress r) @ in6_bytes (DestinationAddress r) @
     le_bytes 4 (UpperLayerPacketLength r) @ Zero r @ [NextHeader r]"

text \<open>
  The array argument \<open>const uint16_t *data\<close> is its element reader, since one call passes a
  local structure and the other the packet on the heap. The body of the loop is
  \<open>csum_add\<close>; \<open>int sum\<close> (here \<open>acc\<close>) is 32 bits wide and its shift is arithmetic.
\<close>

definition csum_add :: "u32 \<Rightarrow> u16 \<Rightarrow> u32" where
  "csum_add acc d =
     (let acc = acc + ucast d in
      if acc AND 0xFFFF0000 \<noteq> 0 then (acc AND 0xFFFF) + signed_drop_bit 16 acc else acc)"

primrec csum_loop :: "(nat \<Rightarrow> ('s, u16) cm) \<Rightarrow> nat \<Rightarrow> nat \<Rightarrow> u32 \<Rightarrow> ('s, u32) cm" where
  "csum_loop data i 0 acc = ret acc"
| "csum_loop data i (Suc n) acc =
     bindc (data i) (\<lambda>d. csum_loop data (Suc i) n (csum_add acc d))"

definition ndp_checksumCalCore ::
  "u32 \<Rightarrow> (nat \<Rightarrow> ('s, u16) cm) \<Rightarrow> u64 \<Rightarrow> ('s, u32 \<times> u32) cm" where
  "ndp_checksumCalCore buf data sz =
     (if sz AND 1 \<noteq> 0 then ret (-1, buf)
      else bindc (csum_loop data 0 (unat (sz div 2)) 0) (\<lambda>acc. ret (0, acc)))"

definition ndp_pseudoHeader_of :: "in6_addr \<Rightarrow> in6_addr \<Rightarrow> u64 \<Rightarrow> ndp_pseudoHeader" where
  "ndp_pseudoHeader_of sourceAddr destAddr sz =
     \<lparr>SourceAddress = sourceAddr, DestinationAddress = destAddr,
      UpperLayerPacketLength = ucast sz, Zero = [0x00, 0x00, 0x00], NextHeader = IPPROTO_ICMPV6\<rparr>"

text \<open>
  \<open>buf\<close> is where the caller wants the checksum; the function never writes it. The two tests
  for a negative result of \<open>ndp_checksumCalCore\<close> have empty bodies.
\<close>

definition ndp_checksum ::
  "ptr \<Rightarrow> in6_addr \<Rightarrow> in6_addr \<Rightarrow> ptr \<Rightarrow> u64 \<Rightarrow> ('z cheap_scheme, u32) cm" where
  "ndp_checksum buf sourceAddr destAddr packet sz =
     (if packet = Null \<or> sz = 0 then ret (-1)
      else
        thenc (store16 (icmp6_cksum packet) 0x00) (
        let header = ndp_pseudoHeader_bytes (ndp_pseudoHeader_of sourceAddr destAddr sz);
            headerPtr = (\<lambda>i. ret (from_le (segment (2 * i) 2 header)))
        in
        bindc (ndp_checksumCalCore 0 headerPtr 40) (\<lambda>(_, sumHeader).
        bindc (ndp_checksumCalCore 0 (\<lambda>i. load16 (ptr_add packet (2 * i))) sz) (\<lambda>(_, sumBody).
        ret (NOT (sumHeader + sumBody) AND 0xFFFF)))))"

section \<open>Router Advertisement\<close>

primrec ra_collect :: "nat \<Rightarrow> ptr list \<Rightarrow> u64 \<Rightarrow> ('z cheap_scheme, ptr list \<times> u64) cm" where
  "ra_collect 0 vArg totalLen = ret ([], totalLen)"
| "ra_collect (Suc n) vArg totalLen = (case vArg of
       [] \<Rightarrow> raise BadVararg
     | opt # vArg \<Rightarrow>
         bindc (load8 (ndp_Length opt)) (\<lambda>l.
         bindc (ra_collect n vArg (totalLen + ucast l * 8)) (\<lambda>(optionsList, totalLen).
         ret (opt # optionsList, totalLen))))"

primrec ra_copy_options :: "ptr list \<Rightarrow> ptr \<Rightarrow> ('z cheap_scheme, unit) cm" where
  "ra_copy_options [] options = ret ()"
| "ra_copy_options (opt # optionsList) options =
     bindc (load8 (ndp_Length opt)) (\<lambda>l.
     let optionLength = (ucast l * 8 :: u32) in
     thenc (memcpy options opt (ucast optionLength)) (
     ra_copy_options optionsList (ptr_add options (unat optionLength))))"

definition ndp_createRAPacket ::
  "in6_addr \<Rightarrow> in6_addr \<Rightarrow> u8 \<Rightarrow> u16 \<Rightarrow> u32 \<Rightarrow> u32 \<Rightarrow> u32 \<Rightarrow> ptr list
    \<Rightarrow> ('z cheap_scheme, ptr \<times> u64) cm" where
  "ndp_createRAPacket sourceAddr destAddr curHopLimit routerLifeTime reachableTime reTransTimer
     optionsNum vArg =
     bindc (ra_collect (unat optionsNum) vArg sizeof_nd_router_advert) (\<lambda>(optionsList, totalLen).
     bindc (malloc totalLen) (\<lambda>pkt.
     thenc (store8 (icmp6_type pkt) ND_ROUTER_ADVERT) (
     thenc (store8 (icmp6_code pkt) 0) (
     thenc (store8 (icmp6_data8 pkt 0) curHopLimit) (
     thenc (store8 (icmp6_data8 pkt 1)
              (ucast (ndp_ra_flag_O OR (ndp_ra_flag_Prf_High AND ndp_ra_flag_R)))) (
     thenc (store16 (icmp6_data16 pkt 1) (htobe16 routerLifeTime)) (
     thenc (store32 (nd_ra_reachable pkt) (htobe32 reachableTime)) (
     thenc (store32 (nd_ra_retransmit pkt) (htobe32 reTransTimer)) (
     thenc (ra_copy_options optionsList (ptr_add pkt (unat sizeof_nd_router_advert))) (
     thenc (ndp_checksum (icmp6_cksum pkt) sourceAddr destAddr pkt totalLen) (
     ret (pkt, totalLen))))))))))))"

section \<open>The checksum loop computes the one's complement sum\<close>

text \<open>
  RFC 1071: the sum of 16-bit words with end-around carry, and the checksum as its
  complement. \<open>oc_sum\<close> is the definition by repeated addition, \<open>fold16\<close> the closed form.
\<close>

definition oc_add :: "nat \<Rightarrow> nat \<Rightarrow> nat" where
  "oc_add a b = (if a + b < 65536 then a + b else a + b - 65535)"

definition oc_sum :: "u16 list \<Rightarrow> nat" where
  "oc_sum ws = foldl (\<lambda>a w. oc_add a (unat w)) 0 ws"

definition fold16 :: "nat \<Rightarrow> nat" where
  "fold16 s = (if s = 0 then 0 else (s - 1) mod 65535 + 1)"

definition rfc1071_checksum :: "u16 list \<Rightarrow> nat" where
  "rfc1071_checksum ws = 65535 - fold16 (sum_list (map unat ws))"

lemma fold16_less: "fold16 s < 65536"
proof -
  have "(s - 1) mod 65535 < 65535" by simp
  then show ?thesis by (simp add: fold16_def)
qed

lemma fold16_id: "s < 65536 \<Longrightarrow> fold16 s = s"
  by (auto simp: fold16_def)

lemma oc_add_fold16:
  assumes "b < 65536"
  shows "oc_add (fold16 s) b = fold16 (s + b)"
proof (cases "s = 0")
  case True
  with assms show ?thesis by (simp add: fold16_id) (simp add: fold16_def oc_add_def)
next
  case False
  define r where "r = (s - 1) mod 65535"
  have r: "r < 65535" by (simp add: r_def)
  have "(s + b - 1) mod 65535 = (r + b) mod 65535"
    using False by (simp add: r_def mod_add_left_eq)
  also have "\<dots> = (if r + b < 65535 then r + b else r + b - 65535)"
    using r assms by (auto simp: le_mod_geq)
  finally have "fold16 (s + b) = (if r + b < 65535 then r + b else r + b - 65535) + 1"
    using False by (simp add: fold16_def)
  moreover have "fold16 s = r + 1" using False by (simp add: fold16_def r_def)
  ultimately show ?thesis by (auto simp: oc_add_def)
qed

lemma foldl_oc_add:
  "foldl (\<lambda>a w. oc_add a (unat (w::u16))) (fold16 s) ws = fold16 (s + sum_list (map unat ws))"
proof (induction ws arbitrary: s)
  case Nil
  then show ?case by simp
next
  case (Cons w ws)
  have "unat w < 65536" using unsigned_less [of w] by simp
  then show ?case using Cons by (simp add: oc_add_fold16 add.assoc)
qed

lemma oc_sum_closed_form: "oc_sum ws = fold16 (sum_list (map unat ws))"
  using foldl_oc_add [of 0 ws] by (simp add: oc_sum_def fold16_def)

lemma oc_sum_less: "oc_sum ws < 65536"
  by (simp add: oc_sum_closed_form fold16_less)

lemma mask16_u32:
  fixes x :: u32
  shows "x AND 0xFFFF = take_bit 16 x" and "x AND 0xFFFF0000 = push_bit 16 (drop_bit 16 x)"
proof -
  have 1: "(0xFFFF :: u32) = mask 16" by (simp add: mask_eq_exp_minus_1)
  then show "x AND 0xFFFF = take_bit 16 x" by (simp only: take_bit_eq_mask)
  have 2: "(0xFFFF0000 :: u32) = NOT (mask 16)" by (simp add: mask_eq_exp_minus_1)
  show "x AND 0xFFFF0000 = push_bit 16 (drop_bit 16 x)"
    unfolding 2 by (rule bit_word_eqI) (auto simp: bit_simps)
qed

lemma unat_take_drop16:
  fixes x :: u32
  shows "unat (take_bit 16 x) = unat x mod 65536" and "unat (drop_bit 16 x) = unat x div 65536"
  by (simp_all add: take_bit_eq_mod drop_bit_eq_div unat_mod_distrib unat_div_distrib)

lemma signed_drop_bit16_u32:
  fixes x :: u32
  assumes "unat x < 2147483648"
  shows "signed_drop_bit 16 x = drop_bit 16 x"
proof (rule bit_word_eqI)
  fix n assume "n < LENGTH(32)"
  have "bit x 31 \<longleftrightarrow> bit (unat x) 31" by (simp add: bit_unsigned_iff)
  also have "\<dots> \<longleftrightarrow> odd (unat x div 2147483648)" by (simp add: bit_iff_odd)
  finally have "\<not> bit x 31" using assms by simp
  moreover have "\<not> bit x (16 + n)" if "16 \<le> n" using that by (simp add: bit_imp_le_length impossible_bit)
  ultimately show "bit (signed_drop_bit 16 x) n = bit (drop_bit 16 x) n"
    by (simp add: bit_simps)
qed

lemma csum_add_oc_add:
  assumes "unat acc < 65536"
  shows "unat (csum_add acc d) = oc_add (unat acc) (unat d)"
proof -
  define x where "x = acc + ucast d"
  have d: "unat d < 65536" using unsigned_less [of d] by simp
  have ux: "unat x = unat acc + unat d"
    using assms d by (simp add: x_def unat_word_ariths unsigned_ucast_eq take_bit_nat_eq_self)
  have lt: "unat x < 131072" using ux assms d by simp
  then have sdb: "signed_drop_bit 16 x = drop_bit 16 x"
    by (simp add: signed_drop_bit16_u32)
  have "unat (push_bit 16 (drop_bit 16 x)) = unat x div 65536 * 65536"
    using lt by (simp add: push_bit_eq_mult unat_word_ariths unat_take_drop16)
  then have c: "x AND 0xFFFF0000 \<noteq> 0 \<longleftrightarrow> 65536 \<le> unat x"
    by (auto simp: mask16_u32 word_unat_eq_iff)
  have "unat (take_bit 16 x + drop_bit 16 x) = unat x - 65535" if "65536 \<le> unat x"
  proof -
    have "unat x div 65536 = 1" "unat x mod 65536 = unat x - 65536"
      using that lt by (simp_all add: le_mod_geq div_nat_eqI)
    with lt show ?thesis by (simp add: unat_word_ariths unat_take_drop16)
  qed
  then show ?thesis using c ux
    by (auto simp: csum_add_def oc_add_def sdb mask16_u32 simp flip: x_def)
qed

text \<open>The 16-bit words a little-endian machine reads from a sequence of octets.\<close>

definition words16 :: "u8 list \<Rightarrow> u16 list" where
  "words16 bs = map (\<lambda>i. from_le (segment (2 * i) 2 bs)) [0..<length bs div 2]"

definition reads_words :: "(nat \<Rightarrow> ('s, u16) cm) \<Rightarrow> u8 list \<Rightarrow> 's \<Rightarrow> bool" where
  "reads_words data bs s \<longleftrightarrow>
     (\<forall>i < length bs div 2. data i s = Inr (from_le (segment (2 * i) 2 bs), s))"

lemma even_word_unat: "even (w :: 'a::len word) \<longleftrightarrow> even (unat w)"
proof -
  have "even (unat w) \<longleftrightarrow> unat w AND 1 = 0" by (simp add: and_one_eq even_iff_mod_2_eq_zero)
  also have "\<dots> \<longleftrightarrow> unat (w AND 1) = 0" by (simp add: unsigned_and_eq)
  also have "\<dots> \<longleftrightarrow> even w"
    by (simp add: unsigned_eq_0_iff and_one_eq even_iff_mod_2_eq_zero)
  finally show ?thesis by simp
qed

lemma csum_loop_run:
  assumes "\<forall>j < length ws. data (i + j) s = Inr (ws ! j, s)" and "unat acc < 65536"
  shows "\<exists>r. csum_loop data i (length ws) acc s = Inr (r, s) \<and>
    unat r = foldl (\<lambda>a w. oc_add a (unat w)) (unat acc) ws \<and> unat r < 65536"
  using assms
proof (induction ws arbitrary: i acc)
  case Nil
  then show ?case by (simp add: cm_simps)
next
  case (Cons w ws)
  have d: "data i s = Inr (w, s)" using Cons.prems(1) by force
  have "\<forall>j < length ws. data (Suc i + j) s = Inr (ws ! j, s)"
    using Cons.prems(1) by (metis add_Suc_shift length_Cons Suc_mono nth_Cons_Suc)
  moreover have a: "unat (csum_add acc w) = oc_add (unat acc) (unat w)"
    using Cons.prems(2) by (rule csum_add_oc_add)
  moreover have "oc_add (unat acc) (unat w) < 65536"
    using Cons.prems(2) unsigned_less [of w, where ?'a = nat] by (auto simp: oc_add_def)
  ultimately show ?case using Cons.IH [of "Suc i" "csum_add acc w"] d
    by (simp add: cm_simps)
qed

lemma ndp_checksumCalCore_run:
  assumes "reads_words data bs s" and "unat sz = length bs" and "even (length bs)"
  shows "\<exists>r. ndp_checksumCalCore buf data sz s = Inr ((0, r), s) \<and>
    unat r = oc_sum (words16 bs)"
proof -
  have e: "sz AND 1 = 0" using assms by (simp add: and_one_eq mod2_eq_if even_word_unat)
  have h: "unat (sz div 2) = length (words16 bs)"
    using assms(2) by (simp add: words16_def unat_div_distrib)
  have "\<forall>j < length (words16 bs). data (0 + j) s = Inr (words16 bs ! j, s)"
    using assms(1) by (auto simp: reads_words_def words16_def)
  with csum_loop_run [of "words16 bs" data 0 s 0] show ?thesis
    by (auto simp: ndp_checksumCalCore_def e h cm_simps oc_sum_def)
qed

lemma ndp_checksumCalCore_odd:
  "odd (unat sz) \<Longrightarrow> ndp_checksumCalCore buf data sz s = Inr ((-1, buf), s)"
  by (simp add: ndp_checksumCalCore_def cm_simps and_one_eq mod2_eq_if even_word_unat)

lemma unat_complement16:
  fixes x :: u32
  shows "unat (NOT x AND 0xFFFF) = 65535 - unat x mod 65536"
proof -
  have neg_mod: "(- n - 1) mod 65536 = 65535 - n mod 65536" for n :: int
  proof -
    have "- n - 1 = (65535 - n mod 65536) + 65536 * (- (n div 65536) - 1)"
      using mult_div_mod_eq [of 65536 n] by (simp add: algebra_simps)
    then have "(- n - 1) mod 65536 = (65535 - n mod 65536) mod 65536"
      by (metis mod_mult_self2)
    also have "\<dots> = 65535 - n mod 65536" by (rule mod_pos_pos_trivial) simp_all
    finally show ?thesis .
  qed
  have "uint (take_bit 16 (NOT x)) = take_bit 16 (NOT (uint x))"
    by (simp add: unsigned_take_bit_eq unsigned_not_eq)
  also have "\<dots> = (- uint x - 1) mod 65536"
    by (simp add: take_bit_eq_mod not_eq_complement)
  also have "\<dots> = 65535 - uint x mod 65536"
    by (rule neg_mod)
  finally have "int (unat (NOT x AND 0xFFFF)) = int (65535 - unat x mod 65536)"
    by (simp add: mask16_u32 of_nat_diff zmod_int)
  then show ?thesis by (simp only: of_nat_eq_iff)
qed

lemma reads_words_heap:
  assumes "blocks h b = Some (map Byte bs)"
  shows "reads_words (\<lambda>i. load16 (ptr_add (Ptr b 0) (2 * i))) bs h"
proof -
  have "2 * i + 2 \<le> length bs" if "i < length bs div 2" for i using that by linarith
  then show ?thesis using assms
    by (auto simp: reads_words_def cm_simps simp flip: map_segment)
qed

lemma length_pseudoHeader [simp]:
  "length (ndp_pseudoHeader_bytes (ndp_pseudoHeader_of src dst sz)) = 40"
  by (simp add: ndp_pseudoHeader_bytes_def ndp_pseudoHeader_of_def)

text \<open>The words summed: those of the pseudo header, and the packet's with a zero checksum.\<close>

definition ndp_header_words :: "in6_addr \<Rightarrow> in6_addr \<Rightarrow> u64 \<Rightarrow> u16 list" where
  "ndp_header_words src dst sz =
     words16 (ndp_pseudoHeader_bytes (ndp_pseudoHeader_of src dst sz))"

lemma ndp_checksum_run:
  assumes blk: "blocks h b = Some vs" and zero: "patch 2 [Byte 0, Byte 0] vs = map Byte bs"
    and sz: "unat sz = length bs" and ev: "even (length bs)" and len: "4 \<le> length vs"
  shows "\<exists>v. ndp_checksum buf src dst (Ptr b 0) sz h = Inr (v, set_block b (map Byte bs) h) \<and>
    unat v = 65535 - (oc_sum (ndp_header_words src dst sz) + oc_sum (words16 bs)) mod 65536"
proof -
  let ?hd = "ndp_pseudoHeader_bytes (ndp_pseudoHeader_of src dst sz)"
  let ?h = "set_block b (map Byte bs) h"
  have "length (patch 2 [Byte 0, Byte 0] vs) = length vs" using len by simp
  then have lb: "length bs = length vs" by (simp only: zero length_map)
  then have nz: "sz \<noteq> 0" using sz len by auto
  have st: "store16 (icmp6_cksum (Ptr b 0)) 0 h = Inr ((), ?h)"
    using blk len zero by (simp add: cm_simps int_enc_def numeral_2_eq_2)
  have "reads_words (\<lambda>i. ret (from_le (segment (2 * i) 2 ?hd))) ?hd ?h"
    by (simp add: reads_words_def cm_simps)
  then obtain sh where sh: "ndp_checksumCalCore 0 (\<lambda>i. ret (from_le (segment (2 * i) 2 ?hd))) 40 ?h =
      Inr ((0, sh), ?h)" "unat sh = oc_sum (ndp_header_words src dst sz)"
    using ndp_checksumCalCore_run [of _ ?hd ?h 40 0] by (auto simp: ndp_header_words_def)
  have "reads_words (\<lambda>i. load16 (ptr_add (Ptr b 0) (2 * i))) bs ?h"
    by (rule reads_words_heap) simp
  then obtain sb where sb:
    "ndp_checksumCalCore 0 (\<lambda>i. load16 (ptr_add (Ptr b 0) (2 * i))) sz ?h = Inr ((0, sb), ?h)"
    "unat sb = oc_sum (words16 bs)"
    using ndp_checksumCalCore_run [of _ bs ?h sz 0] sz ev by auto
  have "unat (sh + sb) = unat sh + unat sb"
    using sh(2) sb(2) oc_sum_less [of "ndp_header_words src dst sz"] oc_sum_less [of "words16 bs"]
    by (simp add: unat_word_ariths)
  with nz st sh sb show ?thesis
    by (simp add: ndp_checksum_def cm_simps unat_complement16 Let_def)
qed

section \<open>The packet the builder leaves\<close>

text \<open>An option object on the heap, and what the builder reads of it.\<close>

definition ndp_holds :: "'z cheap_scheme \<Rightarrow> ptr \<Rightarrow> ndp_option \<Rightarrow> bool" where
  "ndp_holds h p opt \<longleftrightarrow> ndp_option_wf opt \<and>
     (\<exists>b. p = Ptr b 0 \<and> b < next_block h \<and> blocks h b = Some (map Byte (ndp_encode opt)))"

lemma ndp_holds_push_block [simp]: "ndp_holds h p opt \<Longrightarrow> ndp_holds (push_block vs h) p opt"
  unfolding ndp_holds_def by (metis blocks_push_block less_SucI less_irrefl next_block_push_block)

lemma ndp_holds_list_push_block [simp]:
  "list_all2 (ndp_holds h) ps opts \<Longrightarrow> list_all2 (ndp_holds (push_block vs h)) ps opts"
  by (erule list_all2_mono) simp

lemma ndp_holds_readable:
  "ndp_holds h p opt \<Longrightarrow> readable p (length (ndp_encode opt)) h \<and>
     peek p (length (ndp_encode opt)) h = map Byte (ndp_encode opt)"
  by (auto simp: ndp_holds_def readable_Ptr peek_def segment_all)

lemma ndp_load_length:
  assumes "ndp_holds h p opt"
  shows "load8 (ndp_Length p) h = Inr (ndp_units opt, h)"
proof -
  have "0 < unat (ndp_units opt)" and "length (ndp_encode opt) = 8 * unat (ndp_units opt)"
    using assms ndp_encode_length [of opt] by (auto simp: ndp_holds_def)
  then obtain x y zs where e: "ndp_encode opt = x # y # zs"
    by (cases "ndp_encode opt" rule: remdups_adj.cases) auto
  then show ?thesis using assms
    by (auto simp: ndp_holds_def cm_simps segment_def int_dec_def ndp_units_def)
qed

lemmas ndp_load_length_Suc = ndp_load_length [unfolded One_nat_def]

lemma ndp_encode_bytes:
  assumes "ndp_option_wf opt"
  shows "(ucast (ndp_units opt) * 8 :: u64) = of_nat (length (ndp_encode opt))"
    and "unat (ucast (ndp_units opt) * 8 :: u32) = length (ndp_encode opt)"
    and "length (ndp_encode opt) \<le> 2040"
proof -
  let ?l = "ndp_units opt"
  have len: "length (ndp_encode opt) = 8 * unat ?l" by (rule ndp_encode_length(1) [OF assms])
  have l: "unat ?l < 256" using unsigned_less [of ?l, where ?'a = nat] by simp
  have "(ucast ?l :: u64) = of_nat (unat ?l)" by (simp add: unsigned_ucast_eq)
  then show "(ucast ?l * 8 :: u64) = of_nat (length (ndp_encode opt))" by (simp add: len)
  show "unat (ucast ?l * 8 :: u32) = length (ndp_encode opt)"
    using l by (simp add: len unat_word_ariths unsigned_ucast_eq take_bit_nat_eq_self)
  show "length (ndp_encode opt) \<le> 2040" using len l by simp
qed

definition ndp_total :: "ndp_option list \<Rightarrow> nat" where
  "ndp_total opts = sum_list (map (\<lambda>opt. length (ndp_encode opt)) opts)"

lemma ndp_total_simps [simp]:
  "ndp_total [] = 0" "ndp_total (opt # opts) = length (ndp_encode opt) + ndp_total opts"
  by (simp_all add: ndp_total_def)

lemma length_concat_encode: "length (concat (map ndp_encode opts)) = ndp_total opts"
  by (induction opts) simp_all

lemma ra_collect_run:
  "list_all2 (ndp_holds h) ps opts \<Longrightarrow>
   ra_collect (length ps) (ps @ extra) n h = Inr ((ps, n + of_nat (ndp_total opts)), h)"
proof (induction arbitrary: n rule: list_all2_induct)
  case Nil
  then show ?case by (simp add: cm_simps)
next
  case (Cons p ps opt opts)
  then have "(ucast (ndp_units opt) * 8 :: u64) = of_nat (length (ndp_encode opt))"
    by (simp add: ndp_holds_def ndp_encode_bytes)
  with Cons show ?case
    by (simp add: bindc_apply ret_apply ndp_load_length_Suc add.assoc)
qed

lemma ra_copy_run:
  assumes "list_all2 (ndp_holds h) ps opts" and "k = length pre"
  shows "ra_copy_options ps (Ptr (next_block h) k)
      (push_block (pre @ replicate (ndp_total opts) Undef) h) =
    Inr ((), push_block (pre @ map Byte (concat (map ndp_encode opts))) h)"
  using assms
proof (induction arbitrary: pre k rule: list_all2_induct)
  case Nil
  then show ?case by (simp add: cm_simps)
next
  case (Cons p ps opt opts)
  let ?e = "map Byte (ndp_encode opt)" and ?l = "ndp_units opt"
  let ?n = "length (ndp_encode opt)"
  have wf: "ndp_option_wf opt" using Cons by (simp add: ndp_holds_def)
  have len32: "unat (ucast ?l * 8 :: u32) = ?n" by (rule ndp_encode_bytes(2) [OF wf])
  then have len64: "unat (ucast (ucast ?l * 8 :: u32) :: u64) = ?n"
    using ndp_encode_bytes(3) [OF wf] by (simp add: unsigned_ucast_eq take_bit_nat_eq_self)
  have "patch k ?e (pre @ replicate (?n + ndp_total opts) Undef) =
      (pre @ ?e) @ replicate (ndp_total opts) Undef"
    using Cons.prems by (simp add: patch_def replicate_add)
  then have cp: "memcpy (Ptr (next_block h) k) p (ucast (ucast ?l * 8 :: u32))
      (push_block (pre @ replicate (ndp_total (opt # opts)) Undef) h) =
    Inr ((), push_block ((pre @ ?e) @ replicate (ndp_total opts) Undef) h)"
    using ndp_holds_readable [OF Cons.hyps(1)] Cons.prems by (simp add: memcpy_to_fresh len64)
  have ld: "load_as int_dec (Suc 0) (ptr_add p (Suc 0)) (push_block vs h) =
      Inr (?l, push_block vs h)" for vs
    by (rule ndp_load_length_Suc [OF ndp_holds_push_block [OF Cons.hyps(1)]])
  show ?case
    using Cons.IH [of "k + ?n" "pre @ ?e"] Cons.prems
    by (simp add: bindc_apply thenc_apply ld Let_def cp [unfolded Cons.prems] len32
        del: ndp_total_simps)
qed

lemma ndp_total_bound: "list_all ndp_option_wf opts \<Longrightarrow> ndp_total opts \<le> 2040 * length opts"
  by (induction opts) (auto dest!: ndp_encode_bytes(3))

lemma even_total: "list_all ndp_option_wf opts \<Longrightarrow> even (ndp_total opts)"
  by (induction opts) (auto simp: ndp_encode_length(1))

lemma ndp_holds_wf: "list_all2 (ndp_holds h) ps opts \<Longrightarrow> list_all ndp_option_wf opts"
  by (induction rule: list_all2_induct) (auto simp: ndp_holds_def)

text \<open>The message \<open>ndp_createRAPacket\<close> is asked to build.\<close>

definition ndp_ra_message :: "u8 \<Rightarrow> u16 \<Rightarrow> u32 \<Rightarrow> u32 \<Rightarrow> ndp_option list \<Rightarrow> ra_message" where
  "ndp_ra_message hop lifetime reach retrans opts =
     \<lparr>ra_hop_limit = hop, ra_flags = 0x48, ra_lifetime = lifetime, ra_reachable_time = reach,
      ra_retrans_timer = retrans, ra_options = opts\<rparr>"

lemma ndp_createRAPacket_run:
  assumes holds: "list_all2 (ndp_holds h) ps opts" and num: "unat optionsNum = length ps"
    and mem: "16 + ndp_total opts \<le> avail h"
  shows "ndp_createRAPacket src dst hop lifetime reach retrans optionsNum ps h =
    Inr ((Ptr (next_block h) 0, of_nat (16 + ndp_total opts)),
      push_block (map Byte (ra_encode 0 (ndp_ra_message hop lifetime reach retrans opts))) h)"
proof -
  let ?n = "ndp_total opts" and ?nb = "next_block h"
  let ?msg = "ra_encode 0 (ndp_ra_message hop lifetime reach retrans opts)"
  have "length opts = length ps" using holds by (simp add: list_all2_lengthD)
  then have "?n \<le> 2040 * unat optionsNum" using ndp_total_bound ndp_holds_wf holds num by metis
  also have "\<dots> < 2040 * 4294967296" using unsigned_less [of optionsNum, where ?'a = nat] by simp
  finally have un: "unat (16 + of_nat ?n :: u64) = 16 + ?n"
    by (simp add: unat_word_ariths unat_of_nat)
  have coll: "ra_collect (unat optionsNum) ps sizeof_nd_router_advert h =
      Inr ((ps, 16 + of_nat ?n), h)"
    using ra_collect_run [OF holds, of "[]"] num by (simp add: sizeof_nd_router_advert_def)
  let ?hdr = "[hop, 0x48] @ be_bytes 2 lifetime @ be_bytes 4 reach @ be_bytes 4 retrans"
  let ?pre = "map Byte [134, 0] @ [Undef, Undef] @ map Byte ?hdr"
  have copy: "ra_copy_options ps (Ptr ?nb 16) (push_block (?pre @ replicate ?n Undef) h) =
      Inr ((), push_block (?pre @ map Byte (concat (map ndp_encode opts))) h)"
    by (rule ra_copy_run [OF holds]) simp
  let ?h = "push_block (?pre @ map Byte (concat (map ndp_encode opts))) h"
  have "\<exists>v. ndp_checksum (Ptr ?nb (Suc (Suc 0))) src dst (Ptr ?nb 0) (16 + of_nat ?n) ?h =
      Inr (v, set_block ?nb (map Byte ?msg) ?h) \<and>
      unat v = 65535 - (oc_sum (ndp_header_words src dst (16 + of_nat ?n)) + oc_sum (words16 ?msg)) mod 65536"
  proof (rule ndp_checksum_run)
    show "patch 2 [Byte 0, Byte 0] (?pre @ map Byte (concat (map ndp_encode opts))) = map Byte ?msg"
      by (simp add: patch_def ra_encode_def ndp_ra_message_def)
  qed (simp_all add: un length_concat_encode ndp_ra_message_def even_total [OF ndp_holds_wf [OF holds]])
  then obtain v where ck: "ndp_checksum (Ptr ?nb (Suc (Suc 0))) src dst (Ptr ?nb 0) (16 + of_nat ?n) ?h =
      Inr (v, push_block (map Byte ?msg) h)"
    by (auto simp: length_concat_encode ndp_ra_message_def)
  have flags: "(ucast (ndp_ra_flag_O OR (ndp_ra_flag_Prf_High AND ndp_ra_flag_R)) :: u8) = 0x48"
    by (simp add: ndp_ra_flag_O_def ndp_ra_flag_Prf_High_def ndp_ra_flag_R_def)
  have "replicate (16 + ?n) Undef = replicate 16 Undef @ replicate ?n Undef"
    by (simp only: replicate_add)
  with mem un coll copy ck show ?thesis
    by (simp add: ndp_createRAPacket_def cm_simps flags int_enc_def patch_def ND_ROUTER_ADVERT_def
        sizeof_nd_router_advert_def)
qed

lemma ndp_createRAPacket_oom:
  assumes holds: "list_all2 (ndp_holds h) ps opts" and num: "unat optionsNum = length ps"
    and mem: "avail h < 16 + ndp_total opts"
  shows "ndp_createRAPacket src dst hop lifetime reach retrans optionsNum ps h = Inl NullDeref"
proof -
  let ?n = "ndp_total opts"
  have "length opts = length ps" using holds by (simp add: list_all2_lengthD)
  then have "?n \<le> 2040 * unat optionsNum" using ndp_total_bound ndp_holds_wf holds num by metis
  also have "\<dots> < 2040 * 4294967296" using unsigned_less [of optionsNum, where ?'a = nat] by simp
  finally have un: "unat (16 + of_nat ?n :: u64) = 16 + ?n"
    by (simp add: unat_word_ariths unat_of_nat)
  have "ra_collect (unat optionsNum) ps sizeof_nd_router_advert h = Inr ((ps, 16 + of_nat ?n), h)"
    using ra_collect_run [OF holds, of "[]"] num by (simp add: sizeof_nd_router_advert_def)
  with mem un show ?thesis by (simp add: ndp_createRAPacket_def cm_simps wild_fault_def)
qed

section \<open>Properties\<close>

text \<open>C12: A Router Advertisement built from options on the heap is, for a receiver, the intended
  message: hop limit, lifetime and timers as given, flags O and high preference, the options
  in order. The checksum it finds is zero: the computed one is never stored.\<close>

theorem ra_packet_decodes:
  assumes "list_all2 (ndp_holds h) ps opts" and "unat optionsNum = length ps"
    and "16 + ndp_total opts \<le> avail h"
  shows "\<exists>h' bs. ndp_createRAPacket src dst hop lifetime reach retrans optionsNum ps h =
      Inr ((Ptr (next_block h) 0, of_nat (length bs)), h') \<and>
    blocks h' = (blocks h)(next_block h \<mapsto> map Byte bs) \<and>
    ra_decode bs = Some (0, ndp_ra_message hop lifetime reach retrans opts)"
proof -
  let ?m = "ndp_ra_message hop lifetime reach retrans opts"
  have "ra_decode (ra_encode 0 ?m) = Some (0, ?m)"
    by (rule ra_decode_encode) (simp add: ndp_ra_message_def ndp_holds_wf [OF assms(1)])
  moreover have "length (ra_encode 0 ?m) = 16 + ndp_total opts"
    by (simp add: ndp_ra_message_def length_concat_encode)
  ultimately show ?thesis
    using ndp_createRAPacket_run [OF assms, of src dst hop lifetime reach retrans]
    by (intro exI [of _ "push_block (map Byte (ra_encode 0 ?m)) h"] exI [of _ "ra_encode 0 ?m"])
      (simp add: push_block_def)
qed

definition sample_ra_heap :: "nat \<Rightarrow> cheap" where
  "sample_ra_heap n = sample_heap [map Byte (ndp_encode (MtuInfo 1500)),
     map Byte (ndp_encode (PrefixInfo 64 0xC0 48000 24000 0))] n"

definition sample_ra_opts :: "ndp_option list" where
  "sample_ra_opts = [MtuInfo 1500, PrefixInfo 64 0xC0 48000 24000 0]"

lemma sample_ra_facts:
  "list_all2 (ndp_holds (sample_ra_heap n)) [Ptr 0 0, Ptr 1 0] sample_ra_opts"
  "ndp_total sample_ra_opts = 40" "avail (sample_ra_heap n) = n" "next_block (sample_ra_heap n) = 2"
  by (simp_all add: sample_ra_heap_def sample_ra_opts_def ndp_holds_def)

theorem ra_packet_decodes_witness:
  "\<exists>h' bs. ndp_createRAPacket 1 2 64 1800 0 0 2 [Ptr 0 0, Ptr 1 0] (sample_ra_heap 56) =
      Inr ((Ptr 2 0, of_nat (length bs)), h') \<and>
    ra_decode bs = Some (0, ndp_ra_message 64 1800 0 0 sample_ra_opts)"
  using ra_packet_decodes [OF sample_ra_facts(1), of 2 56 1 2 64 1800 0 0]
  by (auto simp: sample_ra_facts)

text \<open>When there is no memory for the message the builder writes through NULL.\<close>

theorem ra_packet_out_of_memory:
  assumes "list_all2 (ndp_holds h) ps opts" and "unat optionsNum = length ps"
    and "avail h < 16 + ndp_total opts"
  shows "ndp_createRAPacket src dst hop lifetime reach retrans optionsNum ps h = Inl NullDeref"
  by (rule ndp_createRAPacket_oom [OF assms])

theorem ra_packet_out_of_memory_witness:
  "ndp_createRAPacket 1 2 64 1800 0 0 2 [Ptr 0 0, Ptr 1 0] (sample_ra_heap 55) = Inl NullDeref"
  by (rule ra_packet_out_of_memory [OF sample_ra_facts(1)]) (simp_all add: sample_ra_facts)

text \<open>C16: The checksum loop, with its 32-bit accumulator and one fold per word, computes the
  one's complement sum: the total of the words reduced as RFC 1071 defines it.\<close>

theorem checksum_core_sum:
  assumes "reads_words data bs s" and "unat sz = length bs" and "even (length bs)"
  shows "\<exists>r. ndp_checksumCalCore buf data sz s = Inr ((0, r), s) \<and>
    unat r = fold16 (sum_list (map unat (words16 bs)))"
  using ndp_checksumCalCore_run [OF assms] by (simp add: oc_sum_closed_form)

theorem checksum_core_sum_witness:
  "\<exists>r. ndp_checksumCalCore 0 (\<lambda>i. ret (from_le (segment (2 * i) 2 (replicate 6 255)))) 6 () =
      Inr ((0, r), ()) \<and> unat r = fold16 (sum_list (map unat (words16 (replicate 6 255))))"
  by (rule checksum_core_sum) (simp_all add: reads_words_def cm_simps)

text \<open>An odd number of bytes is refused: the result is -1 and the caller's sum is untouched.\<close>

theorem checksum_core_odd:
  assumes "odd (unat sz)"
  shows "ndp_checksumCalCore buf data sz s = Inr ((-1, buf), s)"
  by (rule ndp_checksumCalCore_odd [OF assms])

theorem checksum_core_odd_witness:
  "ndp_checksumCalCore 17 (\<lambda>_. raise Uninit) 5 () = Inr ((-1, 17), ())"
  by (rule checksum_core_odd) simp

lemma fold16_add: "oc_add (fold16 s) (fold16 t) = fold16 (s + t)"
proof (cases "t = 0")
  case True
  then show ?thesis using fold16_less [of s] by (simp add: oc_add_def fold16_def)
next
  case False
  have "(s + ((t - 1) mod 65535 + 1) - 1) mod 65535 = (s + (t - 1)) mod 65535"
    by (simp add: mod_add_right_eq)
  then have "fold16 (s + fold16 t) = fold16 (s + t)" using False by (simp add: fold16_def)
  then show ?thesis using fold16_less [of t] by (simp add: oc_add_fold16)
qed

lemma rfc1071_append: "rfc1071_checksum (as @ bs) = 65535 - oc_add (oc_sum as) (oc_sum bs)"
  by (simp add: rfc1071_checksum_def oc_sum_closed_form fold16_add)

text \<open>C18: \<open>ndp_checksum\<close> adds the two partial sums without the end-around carry. Its result is the
  RFC 1071 checksum of pseudo header and packet when they do not carry, and one more than
  it when they do; the packet's checksum field is left zero.\<close>

theorem checksum_result:
  assumes "blocks h b = Some vs" and "patch 2 [Byte 0, Byte 0] vs = map Byte bs"
    and "unat sz = length bs" and "even (length bs)" and "4 \<le> length vs"
  shows "\<exists>v. ndp_checksum buf src dst (Ptr b 0) sz h = Inr (v, set_block b (map Byte bs) h) \<and>
    unat v = rfc1071_checksum (ndp_header_words src dst sz @ words16 bs) +
      (if oc_sum (ndp_header_words src dst sz) + oc_sum (words16 bs) < 65536 then 0 else 1)"
proof -
  let ?a = "oc_sum (ndp_header_words src dst sz)" and ?b = "oc_sum (words16 bs)"
  have lt: "?a < 65536" "?b < 65536" by (simp_all only: oc_sum_less)
  obtain v where v: "ndp_checksum buf src dst (Ptr b 0) sz h = Inr (v, set_block b (map Byte bs) h)"
    "unat v = 65535 - (?a + ?b) mod 65536"
    using ndp_checksum_run [OF assms] by blast
  have "65535 - (?a + ?b) mod 65536 = 65535 - oc_add ?a ?b + (if ?a + ?b < 65536 then 0 else 1)"
    using lt by (auto simp: oc_add_def le_mod_geq not_less)
  with v show ?thesis by (metis rfc1071_append)
qed

theorem checksum_result_witness:
  "\<exists>v h'. ndp_checksum (Ptr 0 2) 1 2 (Ptr 0 0) 16 (sample_heap [replicate 16 (Byte 255)] 0) = Inr (v, h')"
proof -
  have "patch 2 [Byte 0, Byte 0] (replicate 16 (Byte 255)) =
      map Byte (replicate 2 255 @ [0, 0] @ replicate 12 255)" by (simp add: patch_def)
  then show ?thesis
    using checksum_result [of "sample_heap [replicate 16 (Byte 255)] 0" 0 "replicate 16 (Byte 255)"
        "replicate 2 255 @ [0, 0] @ replicate 12 255" 16 "Ptr 0 2" 1 2]
    by auto
qed

text \<open>The Advertisement Interval constructor does not write the option's Type and Length, so a
  Router Advertisement built from its result reads an undefined length.\<close>

theorem interval_option_unusable:
  assumes "ndp_createOptionAdvertisementIntervalOption i h = Inr (p, h')"
  shows "ndp_createRAPacket src dst hop lifetime reach retrans 1 [p] h' = Inl Uninit"
proof -
  have "p = Ptr (next_block h) 0"
    "h' = push_block ([Undef, Undef, Undef, Undef] @ map Byte (be_bytes 4 i)) h"
    using assms by (auto simp: ndp_interval_run split: if_splits)
  then show ?thesis
    by (simp add: ndp_createRAPacket_def cm_simps segment_def int_dec_def)
qed

theorem interval_option_unusable_witness:
  "\<exists>p h'. ndp_createOptionAdvertisementIntervalOption 1000 (sample_heap [] 100) = Inr (p, h') \<and>
    ndp_createRAPacket 1 2 64 1800 0 0 1 [p] h' = Inl Uninit"
proof -
  obtain p h' where run: "ndp_createOptionAdvertisementIntervalOption 1000 (sample_heap [] 100) = Inr (p, h')"
    by (simp add: ndp_interval_run)
  from interval_option_unusable [OF run] run show ?thesis by auto
qed

end
