(* ===== verification/Dh_Options.thy ===== *)
theory Dh_Options
  imports C_Memory
begin

text \<open>
  \<open>Inc/dh_options.h\<close> and \<open>Src/dh_options.c\<close>: the DHCPv6 option structures and their
  constructors. An option under construction holds its code and length in host order;
  \<open>dh_createPacket\<close> converts them.
\<close>

section \<open>Structures\<close>

record dh_optPayload =
  OptionCode :: u16
  OptionLength :: u16
  OptionData :: "u8 list"

definition dh_optPayload_bytes :: "dh_optPayload \<Rightarrow> u8 list" where
  "dh_optPayload_bytes r = le_bytes 2 (OptionCode r) @ le_bytes 2 (OptionLength r) @ OptionData r"

definition dh_optPayload_offset :: u64 where
  "dh_optPayload_offset = 2 + 2"

record dh_opt_IA_PD =
  IA_id :: u32
  Time1 :: u32
  Time2 :: u32

definition dh_opt_IA_PD_bytes :: "dh_opt_IA_PD \<Rightarrow> u8 list" where
  "dh_opt_IA_PD_bytes r = le_bytes 4 (IA_id r) @ le_bytes 4 (Time1 r) @ le_bytes 4 (Time2 r)"

definition sizeof_dh_opt_IA_PD :: u64 where
  "sizeof_dh_opt_IA_PD = 4 + 4 + 4"

record dh_opt_IA_Prefix =
  PreferredLifetime :: u32
  ValidLifetime :: u32
  PrefixLength :: u8
  Prefix :: in6_addr

definition dh_opt_IA_Prefix_bytes :: "dh_opt_IA_Prefix \<Rightarrow> u8 list" where
  "dh_opt_IA_Prefix_bytes r = le_bytes 4 (PreferredLifetime r) @ le_bytes 4 (ValidLifetime r) @
     [PrefixLength r] @ in6_bytes (Prefix r)"

definition sizeof_dh_opt_IA_Prefix :: u64 where
  "sizeof_dh_opt_IA_Prefix = 4 + 4 + 1 + 16"

record dh_opt_ElapsedTime =
  ElapsedTime :: u16

definition dh_opt_ElapsedTime_bytes :: "dh_opt_ElapsedTime \<Rightarrow> u8 list" where
  "dh_opt_ElapsedTime_bytes r = le_bytes 2 (ElapsedTime r)"

definition sizeof_dh_opt_ElapsedTime :: u64 where
  "sizeof_dh_opt_ElapsedTime = 2"

record dh_opt_StatusCode =
  StatusCode :: u16
  StatusMessage :: "u8 list"

definition dh_opt_StatusCode_bytes :: "dh_opt_StatusCode \<Rightarrow> u8 list" where
  "dh_opt_StatusCode_bytes r = le_bytes 2 (StatusCode r) @ StatusMessage r"

text \<open>The structure of a Rapid Commit option has no member and, with GNU C, no bytes.\<close>

type_synonym dh_opt_RapidCommit = unit

text \<open>\<open>enum dh_DUIdType\<close>.\<close>

datatype dh_DUIdType = DUId_LLT | DUId_En | DUId_LL | DUId_UUId

primrec dh_DUIdType_value :: "dh_DUIdType \<Rightarrow> u16" where
  "dh_DUIdType_value DUId_LLT = 1"
| "dh_DUIdType_value DUId_En = 2"
| "dh_DUIdType_value DUId_LL = 3"
| "dh_DUIdType_value DUId_UUId = 4"

text \<open>\<open>union dh_DUId\<close>: one constructor per arm, with the members of its structure in their order
  (hardware type, time and link-layer address; enterprise number and identifier; hardware
  type and link-layer address; four words). The last member of the first three is a flexible
  array; \<open>DH_DUID_LLT_LEN\<close> and its like are the sizes without it.\<close>

datatype dh_DUId =
    Arm_LLT u16 u32 "u8 list"
  | Arm_En u32 "u8 list"
  | Arm_LL u16 "u8 list"
  | Arm_UUId u32 u32 u32 u32

primrec dh_DUId_bytes :: "dh_DUId \<Rightarrow> u8 list" where
  "dh_DUId_bytes (Arm_LLT hardware time address) = le_bytes 2 hardware @ le_bytes 4 time @ address"
| "dh_DUId_bytes (Arm_En enterprise identifier) = le_bytes 4 enterprise @ identifier"
| "dh_DUId_bytes (Arm_LL hardware address) = le_bytes 2 hardware @ address"
| "dh_DUId_bytes (Arm_UUId w0 w1 w2 w3) = le_bytes 4 w0 @ le_bytes 4 w1 @ le_bytes 4 w2 @ le_bytes 4 w3"

definition DH_DUID_LLT_LEN :: u64 where "DH_DUID_LLT_LEN = 2 + 4"
definition DH_DUID_EN_LEN :: u64 where "DH_DUID_EN_LEN = 4"
definition DH_DUID_LL_LEN :: u64 where "DH_DUID_LL_LEN = 2"
definition DH_DUID_UUID_LEN :: u64 where "DH_DUID_UUID_LEN = 4 * 4"

record dh_opt_ClientIdentifier =
  DUIdType :: u16
  DUIdData :: dh_DUId

definition dh_opt_ClientIdentifier_bytes :: "dh_opt_ClientIdentifier \<Rightarrow> u8 list" where
  "dh_opt_ClientIdentifier_bytes r = le_bytes 2 (DUIdType r) @ dh_DUId_bytes (DUIdData r)"

text \<open>
  \<open>enum dh_options\<close>, each enumerator (without its \<open>DHCPv6_OPTION_\<close> prefix) with its value,
  and as constants the members the code uses.
\<close>

definition dh_options :: "(string \<times> u16) list" where
  "dh_options =
     [(''CLIENTID'', 1), (''SERVERID'', 2), (''IA_NA'', 3), (''IA_TA'', 4), (''IAADDR'', 5),
      (''ORO'', 6), (''PREFERENCE'', 7), (''ELAPSED_TIME'', 8), (''RELAY_MSG'', 9),
      (''AUTH'', 11), (''UNICAST'', 12), (''STATUS_CODE'', 13), (''RAPID_COMMIT'', 14),
      (''USER_CLASS'', 15), (''VENDOR_CLASS'', 16), (''VENDOR_OPTS'', 17),
      (''INTERFACE_ID'', 18), (''RECONF_MSG'', 19), (''RECONF_ACCEPT'', 20),
      (''SIP_SERVER_D'', 21), (''SIP_SERVER_A'', 22), (''DNS_SERVERS'', 23),
      (''DOMAIN_LIST'', 24), (''IA_PD'', 25), (''IAPREFIX'', 26), (''NIS_SERVERS'', 27),
      (''NISP_SERVERS'', 28), (''NIS_DOMAIN_NAME'', 29), (''NISP_DOMAIN_NAME'', 30),
      (''SNTP_SERVERS'', 31), (''INFORMATION_REFRESH_TIME'', 32), (''BCMCS_SERVER_D'', 33),
      (''BCMCS_SERVER_A'', 34), (''GEOCONF_CIVIC'', 36), (''REMOTE_ID'', 37),
      (''SUBSCRIBER_ID'', 38), (''CLIENT_FQDN'', 39), (''PANA_AGENT'', 40),
      (''NEW_POSIX_TIMEZONE'', 41), (''NEW_TZDB_TIMEZONE'', 42), (''ERO'', 43),
      (''LQ_QUERY'', 44), (''CLIENT_DATA'', 45), (''CLT_TIME'', 46), (''LQ_RELAY_DATA'', 47),
      (''LQ_CLIENT_LINK'', 48), (''MIP6_HNIDF'', 49), (''MIP6_VDINF'', 50), (''V6_LOST'', 51),
      (''CAPWAP_AC_V6'', 52), (''RELAY_ID'', 53), (''IPV6_Address_MoS'', 54),
      (''IPV6_FQDN_MoS'', 55), (''NTP_SERVER'', 56), (''V6_ACCESS_DOMAIN'', 57),
      (''SIP_UA_CS_LIST'', 58), (''OPT_BOOTFILE_URL'', 59), (''OPT_BOOTFILE_PARAM'', 60),
      (''CLIENT_ARCH_TYPE'', 61), (''NII'', 62), (''GEOLOCATION'', 63), (''AFTR_NAME'', 64),
      (''ERP_LOCAL_DOMAIN_NAME'', 65), (''RSOO'', 66), (''PD_EXCLUDE'', 67), (''VSS'', 68),
      (''MIP6_IDINF'', 69), (''MIP6_UDINF'', 70), (''MIP6_HNP'', 71), (''MIP6_HAA'', 72),
      (''MIP6_HAF'', 73), (''RDNSS_SELECTION'', 74), (''KRB_PRINCIPAL_NAME'', 75),
      (''KRB_REALM_NAME'', 76), (''KRB_DEFAULT_REALM_NAME'', 77), (''KRB_KDC'', 78),
      (''CLIENT_LINKLAYER_ADDR'', 79), (''LINK_ADDRESS'', 80), (''RADIUS'', 81),
      (''SOL_MAX_RT'', 82), (''INF_MAX_RT'', 83), (''ADDRSEL'', 84), (''ADDRSEL_TABLE'', 85),
      (''V6_PCP_SERVER'', 86), (''DHCPV4_MSG'', 87), (''DHCP4_O_DHCP6_SERVER'', 88),
      (''S46_RULE'', 89), (''S46_BR'', 90), (''S46_DMR'', 91), (''S46_V4V6BIND'', 92),
      (''S46_PORTPARAMS'', 93), (''S46_CONT_MAPE'', 94), (''S46_CONT_MAPT'', 95),
      (''S46_CONT_LW'', 96), (''4RD'', 97), (''4RD_MAP_RULE'', 98), (''4RD_NON_MAP_RULE'', 99),
      (''LQ_BASE_TIME'', 100), (''LQ_START_TIME'', 101), (''LQ_END_TIME'', 102),
      (''DHCP_Captive_Portal'', 103), (''MPL_PARAMETERS'', 104), (''ANI_ATT'', 105),
      (''ANI_NETWORK_NAME'', 106), (''ANI_AP_NAME'', 107), (''ANI_AP_BSSID'', 108),
      (''ANI_OPERATOR_ID'', 109), (''ANI_OPERATOR_REALM'', 110), (''S46_PRIORITY'', 111),
      (''MUD_URL_V6'', 112), (''V6_PREFIX64'', 113), (''F_BINDING_STATUS'', 114),
      (''F_CONNECT_FLAGS'', 115), (''F_DNS_REMOVAL_INFO'', 116), (''F_DNS_HOST_NAME'', 117),
      (''F_DNS_ZONE_NAME'', 118), (''F_DNS_FLAGS'', 119), (''F_EXPIRATION_TIME'', 120),
      (''F_MAX_UNACKED_BNDUPD'', 121), (''F_MCLT'', 122), (''F_PARTNER_LIFETIME'', 123),
      (''F_PARTNER_LIFETIME_SENT'', 124), (''F_PARTNER_DOWN_TIME'', 125),
      (''F_PARTNER_RAW_CLT_TIME'', 126), (''F_PROTOCOL_VERSION'', 127),
      (''F_KEEPALIVE_TIME'', 128), (''F_RECONFIGURE_DATA'', 129),
      (''F_RELATIONSHIP_NAME'', 130), (''F_SERVER_FLAGS'', 131), (''F_SERVER_STATE'', 132),
      (''F_START_TIME_OF_STATE'', 133), (''F_STATE_EXPIRATION_TIME'', 134),
      (''RELAY_PORT'', 135), (''IPV6_Address_ANDSF'', 136)]"

definition DHCPv6_OPTION_CLIENTID :: u16 where "DHCPv6_OPTION_CLIENTID = 1"
definition DHCPv6_OPTION_SERVERID :: u16 where "DHCPv6_OPTION_SERVERID = 2"
definition DHCPv6_OPTION_ELAPSED_TIME :: u16 where "DHCPv6_OPTION_ELAPSED_TIME = 8"
definition DHCPv6_OPTION_RAPID_COMMIT :: u16 where "DHCPv6_OPTION_RAPID_COMMIT = 14"
definition DHCPv6_OPTION_IA_PD :: u16 where "DHCPv6_OPTION_IA_PD = 25"
definition DHCPv6_OPTION_IAPREFIX :: u16 where "DHCPv6_OPTION_IAPREFIX = 26"

lemmas dh_option_codes = DHCPv6_OPTION_CLIENTID_def DHCPv6_OPTION_SERVERID_def
  DHCPv6_OPTION_ELAPSED_TIME_def DHCPv6_OPTION_RAPID_COMMIT_def DHCPv6_OPTION_IA_PD_def
  DHCPv6_OPTION_IAPREFIX_def

lemma dh_options_ascending: "successively (<) (map snd dh_options)"
  by (simp add: dh_options_def)

lemma dh_options_codes_distinct: "distinct (map snd dh_options)"
proof -
  have "transp ((<) :: u16 \<Rightarrow> u16 \<Rightarrow> bool)" by simp
  with dh_options_ascending have "sorted_wrt (<) (map snd dh_options)"
    by (simp add: successively_conv_sorted_wrt)
  then show ?thesis by (simp add: strict_sorted_iff)
qed

lemma dh_options_used:
  "map_of dh_options ''CLIENTID'' = Some DHCPv6_OPTION_CLIENTID"
  "map_of dh_options ''SERVERID'' = Some DHCPv6_OPTION_SERVERID"
  "map_of dh_options ''ELAPSED_TIME'' = Some DHCPv6_OPTION_ELAPSED_TIME"
  "map_of dh_options ''RAPID_COMMIT'' = Some DHCPv6_OPTION_RAPID_COMMIT"
  "map_of dh_options ''IA_PD'' = Some DHCPv6_OPTION_IA_PD"
  "map_of dh_options ''IAPREFIX'' = Some DHCPv6_OPTION_IAPREFIX"
  by (simp_all add: dh_options_def dh_option_codes)

lemmas dh_sizeof_defs = dh_optPayload_offset_def sizeof_dh_opt_IA_PD_def
  sizeof_dh_opt_IA_Prefix_def sizeof_dh_opt_ElapsedTime_def

lemmas dh_layout_defs [wire_simps] = dh_optPayload_bytes_def dh_opt_IA_PD_bytes_def
  dh_opt_IA_Prefix_bytes_def dh_opt_ElapsedTime_bytes_def dh_opt_StatusCode_bytes_def
  dh_opt_ClientIdentifier_bytes_def

lemma dh_sizeof_matches_layout:
  "length (dh_opt_IA_PD_bytes i) = unat sizeof_dh_opt_IA_PD"
  "length (dh_opt_IA_Prefix_bytes p) = unat sizeof_dh_opt_IA_Prefix"
  "length (dh_opt_ElapsedTime_bytes e) = unat sizeof_dh_opt_ElapsedTime"
  by (simp_all add: wire_simps dh_sizeof_defs)

text \<open>The four lengths are those of the arms without what follows them.\<close>

lemma dh_DUId_length:
  "length (dh_DUId_bytes d) = (case d of
     Arm_LLT _ _ address \<Rightarrow> unat DH_DUID_LLT_LEN + length address
   | Arm_En _ identifier \<Rightarrow> unat DH_DUID_EN_LEN + length identifier
   | Arm_LL _ address \<Rightarrow> unat DH_DUID_LL_LEN + length address
   | Arm_UUId _ _ _ _ \<Rightarrow> unat DH_DUID_UUID_LEN)"
  by (cases d) (simp_all add: DH_DUID_LLT_LEN_def DH_DUID_EN_LEN_def DH_DUID_LL_LEN_def
      DH_DUID_UUID_LEN_def)

section \<open>Constructors\<close>

abbreviation (input) dh_OptionCode :: "ptr \<Rightarrow> ptr" where "dh_OptionCode p \<equiv> ptr_add p 0"
abbreviation (input) dh_OptionLength :: "ptr \<Rightarrow> ptr" where "dh_OptionLength p \<equiv> ptr_add p 2"
abbreviation (input) dh_OptionData :: "ptr \<Rightarrow> ptr" where "dh_OptionData p \<equiv> ptr_add p 4"

definition dh_createCustomOptPayload :: "u16 \<Rightarrow> ptr \<Rightarrow> u64 \<Rightarrow> ('z cheap_scheme, ptr) cm" where
  "dh_createCustomOptPayload optionCode optionData optionDataLength =
     (let sz = optionDataLength + dh_optPayload_offset in
     bindc (malloc sz) (\<lambda>payload.
     thenc (store16 (dh_OptionCode payload) optionCode) (
     thenc (store16 (dh_OptionLength payload) (ucast optionDataLength)) (
     thenc (if optionData \<noteq> Null
            then memcpy (dh_OptionData payload) optionData optionDataLength else ret ()) (
     ret payload)))))"

definition dh_createOptPayload :: "u16 \<Rightarrow> ptr \<Rightarrow> u64 \<Rightarrow> ('z cheap_scheme, ptr) cm" where
  "dh_createOptPayload optionCode optionData optionDataLength =
     dh_createCustomOptPayload optionCode optionData optionDataLength"

definition dh_createOption_IA_PD :: "u32 \<Rightarrow> ptr \<Rightarrow> u64 \<Rightarrow> ('z cheap_scheme, ptr) cm" where
  "dh_createOption_IA_PD id' prefixOptions prefixOptionsLength =
     bindc (malloc (sizeof_dh_opt_IA_PD + dh_optPayload_offset)) (\<lambda>payload.
     let thisOption = dh_OptionData payload in
     thenc (store32 (ptr_add thisOption 0) (htobe32 id')) (
     thenc (store32 (ptr_add thisOption 4) 0x00) (
     thenc (store32 (ptr_add thisOption 8) 0x00) (
     thenc (store16 (dh_OptionCode payload) DHCPv6_OPTION_IA_PD) (
     thenc (if prefixOptions \<noteq> Null
            then thenc (memcpy (ptr_add thisOption 12) prefixOptions prefixOptionsLength)
                   (store16 (dh_OptionLength payload)
                      (ucast (sizeof_dh_opt_IA_PD + prefixOptionsLength)))
            else store16 (dh_OptionLength payload) (ucast sizeof_dh_opt_IA_PD)) (
     ret payload))))))"

text \<open>
  \<open>htobe16\<close> takes a \<open>uint16_t\<close>, so the 32-bit lifetimes are truncated before the swap, and
  the block is one byte smaller than the structure written into it.
\<close>

definition dh_createOption_IAPrefix ::
  "u32 \<Rightarrow> u32 \<Rightarrow> u8 \<Rightarrow> in6_addr \<Rightarrow> ('z cheap_scheme, ptr) cm" where
  "dh_createOption_IAPrefix preferredTime validTime prefixLength prefix =
     (let optionLength = (ucast (sizeof_dh_opt_IA_Prefix - 1) :: u32) in
     bindc (malloc (ucast optionLength + dh_optPayload_offset)) (\<lambda>payload.
     thenc (store16 (dh_OptionCode payload) DHCPv6_OPTION_IAPREFIX) (
     thenc (store16 (dh_OptionLength payload) (ucast optionLength)) (
     let option = dh_OptionData payload in
     thenc (store32 (ptr_add option 0) (ucast (htobe16 (ucast preferredTime)))) (
     thenc (store32 (ptr_add option 4) (ucast (htobe16 (ucast validTime)))) (
     thenc (store8 (ptr_add option 8) prefixLength) (
     thenc (memcpy_local (ptr_add option 9) (in6_bytes prefix) 16) (
     ret payload))))))))"

definition dh_createOption_RapidCommit :: "('z cheap_scheme, ptr) cm" where
  "dh_createOption_RapidCommit = dh_createOptPayload DHCPv6_OPTION_RAPID_COMMIT Null 0"

definition dh_createOption_ClientIdentifier_En ::
  "u32 \<Rightarrow> ptr \<Rightarrow> u64 \<Rightarrow> ('z cheap_scheme, ptr) cm" where
  "dh_createOption_ClientIdentifier_En enterpriseNumber id' idLength =
     (if idLength \<le> 0 then ret Null
      else
        bindc (malloc (dh_optPayload_offset + 2 + 4 + idLength)) (\<lambda>payload.
        thenc (store16 (dh_OptionCode payload) DHCPv6_OPTION_CLIENTID) (
        thenc (store16 (dh_OptionLength payload) (ucast (2 + 4 + idLength))) (
        let option = dh_OptionData payload in
        thenc (store16 (ptr_add option 0) (htobe16 (dh_DUIdType_value DUId_En))) (
        thenc (store32 (ptr_add option 2) (htobe32 enterpriseNumber)) (
        thenc (memcpy (ptr_add option 6) id' idLength) (
        ret payload)))))))"

definition dh_createOption_ElapsedTime :: "u16 \<Rightarrow> ('z cheap_scheme, ptr) cm" where
  "dh_createOption_ElapsedTime time =
     bindc (malloc (dh_optPayload_offset + sizeof_dh_opt_ElapsedTime)) (\<lambda>payload.
     thenc (store16 (dh_OptionCode payload) DHCPv6_OPTION_ELAPSED_TIME) (
     thenc (store16 (dh_OptionLength payload) (ucast sizeof_dh_opt_ElapsedTime)) (
     let option = dh_OptionData payload in
     thenc (store16 (ptr_add option 0) (htobe16 time)) (
     ret payload))))"

section \<open>The objects the constructors leave\<close>

text \<open>
  An option under construction: code and length in host order, then the data. The length
  field is 16 bits wide, as \<open>of_nat\<close> is here.
\<close>

definition dh_object :: "u16 \<Rightarrow> mval list \<Rightarrow> mval list" where
  "dh_object code vs = map Byte (le_bytes 2 code @ le_bytes 2 (of_nat (length vs) :: u16)) @ vs"

lemma length_dh_object [simp]: "length (dh_object code vs) = 4 + length vs"
  by (simp add: dh_object_def)

lemma dh_object_of_record:
  "dh_object code (map Byte data) = map Byte (dh_optPayload_bytes
     \<lparr>OptionCode = code, OptionLength = of_nat (length data), OptionData = data\<rparr>)"
  by (simp add: dh_object_def wire_simps)

lemma ucast_of_unat: "(ucast (n::u64) :: u16) = of_nat (unat n)"
  by (simp add: unsigned_ucast_eq)

lemma dh_custom_run:
  assumes "readable p (unat n) h" and "unat n + 4 < 18446744073709551616"
  shows "dh_createCustomOptPayload code p n h = (if unat n + 4 \<le> avail h
    then Inr (Ptr (next_block h) 0, push_block (dh_object code (peek p (unat n) h)) h)
    else Inl NullDeref)"
proof -
  have sz: "unat (n + 4) = unat n + 4" using assms(2) by (simp add: unat_word_ariths)
  have "p \<noteq> Null" using assms(1) by (auto simp: readable_def)
  moreover have "replicate (unat n + 4) Undef = replicate 4 Undef @ replicate (unat n) Undef"
    by (rule replicate_add_commute)
  ultimately show ?thesis using assms(1)
    by (simp add: dh_createCustomOptPayload_def dh_sizeof_defs sz cm_simps int_enc_def patch_def
        dh_object_def)
qed

lemma dh_custom_null_run:
  assumes "unat n + 4 < 18446744073709551616"
  shows "dh_createCustomOptPayload code Null n h = (if unat n + 4 \<le> avail h
    then Inr (Ptr (next_block h) 0, push_block (dh_object code (replicate (unat n) Undef)) h)
    else Inl NullDeref)"
proof -
  have sz: "unat (n + 4) = unat n + 4" using assms by (simp add: unat_word_ariths)
  have "replicate (unat n + 4) Undef = replicate 4 Undef @ replicate (unat n) Undef"
    by (rule replicate_add_commute)
  then show ?thesis
    by (simp add: dh_createCustomOptPayload_def dh_sizeof_defs sz cm_simps int_enc_def patch_def
        dh_object_def)
qed

text \<open>A length within four of \<open>SIZE_MAX\<close> wraps the size given to \<open>malloc\<close>.\<close>

lemma dh_custom_wraps:
  assumes "18446744073709551612 \<le> unat n" and "4 \<le> avail h"
  shows "dh_createCustomOptPayload code p n h = Inl OutOfBounds"
proof -
  have n: "unat n < 18446744073709551616" using unsigned_less [of n, where ?'a = nat] by simp
  have "unat (n + 4) = unat n + 4 - 18446744073709551616"
    using assms(1) n by (simp add: unat_word_ariths le_mod_geq)
  then have "unat (n + 4) < 4" using n assms(1) by linarith
  then show ?thesis using assms(2)
    by (auto simp: dh_createCustomOptPayload_def dh_sizeof_defs cm_simps)
qed

lemma dh_IA_PD_run:
  "dh_createOption_IA_PD iaid Null n h = (if 16 \<le> avail h
    then Inr (Ptr (next_block h) 0, push_block (dh_object DHCPv6_OPTION_IA_PD (map Byte
      (dh_opt_IA_PD_bytes \<lparr>IA_id = htobe32 iaid, Time1 = 0, Time2 = 0\<rparr>))) h)
    else Inl NullDeref)"
  by (simp add: dh_createOption_IA_PD_def dh_sizeof_defs cm_simps int_enc_def patch_def
      dh_object_def wire_simps wild_fault_def)

lemma dh_IA_PD_overflow:
  assumes "readable p (unat n) h" and "0 < n" and "16 \<le> avail h"
  shows "dh_createOption_IA_PD iaid p n h = Inl OutOfBounds"
proof -
  have "p \<noteq> Null" using assms(1) by (auto simp: readable_def)
  moreover have "0 < unat n" using assms(2) by (simp add: word_less_nat_alt)
  ultimately show ?thesis using assms
    by (simp add: dh_createOption_IA_PD_def dh_sizeof_defs cm_simps int_enc_def patch_def)
qed

lemma dh_IAPrefix_overflow:
  "28 \<le> avail h \<Longrightarrow> dh_createOption_IAPrefix pt vt pl a h = Inl OutOfBounds"
  by (simp add: dh_createOption_IAPrefix_def dh_sizeof_defs cm_simps int_enc_def patch_def)

lemma dh_IAPrefix_oom:
  "avail h < 28 \<Longrightarrow> dh_createOption_IAPrefix pt vt pl a h = Inl NullDeref"
  by (simp add: dh_createOption_IAPrefix_def dh_sizeof_defs cm_simps)

lemma dh_RapidCommit_run:
  "dh_createOption_RapidCommit h = (if 4 \<le> avail h
    then Inr (Ptr (next_block h) 0, push_block (dh_object DHCPv6_OPTION_RAPID_COMMIT []) h)
    else Inl NullDeref)"
  using dh_custom_null_run [of 0 DHCPv6_OPTION_RAPID_COMMIT h]
  by (simp add: dh_createOption_RapidCommit_def dh_createOptPayload_def)

lemma dh_ElapsedTime_run:
  "dh_createOption_ElapsedTime t h = (if 6 \<le> avail h
    then Inr (Ptr (next_block h) 0, push_block (dh_object DHCPv6_OPTION_ELAPSED_TIME (map Byte
      (dh_opt_ElapsedTime_bytes \<lparr>ElapsedTime = htobe16 t\<rparr>))) h)
    else Inl NullDeref)"
  by (simp add: dh_createOption_ElapsedTime_def dh_sizeof_defs cm_simps int_enc_def patch_def
      dh_object_def wire_simps)

text \<open>The identifier is what the caller's array holds, defined or not.\<close>

definition dh_client_en :: "u32 \<Rightarrow> mval list \<Rightarrow> mval list" where
  "dh_client_en en ident = map Byte (be_bytes 2 (2::u16) @ be_bytes 4 en) @ ident"

lemma dh_client_en_of_record:
  "dh_client_en en (map Byte ident) = map Byte (dh_opt_ClientIdentifier_bytes
     \<lparr>DUIdType = htobe16 (dh_DUIdType_value DUId_En), DUIdData = Arm_En (htobe32 en) ident\<rparr>)"
  by (simp add: dh_client_en_def wire_simps)

lemma dh_ClientIdentifier_null: "dh_createOption_ClientIdentifier_En en p 0 h = Inr (Null, h)"
  by (simp add: dh_createOption_ClientIdentifier_En_def cm_simps)

lemma dh_ClientIdentifier_run:
  assumes "readable p (unat n) h" and "0 < n" and "unat n + 10 < 18446744073709551616"
  shows "dh_createOption_ClientIdentifier_En en p n h = (if unat n + 10 \<le> avail h
    then Inr (Ptr (next_block h) 0,
      push_block (dh_object DHCPv6_OPTION_CLIENTID (dh_client_en en (peek p (unat n) h))) h)
    else Inl NullDeref)"
proof -
  have sz: "unat (10 + n) = unat n + 10" "unat (6 + n) = unat n + 6"
    using assms(3) by (simp_all add: unat_word_ariths)
  have "(ucast (6 + n) :: u16) = of_nat (unat n + 6)" by (simp only: ucast_of_unat sz)
  then have "(ucast (6 + n) :: u16) = 6 + ucast n" by (simp add: add.commute)
  moreover have "n \<noteq> 0" using assms(2) by auto
  moreover have "replicate (unat n + 10) Undef = replicate 10 Undef @ replicate (unat n) Undef"
    by (rule replicate_add_commute)
  ultimately show ?thesis using assms(1,2) sz
    by (simp add: dh_createOption_ClientIdentifier_En_def dh_sizeof_defs cm_simps int_enc_def
        patch_def dh_object_def dh_client_en_def)
qed

section \<open>The constructors keep the contract\<close>

interpretation custom_opt: fresh_object
  "\<lambda>(code, p, n). dh_createCustomOptPayload code p n"
  "\<lambda>(code, p, n) h. readable p (unat n) h \<and> unat n + 4 < 18446744073709551616"
  "\<lambda>(code, p, n) h. dh_object code (peek p (unat n) h)"
  by unfold_locales (auto simp: dh_custom_run)

interpretation ia_pd_opt: fresh_object
  "\<lambda>iaid. dh_createOption_IA_PD iaid Null 0" "\<lambda>_ _. True"
  "\<lambda>iaid h. dh_object DHCPv6_OPTION_IA_PD (map Byte
      (dh_opt_IA_PD_bytes \<lparr>IA_id = htobe32 iaid, Time1 = 0, Time2 = 0\<rparr>))"
  by unfold_locales (auto simp: dh_IA_PD_run wire_simps)

interpretation rapid_opt: fresh_object
  "\<lambda>_. dh_createOption_RapidCommit" "\<lambda>_ _. True"
  "\<lambda>_ h. dh_object DHCPv6_OPTION_RAPID_COMMIT []"
  by unfold_locales (auto simp: dh_RapidCommit_run)

interpretation elapsed_opt: fresh_object
  dh_createOption_ElapsedTime "\<lambda>_ _. True"
  "\<lambda>t h. dh_object DHCPv6_OPTION_ELAPSED_TIME (map Byte
      (dh_opt_ElapsedTime_bytes \<lparr>ElapsedTime = htobe16 t\<rparr>))"
  by unfold_locales (auto simp: dh_ElapsedTime_run wire_simps)

interpretation client_opt: fresh_object
  "\<lambda>(en, p, n). dh_createOption_ClientIdentifier_En en p n"
  "\<lambda>(en, p, n) h. readable p (unat n) h \<and> 0 < n \<and> unat n + 10 < 18446744073709551616"
  "\<lambda>(en, p, n) h. dh_object DHCPv6_OPTION_CLIENTID (dh_client_en en (peek p (unat n) h))"
  by unfold_locales (auto simp: dh_ClientIdentifier_run dh_client_en_def)

section \<open>One block each\<close>

text \<open>Code that works on the block allocated last writes nowhere else; what it returns has \<open>Q\<close>.\<close>

definition writes_new :: "'z cheap_scheme \<Rightarrow> ('z cheap_scheme, 'a) cm \<Rightarrow> ('a \<Rightarrow> bool) \<Rightarrow> bool" where
  "writes_new h m Q \<longleftrightarrow>
     (\<forall>vs x h'. m (push_block vs h) = Inr (x, h') \<longrightarrow> Q x \<and> (\<exists>vs'. length vs' = length vs \<and> h' = push_block vs' h))"

lemma writes_new_ret: "Q x \<Longrightarrow> writes_new h (ret x) Q"
  by (auto simp: writes_new_def ret_apply)

lemma writes_new_thenc: "writes_new h m Q' \<Longrightarrow> writes_new h m' Q \<Longrightarrow> writes_new h (thenc m m') Q"
  unfolding writes_new_def thenc_apply by (fastforce split: sum.splits prod.splits)

lemma writes_new_store_raw: "writes_new h (store_raw (Ptr (next_block h) k) xs) (\<lambda>_. True)"
proof -
  have "length (patch k xs vs) = length vs" if "k + length xs \<le> length vs" for vs using that by simp
  then show ?thesis by (auto simp: writes_new_def store_raw_simps simp del: length_patch split: if_splits)
qed

lemma writes_new_memcpy: "writes_new h (memcpy (Ptr (next_block h) k) src n) (\<lambda>_. True)"
  unfolding writes_new_def
proof (intro allI impI)
  fix vs x h'
  assume run: "memcpy (Ptr (next_block h) k) src n (push_block vs h) = Inr (x, h')"
  then obtain xs where "store_raw (Ptr (next_block h) k) xs (push_block vs h) = Inr (x, h')"
    by (cases src) (auto simp: memcpy_apply load_raw_simps split: if_splits option.splits)
  then show "True \<and> (\<exists>vs'. length vs' = length vs \<and> h' = push_block vs' h)"
    using writes_new_store_raw unfolding writes_new_def by blast
qed

lemma writes_new_store_as: "writes_new h (store_as enc (Ptr (next_block h) k) x) (\<lambda>_. True)"
  unfolding store_as_def by (rule writes_new_store_raw)

lemma writes_new_memcpy_local: "writes_new h (memcpy_local (Ptr (next_block h) k) src n) (\<lambda>_. True)"
  unfolding memcpy_local_def
  by (cases "unat n \<le> length src") (simp_all add: writes_new_store_raw, simp add: writes_new_def raise_apply)

definition one_block :: "'z cheap_scheme \<Rightarrow> ptr \<Rightarrow> 'z cheap_scheme \<Rightarrow> bool" where
  "one_block h p h' \<longleftrightarrow> p = Null \<and> h' = h \<or> p = Ptr (next_block h) 0 \<and> (\<exists>vs. length vs \<le> avail h \<and> h' = push_block vs h)"

lemma one_block_malloc:
  assumes "bindc (malloc n) f h = Inr (p, h')" and "f Null h = Inl e"
    and "writes_new h (f (Ptr (next_block h) 0)) (\<lambda>p. p = Ptr (next_block h) 0)"
  shows "one_block h p h'"
proof (cases "unat n \<le> avail h")
  case True
  then have "f (Ptr (next_block h) 0) (push_block (replicate (unat n) Undef) h) = Inr (p, h')"
    using assms(1) by (simp add: bindc_apply malloc_apply)
  then show ?thesis using assms(3) True unfolding writes_new_def one_block_def by (metis length_replicate)
next
  case False
  then show ?thesis using assms(1,2) by (simp add: bindc_apply malloc_apply)
qed

lemma one_block_free:
  assumes "heap_wf h" and "one_block h p h'"
  shows "\<exists>h''. free p h' = Inr ((), h'') \<and> blocks h'' = blocks h \<and> avail h'' = avail h"
proof -
  have "blocks h (next_block h) = None" using assms(1) by (auto simp: heap_wf_def)
  then have "(blocks h)(next_block h := None) = blocks h" by auto
  with assms(2) show ?thesis by (auto simp: one_block_def free_def push_block_def)
qed

lemma constructors_one_block:
  "dh_createCustomOptPayload code data n h = Inr (p, h') \<Longrightarrow> one_block h p h'"
  "dh_createOptPayload code data n h = Inr (p, h') \<Longrightarrow> one_block h p h'"
  "dh_createOption_IA_PD iaid data n h = Inr (p, h') \<Longrightarrow> one_block h p h'"
  "dh_createOption_IAPrefix preferred valid len prefix h = Inr (p, h') \<Longrightarrow> one_block h p h'"
  "dh_createOption_RapidCommit h = Inr (p, h') \<Longrightarrow> one_block h p h'"
  "dh_createOption_ClientIdentifier_En enterprise data n h = Inr (p, h') \<Longrightarrow> one_block h p h'"
  "dh_createOption_ElapsedTime t h = Inr (p, h') \<Longrightarrow> one_block h p h'"
proof -
  note rules = writes_new_thenc writes_new_ret writes_new_store_as writes_new_memcpy writes_new_memcpy_local
  have custom: "one_block h p h'" if "dh_createCustomOptPayload code data n h = Inr (p, h')" for code data n
    using that unfolding dh_createCustomOptPayload_def Let_def
    by (rule one_block_malloc) (auto simp: cm_simps dh_sizeof_defs wild_fault_def intro!: rules)
  then show "dh_createCustomOptPayload code data n h = Inr (p, h') \<Longrightarrow> one_block h p h'"
    "dh_createOptPayload code data n h = Inr (p, h') \<Longrightarrow> one_block h p h'"
    "dh_createOption_RapidCommit h = Inr (p, h') \<Longrightarrow> one_block h p h'"
    by (auto simp: dh_createOptPayload_def dh_createOption_RapidCommit_def)
  show "one_block h p h'" if "dh_createOption_IA_PD iaid data n h = Inr (p, h')"
    using that unfolding dh_createOption_IA_PD_def Let_def
    by (rule one_block_malloc) (auto simp: cm_simps dh_sizeof_defs wild_fault_def intro!: rules)
  show "one_block h p h'" if "dh_createOption_IAPrefix preferred valid len prefix h = Inr (p, h')"
    using that unfolding dh_createOption_IAPrefix_def Let_def
    by (rule one_block_malloc) (auto simp: cm_simps dh_sizeof_defs wild_fault_def intro!: rules)
  show "one_block h p h'" if "dh_createOption_ClientIdentifier_En enterprise data n h = Inr (p, h')"
  proof (cases "n = 0")
    case True
    then show ?thesis using that by (simp add: dh_createOption_ClientIdentifier_En_def ret_apply one_block_def)
  next
    case False
    then have run: "bindc (malloc (dh_optPayload_offset + 2 + 4 + n)) (\<lambda>payload.
        thenc (store16 (dh_OptionCode payload) DHCPv6_OPTION_CLIENTID) (
        thenc (store16 (dh_OptionLength payload) (ucast (2 + 4 + n))) (
        thenc (store16 (ptr_add (dh_OptionData payload) 0) (htobe16 (dh_DUIdType_value DUId_En))) (
        thenc (store32 (ptr_add (dh_OptionData payload) 2) (htobe32 enterprise)) (
        thenc (memcpy (ptr_add (dh_OptionData payload) 6) data n) (
        ret payload)))))) h = Inr (p, h')"
      using that by (simp add: dh_createOption_ClientIdentifier_En_def Let_def)
    show ?thesis
      by (rule one_block_malloc [OF run]) (auto simp: cm_simps dh_sizeof_defs wild_fault_def intro!: rules)
  qed
  show "one_block h p h'" if "dh_createOption_ElapsedTime t h = Inr (p, h')"
    using that unfolding dh_createOption_ElapsedTime_def Let_def
    by (rule one_block_malloc) (auto simp: cm_simps dh_sizeof_defs wild_fault_def intro!: rules)
qed

section \<open>Properties\<close>

text \<open>A custom option carries its data unchanged, whatever the size, but announces the size
  modulo 65536: beyond 65535 bytes the length field no longer describes the object.\<close>

theorem custom_option_length:
  assumes "readable p (unat n) h" and "unat n + 4 < 18446744073709551616"
    and "dh_createCustomOptPayload code p n h = Inr (q, h')"
  shows "\<exists>l. load16 (dh_OptionLength q) h' = Inr (l, h') \<and> unat l = unat n mod 65536 \<and>
    load_raw (dh_OptionData q) (unat n) h' = Inr (peek p (unat n) h, h')"
proof -
  let ?vs = "peek p (unat n) h"
  have q: "q = Ptr (next_block h) 0" "h' = push_block (dh_object code ?vs) h"
    using assms by (auto simp: dh_custom_run split: if_splits)
  have "load16 (dh_OptionLength q) h' = Inr (of_nat (unat n), h')"
    using assms(1) by (simp add: q cm_simps dh_object_def segment_def take_map drop_map flip: map_append)
  moreover have "load_raw (dh_OptionData q) (unat n) h' = Inr (?vs, h')"
    using assms(1) by (simp add: q cm_simps dh_object_def segment_def)
  moreover have "unat (of_nat (unat n) :: u16) = unat n mod 65536"
    by (simp only: unat_of_nat) simp
  ultimately show ?thesis by blast
qed

theorem custom_option_length_witness:
  "\<exists>q h' l. dh_createCustomOptPayload 16 (Ptr 0 0) 2 (sample_heap [[Byte 8, Undef]] 9) = Inr (q, h') \<and>
    load16 (dh_OptionLength q) h' = Inr (l, h') \<and> unat l = 2"
proof -
  let ?h = "sample_heap [[Byte 8, Undef]] 9"
  have r: "readable (Ptr 0 0) (unat (2 :: u64)) ?h" "unat (2 :: u64) + 4 < 18446744073709551616"
    by simp_all
  obtain q h' where run: "dh_createCustomOptPayload 16 (Ptr 0 0) 2 ?h = Inr (q, h')"
    using r by (simp add: dh_custom_run)
  from custom_option_length [OF r run] run show ?thesis by auto
qed

text \<open>C22: An IA_PD option built around prefix options writes them beyond its block, which is
  allocated for the fixed part alone.\<close>

theorem IA_PD_overflow:
  assumes "readable p (unat n) h" and "0 < n" and "16 \<le> avail h"
  shows "dh_createOption_IA_PD iaid p n h = Inl OutOfBounds"
  by (rule dh_IA_PD_overflow [OF assms])

theorem IA_PD_overflow_witness:
  "dh_createOption_IA_PD 7 (Ptr 0 0) 2 (sample_heap [[Byte 1, Byte 2]] 100) = Inl OutOfBounds"
  by (rule IA_PD_overflow) simp_all

text \<open>C23: The IA Prefix constructor never succeeds: its block is one byte short of the structure,
  so with memory it overflows and without it dereferences NULL.\<close>

theorem IAPrefix_never_succeeds:
  "dh_createOption_IAPrefix pt vt pl a h = Inl (if 28 \<le> avail h then OutOfBounds else NullDeref)"
  by (simp add: dh_IAPrefix_overflow dh_IAPrefix_oom)

text \<open>The client identifier: no option for an empty identifier; otherwise a DUID-EN option
  (type 2, enterprise number and identifier, in network order), or a NULL dereference
  when there is no memory.\<close>

theorem client_identifier:
  assumes "readable p (unat n) h" and "unat n + 10 < 18446744073709551616"
  shows "dh_createOption_ClientIdentifier_En en p n h =
    (if n = 0 then Inr (Null, h)
     else if unat n + 10 \<le> avail h
     then Inr (Ptr (next_block h) 0, push_block (dh_object DHCPv6_OPTION_CLIENTID
       (map Byte (be_bytes 2 (2::u16) @ be_bytes 4 en) @ peek p (unat n) h)) h)
     else Inl NullDeref)"
proof (cases "n = 0")
  case True
  then show ?thesis by (simp add: dh_ClientIdentifier_null)
next
  case False
  then have "0 < n" by (simp add: word_greater_zero_iff)
  then show ?thesis
    using dh_ClientIdentifier_run [OF assms(1) _ assms(2)] False by (simp add: dh_client_en_def)
qed

theorem client_identifier_witness:
  "\<exists>h'. dh_createOption_ClientIdentifier_En 4107 (Ptr 0 0) 4
      (sample_heap [map Byte [13, 0, 7, 33]] 14) = Inr (Ptr 1 0, h') \<and>
    dh_createOption_ClientIdentifier_En 4107 (Ptr 0 0) 4
      (sample_heap [map Byte [13, 0, 7, 33]] 13) = Inl NullDeref"
  using client_identifier [of "Ptr 0 0" 4 "sample_heap [map Byte [13, 0, 7, 33]] 14" 4107]
    client_identifier [of "Ptr 0 0" 4 "sample_heap [map Byte [13, 0, 7, 33]] 13" 4107]
  by simp

text \<open>C24: Building an option and freeing it leaves memory as it was: whatever its arguments, a
  DHCPv6 constructor that returns has allocated one block and written nothing else, or, for a
  client identifier without octets, returned NULL.\<close>

theorem option_build_free:
  assumes "heap_wf h"
    and "dh_createCustomOptPayload code data n h = Inr (p, h') \<or>
      dh_createOptPayload code data n h = Inr (p, h') \<or>
      dh_createOption_IA_PD iaid data n h = Inr (p, h') \<or>
      dh_createOption_IAPrefix preferred valid len prefix h = Inr (p, h') \<or>
      dh_createOption_RapidCommit h = Inr (p, h') \<or>
      dh_createOption_ClientIdentifier_En enterprise data n h = Inr (p, h') \<or>
      dh_createOption_ElapsedTime t h = Inr (p, h')"
  shows "\<exists>h''. free p h' = Inr ((), h'') \<and> blocks h'' = blocks h \<and> avail h'' = avail h"
proof -
  have "one_block h p h'" using assms(2) by (elim disjE) (rule constructors_one_block, assumption)+
  then show ?thesis by (rule one_block_free [OF assms(1)])
qed

theorem option_build_free_witness:
  "\<exists>p h' h''. dh_createOption_ClientIdentifier_En 4107 (Ptr 0 0) 4 (sample_heap [map Byte [13, 0, 7, 33]] 14) = Inr (p, h') \<and>
    free p h' = Inr ((), h'') \<and> blocks h'' = blocks (sample_heap [map Byte [13, 0, 7, 33]] 14) \<and> avail h'' = 14"
proof -
  let ?h = "sample_heap [map Byte [13, 0, 7, 33]] 14"
  obtain p h' where run: "dh_createOption_ClientIdentifier_En 4107 (Ptr 0 0) 4 ?h = Inr (p, h')"
    by (simp add: dh_ClientIdentifier_run)
  have "\<exists>h''. free p h' = Inr ((), h'') \<and> blocks h'' = blocks ?h \<and> avail h'' = avail ?h"
    by (rule option_build_free [where enterprise = 4107 and data = "Ptr 0 0" and n = 4
          and code = 0 and iaid = 0 and preferred = 0 and valid = 0 and len = 0 and prefix = 0 and t = 0]) (simp, use run in blast)
  with run show ?thesis by auto
qed

end
