(* ===== verification/Dh_Packets.thy ===== *)
theory Dh_Packets
  imports Dh_Options
begin

text \<open>
  \<open>Inc/dh_packets.h\<close> and \<open>Src/dh_packets.c\<close>: building a DHCPv6 packet from option
  objects, the Solicit messages, and the parser that walks the options of a reply in place.
\<close>

section \<open>Structures\<close>

record dh_pkt_TransactionId =
  TransactionId_0 :: u8
  TransactionId_1 :: u8
  TransactionId_2 :: u8

definition dh_pkt_TransactionId_bytes :: "dh_pkt_TransactionId \<Rightarrow> u8 list" where
  "dh_pkt_TransactionId_bytes t = [TransactionId_0 t, TransactionId_1 t, TransactionId_2 t]"

definition sizeof_dh_pkt_TransactionId :: u64 where
  "sizeof_dh_pkt_TransactionId = 1 + 1 + 1"

definition dh_pkt_offset :: u64 where
  "dh_pkt_offset = 1 + sizeof_dh_pkt_TransactionId"

text \<open>The flexible array \<open>Options\<close> is the bytes of the options in the packet.\<close>

record dh_pkt =
  MsgType :: u8
  TransactionId :: dh_pkt_TransactionId
  Options :: "u8 list"

definition dh_pkt_bytes :: "dh_pkt \<Rightarrow> u8 list" where
  "dh_pkt_bytes r = [MsgType r] @ dh_pkt_TransactionId_bytes (TransactionId r) @ Options r"

lemma dh_pkt_bytes_options: "drop (unat dh_pkt_offset) (dh_pkt_bytes r) = Options r"
  by (simp add: dh_pkt_bytes_def dh_pkt_TransactionId_bytes_def dh_pkt_offset_def
      sizeof_dh_pkt_TransactionId_def)

datatype dh_msgType =
    dh_SOLICIT | dh_ADVERTISE | dh_REQUEST | dh_CONFIRM | dh_RENEW | dh_REBIND | dh_REPLY
  | dh_RELEASE | dh_DECLINE | dh_RECONFIGURE | dh_INFORMATION_REQUEST | dh_RELAY_FORW
  | dh_RELAY_REPL

primrec dh_msgType_value :: "dh_msgType \<Rightarrow> u8" where
  "dh_msgType_value dh_SOLICIT = 1"
| "dh_msgType_value dh_ADVERTISE = 2"
| "dh_msgType_value dh_REQUEST = 3"
| "dh_msgType_value dh_CONFIRM = 4"
| "dh_msgType_value dh_RENEW = 5"
| "dh_msgType_value dh_REBIND = 6"
| "dh_msgType_value dh_REPLY = 7"
| "dh_msgType_value dh_RELEASE = 8"
| "dh_msgType_value dh_DECLINE = 9"
| "dh_msgType_value dh_RECONFIGURE = 10"
| "dh_msgType_value dh_INFORMATION_REQUEST = 11"
| "dh_msgType_value dh_RELAY_FORW = 12"
| "dh_msgType_value dh_RELAY_REPL = 13"

abbreviation (input) dh_MsgType :: "ptr \<Rightarrow> ptr" where "dh_MsgType p \<equiv> ptr_add p 0"
abbreviation (input) dh_TransactionId :: "ptr \<Rightarrow> ptr" where "dh_TransactionId p \<equiv> ptr_add p 1"
abbreviation (input) dh_Options :: "ptr \<Rightarrow> ptr" where "dh_Options p \<equiv> ptr_add p 4"

section \<open>Building packets\<close>

text \<open>The two loops of \<open>dh_createPacket\<close>; \<open>arr\<close> is the array of pointers to the options.\<close>

primrec dh_packet_length :: "ptr \<Rightarrow> nat \<Rightarrow> nat \<Rightarrow> u64 \<Rightarrow> ('z cheap_scheme, u64) cm" where
  "dh_packet_length arr i 0 len = ret len"
| "dh_packet_length arr i (Suc n) len =
     bindc (load_ptr (ptr_add arr (8 * i))) (\<lambda>payload.
     bindc (load16 (dh_OptionLength payload)) (\<lambda>l.
     dh_packet_length arr (Suc i) n (len + (ucast l + dh_optPayload_offset))))"

primrec dh_copy_options :: "ptr \<Rightarrow> ptr \<Rightarrow> nat \<Rightarrow> nat \<Rightarrow> u64 \<Rightarrow> ('z cheap_scheme, unit) cm" where
  "dh_copy_options arr packet i 0 optionOffset = ret ()"
| "dh_copy_options arr packet i (Suc n) optionOffset =
     bindc (load_ptr (ptr_add arr (8 * i))) (\<lambda>payload.
     let buffer = ptr_add (dh_Options packet) (unat optionOffset) in
     bindc (load16 (dh_OptionLength payload)) (\<lambda>l.
     thenc (memcpy buffer payload (ucast l + dh_optPayload_offset)) (
     bindc (load16 (dh_OptionLength payload)) (\<lambda>l.
     bindc (load16 (dh_OptionCode buffer)) (\<lambda>c.
     thenc (store16 (dh_OptionCode buffer) (htobe16 c)) (
     bindc (load16 (dh_OptionLength buffer)) (\<lambda>bl.
     thenc (store16 (dh_OptionLength buffer) (htobe16 bl)) (
     dh_copy_options arr packet (Suc i) n (optionOffset + (ucast l + dh_optPayload_offset))))))))))"

definition dh_createPacket ::
  "dh_msgType \<Rightarrow> dh_pkt_TransactionId \<Rightarrow> ptr \<Rightarrow> u32 \<Rightarrow> ('z cheap_scheme, ptr \<times> u64) cm" where
  "dh_createPacket msgType transId optPtrList optPtrListLength =
     bindc (dh_packet_length optPtrList 0 (unat optPtrListLength)
              (1 + sizeof_dh_pkt_TransactionId)) (\<lambda>len.
     bindc (malloc len) (\<lambda>packet.
     thenc (store8 (dh_MsgType packet) (dh_msgType_value msgType)) (
     thenc (store_raw (dh_TransactionId packet) (map Byte (dh_pkt_TransactionId_bytes transId))) (
     thenc (dh_copy_options optPtrList packet 0 (unat optPtrListLength) 0) (
     ret (packet, len))))))"

text \<open>
  The variadic Solicit builder. \<open>old\<close> is the value of \<open>*pktPtr\<close> before the call, which the
  error returns leave. The C library's clock and generator are parameters: \<open>clock\<close> is what
  \<open>timespec_get\<close> stores (seconds, nanoseconds) or \<open>None\<close> when it fails, and
  \<open>rng seed\<close> the first \<open>random()\<close> after \<open>srandom(seed)\<close>.
\<close>

primrec dh_store_varargs :: "ptr \<Rightarrow> nat \<Rightarrow> nat \<Rightarrow> ptr list \<Rightarrow> ('z cheap_scheme, unit) cm" where
  "dh_store_varargs arr i 0 vArg = ret ()"
| "dh_store_varargs arr i (Suc n) vArg = (case vArg of
       [] \<Rightarrow> raise BadVararg
     | p # vArg \<Rightarrow> thenc (store_ptr (ptr_add arr (8 * (i + 3))) p)
                     (dh_store_varargs arr (Suc i) n vArg))"

definition dh_transId_of_random :: "u64 \<Rightarrow> dh_pkt_TransactionId" where
  "dh_transId_of_random randomVal = (let bs = le_bytes 8 randomVal in
     \<lparr>TransactionId_0 = bs ! 0, TransactionId_1 = bs ! 1, TransactionId_2 = bs ! 2\<rparr>)"

definition dh_CreateCustomizedSolicitPacket ::
  "(u64 \<times> u64) option \<Rightarrow> (u32 \<Rightarrow> u64) \<Rightarrow> ptr \<Rightarrow> ptr \<Rightarrow> ptr \<Rightarrow> ptr \<Rightarrow> u32 \<Rightarrow> ptr list
    \<Rightarrow> ('z cheap_scheme, ptr \<times> u64) cm" where
  "dh_CreateCustomizedSolicitPacket clock rng old clientId elapsedTime IA_PD optionsNum vArg =
     bindc (malloc (8 * ucast (optionsNum + 3))) (\<lambda>optionsPtrList.
     if clientId = Null \<or> elapsedTime = Null \<or> IA_PD = Null then ret (old, -1)
     else
       thenc (dh_store_varargs optionsPtrList 0 (unat optionsNum) vArg) (
       case clock of None \<Rightarrow> ret (old, -1)
       | Some (tv_sec, tv_nsec) \<Rightarrow>
           let transId = dh_transId_of_random (rng (ucast (tv_nsec XOR tv_sec))) in
           thenc (store_ptr (ptr_add optionsPtrList 0) clientId) (
           thenc (store_ptr (ptr_add optionsPtrList 8) elapsedTime) (
           thenc (store_ptr (ptr_add optionsPtrList 16) IA_PD) (
           dh_createPacket dh_SOLICIT transId optionsPtrList (optionsNum + 3))))))"

text \<open>
  C leaves the order in which arguments are evaluated open; the model takes them from left
  to right, which only decides which block each option gets.
\<close>

definition dh_createSolicitPacket ::
  "(u64 \<times> u64) option \<Rightarrow> (u32 \<Rightarrow> u64) \<Rightarrow> ptr \<Rightarrow> ptr \<Rightarrow> u64 \<Rightarrow> u16 \<Rightarrow> u32
    \<Rightarrow> ('z cheap_scheme, ptr \<times> u64) cm" where
  "dh_createSolicitPacket clock rng old clientId clientSize elapsedTime IA_Id =
     bindc (dh_createCustomOptPayload DHCPv6_OPTION_CLIENTID clientId clientSize) (\<lambda>client.
     bindc (dh_createOption_ElapsedTime elapsedTime) (\<lambda>elapsed.
     bindc (dh_createOption_IA_PD IA_Id Null 0) (\<lambda>iapd.
     dh_CreateCustomizedSolicitPacket clock rng old client elapsed iapd 0 [])))"

definition dh_createRapidSolicitPacket ::
  "(u64 \<times> u64) option \<Rightarrow> (u32 \<Rightarrow> u64) \<Rightarrow> ptr \<Rightarrow> ptr \<Rightarrow> u64 \<Rightarrow> u16 \<Rightarrow> u32
    \<Rightarrow> ('z cheap_scheme, ptr \<times> u64) cm" where
  "dh_createRapidSolicitPacket clock rng old clientId clientSize elapsedTime IA_Id =
     bindc dh_createOption_RapidCommit (\<lambda>rapidOption.
     bindc (dh_createCustomOptPayload DHCPv6_OPTION_CLIENTID clientId clientSize) (\<lambda>client.
     bindc (dh_createOption_ElapsedTime elapsedTime) (\<lambda>elapsed.
     bindc (dh_createOption_IA_PD IA_Id Null 0) (\<lambda>iapd.
     dh_CreateCustomizedSolicitPacket clock rng old client elapsed iapd 1 [rapidOption]))))"

definition dh_createCustomizedRequestPacket ::
  "ptr \<Rightarrow> ptr \<Rightarrow> u16 \<Rightarrow> u32 \<Rightarrow> ('z cheap_scheme, ptr \<times> u64) cm" where
  "dh_createCustomizedRequestPacket old clientId elapsedTime IA_Id = ret (old, -1)"

section \<open>Parsing a reply\<close>

record dh_parsedOptions =
  success :: bool
  ClientIdentifier :: ptr
  ServerIdentifier :: ptr
  IA_PDList :: ptr
  ElapsedTIme :: ptr

text \<open>A list node \<open>dh_optMultiPayload\<close>: the option, then the next node.\<close>

definition sizeof_dh_optMultiPayload :: u64 where
  "sizeof_dh_optMultiPayload = 8 + 8"

abbreviation (input) node_value :: "ptr \<Rightarrow> ptr" where "node_value p \<equiv> ptr_add p 0"
abbreviation (input) node_next :: "ptr \<Rightarrow> ptr" where "node_next p \<equiv> ptr_add p 8"

text \<open>
  The walk to the end of a non-empty list; the last \<open>next\<close> becomes the new node. The fuel
  is one more than the number of blocks, which a list cannot exceed.
\<close>

primrec dh_append_node :: "nat \<Rightarrow> ptr \<Rightarrow> ptr \<Rightarrow> ('z cheap_scheme, unit) cm" where
  "dh_append_node 0 current newNode = raise OutOfFuel"
| "dh_append_node (Suc fuel) current newNode =
     bindc (load_ptr (node_next current)) (\<lambda>next.
     if next = Null then store_ptr (node_next current) newNode
     else dh_append_node fuel next newNode)"

definition dh_parse_switch ::
  "ptr \<Rightarrow> u16 \<Rightarrow> dh_parsedOptions \<Rightarrow> ('z cheap_scheme, dh_parsedOptions) cm" where
  "dh_parse_switch option optionCode result =
     (if optionCode = DHCPv6_OPTION_CLIENTID then ret (result\<lparr>ClientIdentifier := option\<rparr>)
      else if optionCode = DHCPv6_OPTION_SERVERID then ret (result\<lparr>ServerIdentifier := option\<rparr>)
      else if optionCode = DHCPv6_OPTION_IA_PD then
        let result = result\<lparr>success := False\<rparr> in
        bindc (malloc sizeof_dh_optMultiPayload) (\<lambda>newNode.
        if newNode = Null then ret result
        else
          thenc (store_ptr (node_value newNode) option) (
          thenc (store_ptr (node_next newNode) Null) (
          if IA_PDList result = Null then ret (result\<lparr>IA_PDList := newNode\<rparr>)
          else
            bindc (gets (\<lambda>h. Suc (next_block h))) (\<lambda>fuel.
            thenc (dh_append_node fuel (IA_PDList result) newNode) (ret result)))))
      else ret result)"

text \<open>The head of the loop: both header fields are converted in place, then read.\<close>

definition dh_swap_header :: "ptr \<Rightarrow> ('z cheap_scheme, u16 \<times> u16) cm" where
  "dh_swap_header option =
     bindc (load16 (dh_OptionCode option)) (\<lambda>c.
     thenc (store16 (dh_OptionCode option) (be16toh c)) (
     bindc (load16 (dh_OptionLength option)) (\<lambda>l.
     thenc (store16 (dh_OptionLength option) (be16toh l)) (
     bindc (load16 (dh_OptionLength option)) (\<lambda>optionLength.
     bindc (load16 (dh_OptionCode option)) (\<lambda>optionCode.
     ret (optionCode, optionLength)))))))"

primrec dh_parse_loop ::
  "nat \<Rightarrow> ptr \<Rightarrow> u64 \<Rightarrow> ptr \<Rightarrow> u64 \<Rightarrow> dh_parsedOptions
    \<Rightarrow> ('z cheap_scheme, dh_parsedOptions) cm" where
  "dh_parse_loop 0 pkt sz readerPtr unreadDataLength result = raise OutOfFuel"
| "dh_parse_loop (Suc fuel) pkt sz readerPtr unreadDataLength result =
     (let option = readerPtr in
     bindc (dh_swap_header option) (\<lambda>(optionCode, optionLength).
     let optPayloadLength = ucast optionLength + dh_optPayload_offset in
     bindc (dh_parse_switch option optionCode result) (\<lambda>result.
     let unreadDataLength = unreadDataLength - optPayloadLength in
     if unreadDataLength \<le> 0 then ret result
     else
       let readerPtr = ptr_add readerPtr (unat optPayloadLength) in
       bindc (gets (\<lambda>h. uintptr h readerPtr > uintptr h pkt + sz)) (\<lambda>outside.
       if outside then ret result
       else dh_parse_loop fuel pkt sz readerPtr unreadDataLength result))))"

text \<open>Every iteration reads a header further on in the packet's block: its length is enough fuel.\<close>

definition dh_parse_fuel :: "ptr \<Rightarrow> 'z cheap_scheme \<Rightarrow> nat" where
  "dh_parse_fuel pkt h = (case pkt of
       Ptr b k \<Rightarrow> (case blocks h b of None \<Rightarrow> 1 | Some vs \<Rightarrow> Suc (length vs)) | _ \<Rightarrow> 1)"

definition dh_parseOptions :: "ptr \<Rightarrow> u64 \<Rightarrow> ('z cheap_scheme, dh_parsedOptions) cm" where
  "dh_parseOptions pkt sz =
     (let readerPtr = ptr_add pkt (unat dh_pkt_offset);
          unreadDataLength = sz - dh_pkt_offset;
          result = \<lparr>success = False, ClientIdentifier = Null, ServerIdentifier = Null,
                    IA_PDList = Null, ElapsedTIme = Null\<rparr>
      in
      if unreadDataLength \<le> 0 \<or> readerPtr = Null then ret result
      else
        bindc (load8 (dh_MsgType pkt)) (\<lambda>msgType.
        if msgType \<noteq> dh_msgType_value dh_ADVERTISE \<and> msgType \<noteq> dh_msgType_value dh_REPLY
        then ret result
        else
          bindc (gets (dh_parse_fuel pkt)) (\<lambda>fuel.
          bindc (dh_parse_loop fuel pkt sz readerPtr unreadDataLength result) (\<lambda>result.
          ret (result\<lparr>success := True\<rparr>)))))"

section \<open>What the builder leaves\<close>

text \<open>
  An option is its code and its data. On the wire (RFC 8415 section 21.1) the code and
  length are in network order; on the heap, and in a packet the parser has walked, they
  are in host order. The data may hold bytes the program never wrote.
\<close>

type_synonym dh_option = "u16 \<times> mval list"

fun dh_wire_option :: "dh_option \<Rightarrow> mval list" where
  "dh_wire_option (code, vs) = map Byte (be_bytes 2 code @ be_bytes 2 (of_nat (length vs) :: u16)) @ vs"

fun dh_host_option :: "dh_option \<Rightarrow> mval list" where
  "dh_host_option (code, vs) = dh_object code vs"

definition dh_wire_packet :: "u8 \<Rightarrow> dh_pkt_TransactionId \<Rightarrow> dh_option list \<Rightarrow> mval list" where
  "dh_wire_packet ty transId opts =
     map Byte (ty # dh_pkt_TransactionId_bytes transId) @ concat (map dh_wire_option opts)"

definition dh_size :: "dh_option list \<Rightarrow> nat" where
  "dh_size opts = sum_list (map (\<lambda>(_, vs). 4 + length vs) opts)"

lemma dh_size_simps [simp]:
  "dh_size [] = 0" "dh_size ((c, vs) # opts) = 4 + length vs + dh_size opts"
  by (simp_all add: dh_size_def)

lemma length_dh_wire_option [simp]: "length (dh_wire_option opt) = 4 + length (snd opt)"
  by (cases opt) simp

lemma length_dh_wire_options: "length (concat (map dh_wire_option opts)) = dh_size opts"
  by (induction opts) auto

definition dh_holds :: "'z cheap_scheme \<Rightarrow> ptr \<Rightarrow> dh_option \<Rightarrow> bool" where
  "dh_holds h p opt \<longleftrightarrow> length (snd opt) < 65536 \<and>
     (\<exists>b. p = Ptr b 0 \<and> b < next_block h \<and> blocks h b = Some (dh_host_option opt))"

definition ptr_array :: "'z cheap_scheme \<Rightarrow> ptr \<Rightarrow> ptr list \<Rightarrow> bool" where
  "ptr_array h arr ps \<longleftrightarrow> (\<exists>b vs. arr = Ptr b 0 \<and> b < next_block h \<and> blocks h b = Some vs \<and>
     8 * length ps \<le> length vs \<and> (\<forall>i < length ps. segment (8 * i) 8 vs = ptr_enc (ps ! i)))"

lemma dh_holds_push_block: "dh_holds h p opt \<Longrightarrow> dh_holds (push_block vs h) p opt"
  unfolding dh_holds_def by (metis blocks_push_block less_SucI less_irrefl next_block_push_block)

lemma dh_holds_list_push_block:
  "list_all2 (dh_holds h) ps opts \<Longrightarrow> list_all2 (dh_holds (push_block vs h)) ps opts"
  by (erule list_all2_mono) (rule dh_holds_push_block)

lemma ptr_array_push_block: "ptr_array h arr ps \<Longrightarrow> ptr_array (push_block vs h) arr ps"
  unfolding ptr_array_def by (metis blocks_push_block less_SucI less_irrefl next_block_push_block)

lemma ptr_array_load:
  assumes "ptr_array h arr ps" and "i < length ps"
  shows "load_ptr (ptr_add arr (8 * i)) h = Inr (ps ! i, h)"
proof -
  obtain b vs where a: "arr = Ptr b 0" "blocks h b = Some vs" "8 * length ps \<le> length vs"
    "segment (8 * i) 8 vs = ptr_enc (ps ! i)"
    using assms by (auto simp: ptr_array_def)
  moreover have "8 * i + 8 \<le> length vs" using a(3) assms(2) by linarith
  ultimately show ?thesis by (simp add: cm_simps ptr_t.dec_enc)
qed

lemma dh_load_length:
  assumes "dh_holds h p opt"
  shows "load16 (dh_OptionLength p) h = Inr (of_nat (length (snd opt)), h)"
  using assms
  by (cases opt) (auto simp: dh_holds_def cm_simps dh_object_def segment_def take_map drop_map
      simp flip: map_append)

lemma dh_option_length_word:
  assumes "n < 65536"
  shows "(ucast (of_nat n :: u16) + 4 :: u64) = of_nat (4 + n)"
    and "unat (ucast (of_nat n :: u16) + 4 :: u64) = 4 + n"
proof -
  have u: "unat (of_nat n :: u16) = n" using assms by (simp add: unat_of_nat)
  have "(ucast (of_nat n :: u16) :: u64) = of_nat n" by (metis u unsigned_ucast_eq of_nat_unat)
  then show "(ucast (of_nat n :: u16) + 4 :: u64) = of_nat (4 + n)" by simp
  then show "unat (ucast (of_nat n :: u16) + 4 :: u64) = 4 + n"
    using assms by (simp add: unat_of_nat del: of_nat_add)
qed

lemma dh_option_advance:
  assumes "length vs < 65536"
  shows "ucast (of_nat (length vs) :: u16) + dh_optPayload_offset = (of_nat (4 + length vs) :: u64)"
    and "unat (of_nat (4 + length vs) :: u64) = 4 + length vs"
    and "(of_nat (dh_size ((c, vs) # todo)) - of_nat (4 + length vs) :: u64) = of_nat (dh_size todo)"
proof -
  show "ucast (of_nat (length vs) :: u16) + dh_optPayload_offset = (of_nat (4 + length vs) :: u64)"
    using assms
    by (simp only: dh_sizeof_defs dh_option_length_word one_add_one numeral_plus_numeral semiring_norm)
  show "unat (of_nat (4 + length vs) :: u64) = 4 + length vs"
    using assms by (simp add: unat_of_nat del: of_nat_add)
  show "(of_nat (dh_size ((c, vs) # todo)) - of_nat (4 + length vs) :: u64) = of_nat (dh_size todo)"
    by simp
qed

lemma dh_packet_length_run:
  assumes "ptr_array h arr (seen @ todo)" and "list_all2 (dh_holds h) todo opts"
  shows "dh_packet_length arr (length seen) (length todo) len h = Inr (len + of_nat (dh_size opts), h)"
  using assms
proof (induction todo arbitrary: seen opts len)
  case Nil
  then show ?case by (simp add: cm_simps)
next
  case (Cons p todo)
  then obtain c vs opts' where o: "opts = (c, vs) # opts'" "dh_holds h p (c, vs)"
    "list_all2 (dh_holds h) todo opts'"
    by (metis list_all2_Cons1 surj_pair)
  have ld: "load_ptr (ptr_add arr (8 * length seen)) h = Inr (p, h)"
    using ptr_array_load [OF Cons.prems(1), of "length seen"] by simp
  have "length vs < 65536" using o(2) by (simp add: dh_holds_def)
  note w = dh_option_advance(1) [OF this]
  have "ptr_array h arr ((seen @ [p]) @ todo)" using Cons.prems(1) by simp
  from Cons.IH [OF this o(3)] show ?case
    by (simp add: o(1) bindc_apply ld dh_load_length [OF o(2)] w add.assoc
        flip: of_nat_add del: of_nat_add)
qed

text \<open>The header of the option just copied, turned to network order in place.\<close>

lemma dh_swap_fresh:
  assumes "length pre = 4 + k"
  shows "load16 (Ptr (next_block h) (4 + k)) (push_block (pre @ dh_object c vs @ zs) h) =
      Inr (c, push_block (pre @ dh_object c vs @ zs) h)"
    and "store16 (Ptr (next_block h) (4 + k)) (htobe16 c) (push_block (pre @ dh_object c vs @ zs) h) =
      Inr ((), push_block (pre @ map Byte (be_bytes 2 c) @ drop 2 (dh_object c vs) @ zs) h)"
    and "load16 (Ptr (next_block h) (6 + k))
        (push_block (pre @ map Byte (be_bytes 2 c) @ drop 2 (dh_object c vs) @ zs) h) =
      Inr (of_nat (length vs), push_block (pre @ map Byte (be_bytes 2 c) @ drop 2 (dh_object c vs) @ zs) h)"
    and "store16 (Ptr (next_block h) (6 + k)) (htobe16 (of_nat (length vs)))
        (push_block (pre @ map Byte (be_bytes 2 c) @ drop 2 (dh_object c vs) @ zs) h) =
      Inr ((), push_block (pre @ dh_wire_option (c, vs) @ zs) h)"
  using assms by (simp_all add: cm_simps dh_object_def segment_def patch_def int_enc_def)

lemma dh_copy_options_run:
  assumes "ptr_array h arr (seen @ todo)" and "list_all2 (dh_holds h) todo opts"
    and "length pre = 4 + k" and "k + dh_size opts < 18446744073709551616"
  shows "dh_copy_options arr (Ptr (next_block h) 0) (length seen) (length todo) (of_nat k)
      (push_block (pre @ replicate (dh_size opts) Undef) h) =
    Inr ((), push_block (pre @ concat (map dh_wire_option opts)) h)"
  using assms
proof (induction todo arbitrary: seen opts pre k)
  case Nil
  then show ?case by (simp add: cm_simps)
next
  case (Cons p todo)
  then obtain c vs opts' where o: "opts = (c, vs) # opts'" "dh_holds h p (c, vs)"
    "list_all2 (dh_holds h) todo opts'"
    by (metis list_all2_Cons1 surj_pair)
  let ?nb = "next_block h" and ?n = "dh_size opts'"
  have ld: "load_ptr (ptr_add arr (8 * length seen)) (push_block ws h) = Inr (p, push_block ws h)" for ws
    using ptr_array_load [OF ptr_array_push_block [OF Cons.prems(1)], of "length seen"] by simp
  have ll: "load16 (ptr_add p 2) (push_block ws h) = Inr (of_nat (length vs), push_block ws h)" for ws
    using dh_load_length [OF dh_holds_push_block [OF o(2)]] by simp
  have len: "length vs < 65536" using o(2) by (simp add: dh_holds_def)
  note w = dh_option_advance(1) [OF len] and uw = dh_option_advance(2) [OF len]
  have uk: "unat (of_nat k :: u64) = k" using Cons.prems(4) by (simp add: unat_of_nat o(1))
  have rd: "readable p (4 + length vs) h" "peek p (4 + length vs) h = dh_object c vs"
    using o(2) by (auto simp: dh_holds_def readable_Ptr peek_def segment_all)
  let ?mid = "pre @ dh_wire_option (c, vs)"
  have rep: "replicate (dh_size opts) Undef = replicate (4 + length vs) Undef @ replicate ?n Undef"
    by (simp only: o(1) dh_size_simps replicate_add)
  have "patch (4 + k) (dh_object c vs) (pre @ replicate (4 + length vs) Undef @ replicate ?n Undef) =
      pre @ dh_object c vs @ replicate ?n Undef"
    by (rule patch_append) (use Cons.prems(3) in simp_all)
  then have cp: "memcpy (Ptr ?nb (4 + k)) p (of_nat (4 + length vs))
      (push_block (pre @ replicate (dh_size opts) Undef) h) =
    Inr ((), push_block (pre @ dh_object c vs @ replicate ?n Undef) h)"
    using rd Cons.prems(3) by (simp add: memcpy_to_fresh uw rep del: of_nat_add)
  note sw = dh_swap_fresh [OF Cons.prems(3)]
  have IH: "dh_copy_options arr (Ptr ?nb 0) (Suc (length seen)) (length todo) (of_nat (k + (4 + length vs)))
      (push_block (pre @ dh_wire_option (c, vs) @ replicate ?n Undef) h) =
    Inr ((), push_block (pre @ dh_wire_option (c, vs) @ concat (map dh_wire_option opts')) h)"
    using Cons.IH [of "seen @ [p]" opts' "pre @ dh_wire_option (c, vs)" "k + (4 + length vs)"]
      Cons.prems o by simp
  show ?case using IH
    by (simp add: bindc_apply thenc_apply Let_def ld ll w uk cp [unfolded o(1)] sw o(1)
        flip: of_nat_add del: of_nat_add dh_size_simps dh_wire_option.simps)
qed

lemma dh_size_bound:
  "list_all2 (dh_holds h) ps opts \<Longrightarrow> dh_size opts \<le> 65539 * length ps"
  by (induction rule: list_all2_induct) (auto simp: dh_holds_def split: prod.splits)

lemma dh_createPacket_length:
  fixes n :: u32
  assumes arr: "ptr_array h arr ps" and holds: "list_all2 (dh_holds h) ps opts"
    and num: "unat n = length ps"
  shows "dh_packet_length arr 0 (unat n) (1 + sizeof_dh_pkt_TransactionId) h =
      Inr (of_nat (4 + dh_size opts), h)"
    and "4 + dh_size opts < 18446744073709551616"
    and "unat (of_nat (4 + dh_size opts) :: u64) = 4 + dh_size opts"
proof -
  show "dh_packet_length arr 0 (unat n) (1 + sizeof_dh_pkt_TransactionId) h =
      Inr (of_nat (4 + dh_size opts), h)"
    using dh_packet_length_run [of h arr "[]" ps opts] arr holds num
    by (simp add: sizeof_dh_pkt_TransactionId_def)
  have "dh_size opts \<le> 65539 * unat n" using dh_size_bound [OF holds] num by simp
  also have "\<dots> < 65539 * 4294967296" using unsigned_less [of n, where ?'a = nat] by simp
  finally show b: "4 + dh_size opts < 18446744073709551616" by simp
  then show "unat (of_nat (4 + dh_size opts) :: u64) = 4 + dh_size opts"
    by (simp add: unat_of_nat del: of_nat_add)
qed

lemma dh_createPacket_run:
  assumes arr: "ptr_array h arr ps" and holds: "list_all2 (dh_holds h) ps opts"
    and num: "unat n = length ps"
  shows "dh_createPacket ty transId arr n h = (if 4 + dh_size opts \<le> avail h
    then Inr ((Ptr (next_block h) 0, of_nat (4 + dh_size opts)),
      push_block (dh_wire_packet (dh_msgType_value ty) transId opts) h)
    else Inl NullDeref)"
proof (cases "4 + dh_size opts \<le> avail h")
  case False
  then show ?thesis
    using dh_createPacket_length [OF assms]
    by (simp add: dh_createPacket_def cm_simps del: of_nat_add)
next
  case True
  let ?pre = "map Byte (dh_msgType_value ty # dh_pkt_TransactionId_bytes transId)"
  have pre: "length ?pre = 4 + 0" by (simp add: dh_pkt_TransactionId_bytes_def)
  have bound: "0 + dh_size opts < 18446744073709551616"
    using dh_createPacket_length(2) [OF assms] by simp
  have copy: "dh_copy_options arr (Ptr (next_block h) 0) 0 (unat n) 0
      (push_block (?pre @ replicate (dh_size opts) Undef) h) =
    Inr ((), push_block (?pre @ concat (map dh_wire_option opts)) h)"
    using dh_copy_options_run [of h arr "[]" ps opts, OF _ holds pre bound] arr num by simp
  have "replicate (4 + dh_size opts) Undef = replicate 4 Undef @ replicate (dh_size opts) Undef"
    by (simp only: replicate_add)
  then show ?thesis
    using dh_createPacket_length [OF assms] True copy
    by (simp add: dh_createPacket_def cm_simps int_enc_def patch_def dh_wire_packet_def
        dh_pkt_TransactionId_bytes_def del: of_nat_add)
qed

section \<open>Solicit\<close>

lemma segment_concat_ptrs:
  "i < length ps \<Longrightarrow> segment (8 * i) 8 (concat (map ptr_enc ps)) = ptr_enc (ps ! i)"
proof (induction ps arbitrary: i)
  case Nil
  then show ?case by simp
next
  case (Cons p ps)
  then show ?case by (cases i) (simp_all add: segment_def)
qed

lemma length_concat_ptrs [simp]: "length (concat (map ptr_enc ps)) = 8 * length ps"
  by (induction ps) simp_all

lemma ptr_array_of_block:
  "ptr_array (push_block (concat (map ptr_enc ps)) h) (Ptr (next_block h) 0) ps"
  by (simp add: ptr_array_def segment_concat_ptrs)

lemma dh_store_varargs_run:
  assumes "length pre = 8 * (i + 3)"
  shows "dh_store_varargs (Ptr (next_block h) 0) i (length vs) (vs @ extra)
      (push_block (pre @ replicate (8 * length vs) Undef) h) =
    Inr ((), push_block (pre @ concat (map ptr_enc vs)) h)"
  using assms
proof (induction vs arbitrary: i pre)
  case Nil
  then show ?case by (simp add: cm_simps)
next
  case (Cons p vs)
  have "replicate (8 * length (p # vs)) Undef = replicate 8 Undef @ replicate (8 * length vs) Undef"
    by (simp only: length_Cons mult_Suc_right replicate_add)
  moreover have "patch (8 * (i + 3)) (ptr_enc p)
      (pre @ replicate 8 Undef @ replicate (8 * length vs) Undef) =
    pre @ ptr_enc p @ replicate (8 * length vs) Undef"
    by (rule patch_append) (use Cons.prems in simp_all)
  ultimately have st: "store_ptr (Ptr (next_block h) (8 * (i + 3))) p
      (push_block (pre @ replicate (8 * length (p # vs)) Undef) h) =
    Inr ((), push_block ((pre @ ptr_enc p) @ replicate (8 * length vs) Undef) h)"
    using Cons.prems by (simp add: cm_simps)
  have "length (pre @ ptr_enc p) = 8 * (Suc i + 3)" using Cons.prems by simp
  from Cons.IH [OF this] st show ?case by (simp add: thenc_apply)
qed

text \<open>
  The three mandatory options come first, then the caller's. The array of pointers stays
  allocated: nothing frees it.
\<close>

lemma dh_solicit_run:
  assumes holds: "list_all2 (dh_holds h) (client # elapsed # iapd # vArg) opts"
    and num: "unat optionsNum = length vArg" and bound: "length vArg + 3 < 4294967296"
    and mem: "8 * (length vArg + 3) + (4 + dh_size opts) \<le> avail h"
  shows "dh_CreateCustomizedSolicitPacket (Some (sec, nsec)) rng old client elapsed iapd
      optionsNum vArg h =
    Inr ((Ptr (Suc (next_block h)) 0, of_nat (4 + dh_size opts)),
      push_block (dh_wire_packet 1 (dh_transId_of_random (rng (ucast (nsec XOR sec)))) opts)
        (push_block (concat (map ptr_enc (client # elapsed # iapd # vArg))) h))"
proof -
  let ?n = "length vArg" and ?nb = "next_block h" and ?ps = "client # elapsed # iapd # vArg"
  let ?h = "push_block (concat (map ptr_enc ?ps)) h"
  have nn: "client \<noteq> Null" "elapsed \<noteq> Null" "iapd \<noteq> Null"
    using holds by (auto simp: list_all2_Cons1 dh_holds_def)
  have n3: "unat (optionsNum + 3) = length ?ps"
    using num bound by (simp add: unat_word_ariths)
  have "unat (ucast (optionsNum + 3) :: u64) = length ?ps"
    by (simp add: unat_ucast_up n3)
  then have size: "unat (8 * ucast (optionsNum + 3) :: u64) = 24 + 8 * ?n"
    using bound by (simp add: unat_word_ariths)
  have rep: "replicate (24 + 8 * ?n) Undef = replicate 24 Undef @ replicate (8 * ?n) Undef"
    by (simp only: replicate_add)
  have va: "dh_store_varargs (Ptr ?nb 0) 0 (unat optionsNum) vArg
      (push_block (replicate 24 Undef @ replicate (8 * ?n) Undef) h) =
    Inr ((), push_block (replicate 24 Undef @ concat (map ptr_enc vArg)) h)"
    using dh_store_varargs_run [of "replicate 24 Undef" 0 h vArg "[]"] num by simp
  have "dh_createPacket dh_SOLICIT t (Ptr ?nb 0) (optionsNum + 3) ?h =
      Inr ((Ptr (Suc ?nb) 0, of_nat (4 + dh_size opts)),
        push_block (dh_wire_packet 1 t opts) ?h)" for t
    using dh_createPacket_run [OF ptr_array_of_block dh_holds_list_push_block [OF holds] n3] mem
    by simp
  with size rep va nn mem show ?thesis
    by (simp add: dh_CreateCustomizedSolicitPacket_def cm_simps patch_def Let_def
        del: of_nat_add replicate_numeral_Cons)
qed

lemma dh_solicit_null_args:
  assumes "client = Null \<or> elapsed = Null \<or> iapd = Null"
  shows "\<exists>h'. dh_CreateCustomizedSolicitPacket clock rng old client elapsed iapd n vArg h =
      Inr ((old, -1), h')"
  using assms by (auto simp: dh_CreateCustomizedSolicitPacket_def cm_simps)

section \<open>The list of prefix delegations\<close>

text \<open>
  \<open>ia_nodes h p xs\<close>: the linked list at \<open>p\<close> consists of the blocks and options \<open>xs\<close>.
  \<open>ia_rep N h p vs\<close>: it holds the options \<open>vs\<close>, in distinct blocks numbered from \<open>N\<close> on.
\<close>

primrec ia_nodes :: "'z cheap_scheme \<Rightarrow> ptr \<Rightarrow> (nat \<times> ptr) list \<Rightarrow> bool" where
  "ia_nodes h p [] \<longleftrightarrow> p = Null"
| "ia_nodes h p (x # xs) \<longleftrightarrow> p = Ptr (fst x) 0 \<and>
     (\<exists>q. blocks h (fst x) = Some (ptr_enc (snd x) @ ptr_enc q) \<and> ia_nodes h q xs)"

definition ia_rep :: "nat \<Rightarrow> 'z cheap_scheme \<Rightarrow> ptr \<Rightarrow> ptr list \<Rightarrow> bool" where
  "ia_rep N h p vs \<longleftrightarrow> (\<exists>xs. ia_nodes h p xs \<and> distinct (map fst xs) \<and>
     (\<forall>n \<in> set (map fst xs). N \<le> n \<and> n < next_block h) \<and> map snd xs = vs)"

lemma ia_nodes_cong:
  "\<forall>n \<in> set (map fst xs). blocks h' n = blocks h n \<Longrightarrow> ia_nodes h' p xs = ia_nodes h p xs"
  by (induction xs arbitrary: p) auto

lemma ia_nodes_Null: "ia_nodes h Null xs \<longleftrightarrow> xs = []"
  by (cases xs) auto

lemma ia_rep_Null [simp]: "ia_rep N h Null []"
  by (simp add: ia_rep_def)

lemma ia_rep_frame:
  assumes "ia_rep N h p vs" and "\<forall>n \<ge> N. n < next_block h \<longrightarrow> blocks h' n = blocks h n"
    and "next_block h \<le> next_block h'"
  shows "ia_rep N h' p vs"
proof -
  obtain xs where xs: "ia_nodes h p xs" "distinct (map fst xs)"
    "\<forall>n \<in> set (map fst xs). N \<le> n \<and> n < next_block h" "map snd xs = vs"
    using assms(1) unfolding ia_rep_def by blast
  then have "\<forall>n \<in> set (map fst xs). blocks h' n = blocks h n" using assms(2) by blast
  then have "ia_nodes h' p xs" using xs(1) by (simp only: ia_nodes_cong)
  moreover have "\<forall>n \<in> set (map fst xs). N \<le> n \<and> n < next_block h'"
    using xs(3) assms(3) by fastforce
  ultimately show ?thesis using xs unfolding ia_rep_def by blast
qed

lemma dh_append_node_run:
  assumes "ia_nodes h p xs" and "xs \<noteq> []" and "length xs \<le> fuel"
  shows "dh_append_node fuel p newNode h = Inr ((),
    set_block (fst (last xs)) (ptr_enc (snd (last xs)) @ ptr_enc newNode) h)"
  using assms
proof (induction xs arbitrary: p fuel)
  case Nil
  then show ?case by simp
next
  case (Cons x xs)
  then obtain q fuel' where q: "p = Ptr (fst x) 0" "fuel = Suc fuel'"
    "blocks h (fst x) = Some (ptr_enc (snd x) @ ptr_enc q)" "ia_nodes h q xs"
    by (cases fuel) auto
  have ld: "load_ptr (Ptr (fst x) 8) h = Inr (q, h)"
    using q(3) by (simp add: cm_simps segment_def ptr_t.dec_enc)
  show ?case
  proof (cases "xs = []")
    case True
    then show ?thesis using q ld by (simp add: cm_simps patch_def)
  next
    case False
    then have "q \<noteq> Null" using q(4) by (cases xs) auto
    moreover have "length xs \<le> fuel'" using Cons.prems(3) q(2) by simp
    ultimately show ?thesis using Cons.IH [OF q(4) False] q ld False by (simp add: bindc_apply)
  qed
qed

lemma ia_nodes_snoc:
  assumes "ia_nodes h p xs" and "xs \<noteq> []" and "distinct (map fst xs)"
    and "m \<notin> set (map fst xs)" and "blocks h m = Some (ptr_enc v @ ptr_enc Null)"
  shows "ia_nodes (set_block (fst (last xs)) (ptr_enc (snd (last xs)) @ ptr_enc (Ptr m 0)) h) p
    (xs @ [(m, v)])"
  using assms
proof (induction xs arbitrary: p)
  case Nil
  then show ?case by simp
next
  case (Cons x xs)
  then obtain q where q: "p = Ptr (fst x) 0"
    "blocks h (fst x) = Some (ptr_enc (snd x) @ ptr_enc q)" "ia_nodes h q xs" by auto
  show ?case
  proof (cases "xs = []")
    case True
    then show ?thesis using q Cons.prems by auto
  next
    case False
    then have "fst (last xs) \<in> set (map fst xs)" by simp
    then have "fst x \<noteq> fst (last xs)" using Cons.prems(3) by force
    with False q Cons show ?thesis by auto
  qed
qed

text \<open>Appending to a list that is there, with the node already filled in.\<close>

lemma ia_rep_append:
  assumes rep: "ia_rep N h p vs" and p: "p \<noteq> Null" and N: "N \<le> next_block h"
    and wf: "heap_wf h"
  shows "\<exists>h'. dh_append_node (Suc (Suc (next_block h))) p (Ptr (next_block h) 0)
      (push_block (ptr_enc v @ ptr_enc Null) h) = Inr ((), h') \<and>
    ia_rep N h' p (vs @ [v]) \<and> heap_wf h' \<and> next_block h' = Suc (next_block h) \<and>
    avail h' = avail h - 16 \<and> placed h' = placed h \<and> (\<forall>n < N. blocks h' n = blocks h n)"
proof -
  let ?m = "next_block h" and ?h = "push_block (ptr_enc v @ ptr_enc Null) h"
  obtain xs where xs: "ia_nodes h p xs" "distinct (map fst xs)"
    "\<forall>n \<in> set (map fst xs). N \<le> n \<and> n < ?m" "map snd xs = vs"
    using rep unfolding ia_rep_def by blast
  have ne: "xs \<noteq> []" using xs(1) p by auto
  have "set (map fst xs) \<subseteq> {..<?m}" using xs(3) by auto
  then have "card (set (map fst xs)) \<le> ?m" by (metis card_lessThan card_mono finite_lessThan)
  then have len: "length xs \<le> Suc (Suc ?m)" using distinct_card [OF xs(2)] by simp
  have nodes: "ia_nodes ?h p xs"
    using xs(1,3) by (subst ia_nodes_cong) auto
  let ?l = "fst (last xs)"
  let ?h' = "set_block ?l (ptr_enc (snd (last xs)) @ ptr_enc (Ptr ?m 0)) ?h"
  have l: "?l \<in> set (map fst xs)" using ne by simp
  then have lm: "N \<le> ?l" "?l < ?m" using xs(3) by auto
  have run: "dh_append_node (Suc (Suc ?m)) p (Ptr ?m 0) ?h = Inr ((), ?h')"
    by (rule dh_append_node_run [OF nodes ne len])
  have m: "?m \<notin> set (map fst xs)" using xs(3) by force
  have "ia_nodes ?h' p (xs @ [(?m, v)])"
    by (rule ia_nodes_snoc [OF nodes ne xs(2) m]) simp
  moreover have "distinct (map fst (xs @ [(?m, v)]))" using xs(2) m by simp
  moreover have "\<forall>n \<in> set (map fst (xs @ [(?m, v)])). N \<le> n \<and> n < next_block ?h'"
    using xs(3) N by auto
  moreover have "map snd (xs @ [(?m, v)]) = vs @ [v]" using xs(4) by simp
  ultimately have rep': "ia_rep N ?h' p (vs @ [v])" unfolding ia_rep_def by blast
  have "heap_wf ?h'" using wf lm by simp
  with run rep' lm show ?thesis by auto
qed

text \<open>What one option does to the result: the switch never faults.\<close>

definition dh_switch_adds :: "u16 \<Rightarrow> 'z cheap_scheme \<Rightarrow> bool" where
  "dh_switch_adds c h \<longleftrightarrow> c = DHCPv6_OPTION_IA_PD \<and> 16 \<le> avail h"

lemma dh_parse_switch_run:
  assumes rep: "ia_rep N h (IA_PDList r) vs" and N: "N \<le> next_block h" and wf: "heap_wf h"
  shows "\<exists>r' h'. dh_parse_switch opt c r h = Inr (r', h') \<and>
    ia_rep N h' (IA_PDList r') (vs @ (if dh_switch_adds c h then [opt] else [])) \<and>
    ClientIdentifier r' = (if c = DHCPv6_OPTION_CLIENTID then opt else ClientIdentifier r) \<and>
    ServerIdentifier r' = (if c = DHCPv6_OPTION_SERVERID then opt else ServerIdentifier r) \<and>
    ElapsedTIme r' = ElapsedTIme r \<and>
    heap_wf h' \<and> next_block h \<le> next_block h' \<and> placed h' = placed h \<and>
    avail h' = avail h - (if dh_switch_adds c h then 16 else 0) \<and>
    (\<forall>n < N. blocks h' n = blocks h n)"
proof (cases "c = DHCPv6_OPTION_IA_PD")
  case False
  then show ?thesis using assms
    by (simp add: dh_parse_switch_def dh_switch_adds_def cm_simps dh_option_codes)
next
  case True
  let ?m = "next_block h" and ?h = "push_block (ptr_enc opt @ ptr_enc Null) h"
  have c: "c \<noteq> DHCPv6_OPTION_CLIENTID" "c \<noteq> DHCPv6_OPTION_SERVERID"
    using True by (simp_all add: dh_option_codes)
  show ?thesis
  proof (cases "16 \<le> avail h")
    case mem: False
    then show ?thesis using True c assms
      by (simp add: dh_parse_switch_def dh_switch_adds_def cm_simps sizeof_dh_optMultiPayload_def
          Let_def)
  next
    case mem: True
    have node: "dh_parse_switch opt c r h =
      (if IA_PDList r = Null then Inr (r\<lparr>success := False, IA_PDList := Ptr ?m 0\<rparr>, ?h)
       else thenc (dh_append_node (Suc (Suc ?m)) (IA_PDList r) (Ptr ?m 0))
         (ret (r\<lparr>success := False\<rparr>)) ?h)"
      using True c mem
      by (simp add: dh_parse_switch_def cm_simps sizeof_dh_optMultiPayload_def patch_def Let_def
          del: replicate_numeral_Cons)
    show ?thesis
    proof (cases "IA_PDList r = Null")
      case nil: True
      then have "vs = []" using rep by (auto simp: ia_rep_def ia_nodes_Null)
      moreover have "ia_rep N ?h (Ptr ?m 0) [opt]"
        unfolding ia_rep_def using N by (intro exI [of _ "[(?m, opt)]"]) auto
      ultimately show ?thesis using node nil mem True c wf N
        by (auto simp: dh_switch_adds_def)
    next
      case False
      from ia_rep_append [OF rep False N wf, of opt] obtain h' where
        "dh_append_node (Suc (Suc ?m)) (IA_PDList r) (Ptr ?m 0) ?h = Inr ((), h')"
        "ia_rep N h' (IA_PDList r) (vs @ [opt])" "heap_wf h'" "next_block h' = Suc ?m"
        "avail h' = avail h - 16" "placed h' = placed h" "\<forall>n < N. blocks h' n = blocks h n"
        by blast
      then show ?thesis using node False mem True c
        by (simp add: dh_switch_adds_def cm_simps)
    qed
  qed
qed

section \<open>The header conversion\<close>

lemma dh_swap_header_run:
  assumes blk: "blocks h b = Some vs" and k: "k + 4 \<le> length vs"
    and hdr: "segment k 4 vs = map Byte (be_bytes 2 c @ be_bytes 2 l)"
  shows "dh_swap_header (Ptr b k) h =
    Inr ((c, l), set_block b (patch k (map Byte (le_bytes 2 c) @ map Byte (le_bytes 2 l)) vs) h)"
proof -
  obtain as bs where vs: "vs = as @ map Byte (be_bytes 2 c @ be_bytes 2 l) @ bs" and la: "length as = k"
  proof
    have "vs = take k vs @ segment k 4 vs @ drop (k + 4) vs"
      by (simp add: segment_def) (metis append_take_drop_id drop_drop add.commute)
    then show "vs = take k vs @ map Byte (be_bytes 2 c @ be_bytes 2 l) @ drop (k + 4) vs"
      by (simp only: hdr)
    show "length (take k vs) = k" using k by simp
  qed
  have be: "be16toh (htobe16 w) = w" for w by simp
  show ?thesis unfolding dh_swap_header_def using blk la
    by (simp add: vs cm_simps segment_def patch_def int_enc_def be)
qed

lemma dh_swap_header_cases:
  assumes blk: "blocks h b = Some vs"
  obtains e where "dh_swap_header (Ptr b k) h = Inl e" "e \<in> {OutOfBounds, Uninit}"
  | c l where "k + 4 \<le> length vs" "dh_swap_header (Ptr b k) h =
      Inr ((c, l), set_block b (patch k (map Byte (le_bytes 2 c) @ map Byte (le_bytes 2 l)) vs) h)"
proof (cases "k + 4 \<le> length vs \<and> (\<exists>bs. segment k 4 vs = map Byte bs)")
  case True
  then obtain bs where bs: "segment k 4 vs = map Byte bs" "length bs = 4"
    by (metis length_map length_segment)
  then obtain b1 b2 b3 b4 where b: "bs = [b1, b2] @ [b3, b4]"
    by (auto simp: numeral_eq_Suc length_Suc_conv)
  have e: "be_bytes 2 (from_be bs :: u16) = bs" if "length bs = 2" for bs
    using that by (simp add: be_bytes_def from_be_def le_bytes_from_le)
  have "bs = be_bytes 2 (from_be [b1, b2] :: u16) @ be_bytes 2 (from_be [b3, b4] :: u16)"
    by (simp add: b e)
  then show thesis using dh_swap_header_run [OF blk] True bs(1) that(2) by metis
next
  case False
  have "\<exists>e \<in> {OutOfBounds, Uninit}. dh_swap_header (Ptr b k) h = Inl e"
  proof (cases "k + 2 \<le> length vs")
    case False
    then show ?thesis using blk by (simp add: dh_swap_header_def cm_simps)
  next
    case k2: True
    show ?thesis
    proof (cases "int_dec (segment k 2 vs) :: u16 option")
      case None
      then show ?thesis using blk k2 by (simp add: dh_swap_header_def cm_simps)
    next
      case (Some c)
      then obtain bs1 where bs1: "segment k 2 vs = map Byte bs1" by (auto simp: int_dec_def)
      have "int_dec (segment (k + 2) 2 vs) = (None :: u16 option)" if "k + 4 \<le> length vs"
      proof (rule ccontr)
        assume "int_dec (segment (k + 2) 2 vs) \<noteq> (None :: u16 option)"
        then obtain bs2 where "segment (k + 2) 2 vs = map Byte bs2" by (auto simp: int_dec_def)
        then have "segment k (2 + 2) vs = map Byte (bs1 @ bs2)"
          by (simp only: segment_append_segment bs1 map_append)
        then show False using that False by (auto simp flip: map_append)
      qed
      then show ?thesis using blk k2 Some
        by (auto simp: dh_swap_header_def cm_simps segment_patch_after add.commute)
    qed
  qed
  then show thesis using that(1) by blast
qed

section \<open>The loop ends\<close>

text \<open>
  What every iteration keeps: the packet's block keeps its length, and the list built so
  far lives in blocks allocated since the call.
\<close>

definition dh_loop_inv :: "nat \<Rightarrow> nat \<Rightarrow> nat \<Rightarrow> 'z cheap_scheme \<Rightarrow> dh_parsedOptions \<Rightarrow> bool" where
  "dh_loop_inv N b L h r \<longleftrightarrow> b < N \<and> N \<le> next_block h \<and> heap_wf h \<and>
     (\<exists>vs. blocks h b = Some vs \<and> length vs = L) \<and> (\<exists>ls. ia_rep N h (IA_PDList r) ls)"

lemma dh_loop_inv_set_block:
  assumes "dh_loop_inv N b L h r" and "length ws = L"
  shows "dh_loop_inv N b L (set_block b ws h) r"
proof -
  obtain ls where "ia_rep N h (IA_PDList r) ls" using assms(1) by (auto simp: dh_loop_inv_def)
  then have "ia_rep N (set_block b ws h) (IA_PDList r) ls"
    by (rule ia_rep_frame) (use assms(1) in \<open>auto simp: dh_loop_inv_def\<close>)
  then show ?thesis using assms by (auto simp: dh_loop_inv_def)
qed

lemma dh_loop_inv_switch:
  assumes "dh_loop_inv N b L h r"
  obtains r' h' where "dh_parse_switch opt c r h = Inr (r', h')" "dh_loop_inv N b L h' r'"
    "\<forall>n < N. blocks h' n = blocks h n"
proof -
  obtain ls where "ia_rep N h (IA_PDList r) ls" "N \<le> next_block h" "heap_wf h" "b < N"
    using assms by (auto simp: dh_loop_inv_def)
  from dh_parse_switch_run [OF this(1-3), of opt c] obtain r' h' ls' where
    sw: "dh_parse_switch opt c r h = Inr (r', h')" "ia_rep N h' (IA_PDList r') ls'" "heap_wf h'"
      "next_block h \<le> next_block h'" "\<forall>n < N. blocks h' n = blocks h n"
    by blast
  then have "dh_loop_inv N b L h' r'" using assms by (auto simp: dh_loop_inv_def)
  with sw(1,5) show thesis by (blast intro: that)
qed

lemma dh_parse_loop_fuel:
  assumes "dh_loop_inv N b L h r" and "L < fuel + k" and "0 < fuel"
  shows "dh_parse_loop fuel pkt sz (Ptr b k) unread r h \<noteq> Inl OutOfFuel"
  using assms
proof (induction fuel arbitrary: k unread r h)
  case 0
  then show ?case by simp
next
  case (Suc fuel)
  obtain vs where vs: "blocks h b = Some vs" "length vs = L"
    using Suc.prems(1) by (auto simp: dh_loop_inv_def)
  show ?case
  proof (cases rule: dh_swap_header_cases [OF vs(1), of k])
    case (1 e)
    then show ?thesis by (auto simp: cm_simps Let_def)
  next
    case (2 c l)
    let ?h = "set_block b (patch k (map Byte (le_bytes 2 c) @ map Byte (le_bytes 2 l)) vs) h"
    have "dh_loop_inv N b L ?h r"
      by (rule dh_loop_inv_set_block [OF Suc.prems(1)]) (use 2(1) vs(2) in simp)
    then obtain r' h' where sw: "dh_parse_switch (Ptr b k) c r ?h = Inr (r', h')"
      "dh_loop_inv N b L h' r'" by (rule dh_loop_inv_switch) blast
    let ?n = "unat (ucast l + dh_optPayload_offset :: u64)"
    have l: "unat l < 65536" using unsigned_less [of l, where ?'a = nat] by simp
    have "?n = unat l + 4"
      using l by (simp add: dh_sizeof_defs unat_word_ariths unat_ucast_up)
    then have "L < fuel + (k + ?n)" and "0 < fuel"
      using Suc.prems(2) 2(1) vs(2) by simp_all
    from Suc.IH [OF sw(2) this] show ?thesis
      by (simp add: cm_simps 2(2) sw(1) Let_def)
  qed
qed

text \<open>What the loop may change, on every packet: the packet and blocks allocated since the call.\<close>

lemma dh_parse_loop_frame:
  assumes "dh_loop_inv N b L h r" and "dh_parse_loop fuel pkt sz (Ptr b k) unread r h = Inr (r', h')"
  shows "dh_loop_inv N b L h' r' \<and> (\<forall>n < N. n \<noteq> b \<longrightarrow> blocks h' n = blocks h n)"
  using assms
proof (induction fuel arbitrary: k unread r h)
  case 0
  then show ?case by (simp add: cm_simps)
next
  case (Suc fuel)
  obtain vs where vs: "blocks h b = Some vs" "length vs = L"
    using Suc.prems(1) by (auto simp: dh_loop_inv_def)
  show ?case
  proof (cases rule: dh_swap_header_cases [OF vs(1), of k])
    case (1 e)
    then show ?thesis using Suc.prems(2) by (simp add: cm_simps Let_def)
  next
    case (2 c l)
    let ?h = "set_block b (patch k (map Byte (le_bytes 2 c) @ map Byte (le_bytes 2 l)) vs) h"
    have "dh_loop_inv N b L ?h r"
      by (rule dh_loop_inv_set_block [OF Suc.prems(1)]) (use 2(1) vs(2) in simp)
    then obtain r1 h1 where sw: "dh_parse_switch (Ptr b k) c r ?h = Inr (r1, h1)"
      "dh_loop_inv N b L h1 r1" "\<forall>n < N. blocks h1 n = blocks ?h n" by (rule dh_loop_inv_switch)
    from Suc.prems(2) 2(2) sw(1) show ?thesis
      using sw(2,3) Suc.IH [OF sw(2)] by (auto simp: cm_simps Let_def split: if_splits)
  qed
qed

lemma dh_parseOptions_frame:
  assumes wf: "heap_wf h" and run: "dh_parseOptions (Ptr b k) sz h = Inr (r, h')"
  shows "heap_wf h' \<and> next_block h \<le> next_block h' \<and>
    (\<forall>n < next_block h. n \<noteq> b \<longrightarrow> blocks h' n = blocks h n) \<and>
    map_option length (blocks h' b) = map_option length (blocks h b)"
proof (cases "blocks h b")
  case None
  then show ?thesis using assms
    by (auto simp: dh_parseOptions_def cm_simps Let_def split: if_splits)
next
  case (Some vs)
  let ?r = "\<lparr>success = False, ClientIdentifier = Null, ServerIdentifier = Null,
    IA_PDList = Null, ElapsedTIme = Null\<rparr>"
  have "dh_loop_inv (next_block h) b (length vs) h ?r"
    using wf Some by (auto simp: dh_loop_inv_def heap_wf_def intro!: exI [of _ "[]"])
  note frame = dh_parse_loop_frame [OF this]
  from run Some show ?thesis
    using wf by (auto simp: dh_parseOptions_def cm_simps Let_def dh_loop_inv_def split: option.splits
      if_splits sum.splits simp del: dh_parse_loop.simps dest!: frame)
qed

lemma dh_parseOptions_fuel:
  assumes "heap_wf h"
  shows "dh_parseOptions pkt sz h \<noteq> Inl OutOfFuel"
proof (cases "\<exists>b k vs. pkt = Ptr b k \<and> blocks h b = Some vs")
  case False
  then show ?thesis
    by (cases pkt)
      (auto simp: dh_parseOptions_def cm_simps wild_fault_def Let_def split: option.splits)
next
  case True
  then obtain b k vs where p: "pkt = Ptr b k" "blocks h b = Some vs" by blast
  let ?r = "\<lparr>success = False, ClientIdentifier = Null, ServerIdentifier = Null,
    IA_PDList = Null, ElapsedTIme = Null\<rparr>"
  have "dh_loop_inv (next_block h) b (length vs) h ?r"
    using assms p(2) by (auto simp: dh_loop_inv_def heap_wf_def intro!: exI [of _ "[]"])
  then have "dh_parse_loop (Suc (length vs)) pkt sz (Ptr b (k + 4)) unread ?r h \<noteq> Inl OutOfFuel" for unread
    by (rule dh_parse_loop_fuel) simp_all
  then show ?thesis
    using p by (auto simp: dh_parseOptions_def cm_simps dh_pkt_offset_def dh_parse_fuel_def
        sizeof_dh_pkt_TransactionId_def Let_def split: option.splits sum.splits simp del: dh_parse_loop.simps)
qed

section \<open>Parsing a well-formed reply\<close>

text \<open>Where the options with a given code begin, in order, when the first one is at \<open>k\<close>.\<close>

fun dh_occurrences :: "u16 \<Rightarrow> nat \<Rightarrow> nat \<Rightarrow> dh_option list \<Rightarrow> ptr list" where
  "dh_occurrences c b k [] = []"
| "dh_occurrences c b k ((c', vs) # opts) =
     (if c' = c then [Ptr b k] else []) @ dh_occurrences c b (k + (4 + length vs)) opts"

definition dh_sized :: "dh_option list \<Rightarrow> bool" where
  "dh_sized opts \<longleftrightarrow> (\<forall>(c, vs) \<in> set opts. length vs < 65536)"

lemma dh_sized_Cons [simp]: "dh_sized ((c, vs) # opts) \<longleftrightarrow> length vs < 65536 \<and> dh_sized opts"
  by (simp add: dh_sized_def)

lemma last_Cons_append: "last (a # xs @ ys) = last (last (a # xs) # ys)"
  by (simp add: last_append)

lemma address_in_bounds:
  fixes a :: u64
  assumes "unat a + m < 18446744073709551616" and "n \<le> m"
  shows "\<not> a + of_nat m < a + of_nat n"
  using assms by (simp add: word_less_nat_alt unat_word_ariths unat_of_nat)

text \<open>
  What the loop leaves after the options \<open>todo\<close>, the first of which starts behind \<open>pre\<close>:
  their headers in host order, the fields of the result at the last option of their code,
  the list of delegations extended by the options of its code.
\<close>

definition dh_parsed_as ::
  "nat \<Rightarrow> nat \<Rightarrow> mval list \<Rightarrow> dh_option list \<Rightarrow> mval list \<Rightarrow> dh_parsedOptions \<Rightarrow> ptr list \<Rightarrow>
    'z cheap_scheme \<Rightarrow> dh_parsedOptions \<Rightarrow> 'z cheap_scheme \<Rightarrow> bool" where
  "dh_parsed_as N b pre todo tail r ls h r' h' \<longleftrightarrow>
    blocks h' b = Some (pre @ concat (map dh_host_option todo) @ tail) \<and>
    ia_rep N h' (IA_PDList r') (ls @ dh_occurrences DHCPv6_OPTION_IA_PD b (length pre) todo) \<and>
    ClientIdentifier r' =
      last (ClientIdentifier r # dh_occurrences DHCPv6_OPTION_CLIENTID b (length pre) todo) \<and>
    ServerIdentifier r' =
      last (ServerIdentifier r # dh_occurrences DHCPv6_OPTION_SERVERID b (length pre) todo) \<and>
    ElapsedTIme r' = ElapsedTIme r \<and>
    (\<forall>n < N. n \<noteq> b \<longrightarrow> blocks h' n = blocks h n) \<and>
    heap_wf h' \<and> next_block h \<le> next_block h' \<and> placed h' = placed h \<and>
    avail h' = avail h - 16 * length (dh_occurrences DHCPv6_OPTION_IA_PD b (length pre) todo)"

lemma dh_parsed_as_Cons:
  assumes "dh_parsed_as N b pre [opt] rest r ls h r1 h1"
    and "dh_parsed_as N b (pre @ dh_host_option opt) todo tail r1
      (ls @ dh_occurrences DHCPv6_OPTION_IA_PD b (length pre) [opt]) h1 r' h'"
  shows "dh_parsed_as N b pre (opt # todo) tail r ls h r' h'"
  using assms by (cases opt) (auto simp: dh_parsed_as_def split: if_splits)

text \<open>The header and the switch of one iteration, at a complete option.\<close>

lemma dh_parse_iteration:
  assumes blk: "blocks h b = Some (pre @ dh_wire_option (c, vs) @ rest)" and len: "length vs < 65536"
    and rep: "ia_rep N h (IA_PDList r) ls" and b: "b < N" "N \<le> next_block h" and wf: "heap_wf h"
    and mem: "c = DHCPv6_OPTION_IA_PD \<Longrightarrow> 16 \<le> avail h"
  obtains h0 r1 h1 where
    "dh_swap_header (Ptr b (length pre)) h = Inr ((c, of_nat (length vs)), h0)"
    "dh_parse_switch (Ptr b (length pre)) c r h0 = Inr (r1, h1)"
    "dh_parsed_as N b pre [(c, vs)] rest r ls h r1 h1"
proof -
  let ?bs = "pre @ dh_wire_option (c, vs) @ rest"
  let ?bs' = "pre @ dh_host_option (c, vs) @ rest"
  let ?h = "set_block b ?bs' h"
  have "dh_swap_header (Ptr b (length pre)) h = Inr ((c, of_nat (length vs)), set_block b
      (patch (length pre) (map Byte (le_bytes 2 c) @ map Byte (le_bytes 2 (of_nat (length vs) :: u16))) ?bs) h)"
    by (rule dh_swap_header_run [OF blk]) (simp_all add: segment_def)
  moreover have "patch (length pre) (map Byte (le_bytes 2 c) @
      map Byte (le_bytes 2 (of_nat (length vs) :: u16))) ?bs = ?bs'"
    by (simp add: patch_def dh_object_def)
  ultimately have hd: "dh_swap_header (Ptr b (length pre)) h = Inr ((c, of_nat (length vs)), ?h)"
    by simp
  have "ia_rep N ?h (IA_PDList r) ls"
    by (rule ia_rep_frame [OF rep]) (use b in auto)
  from dh_parse_switch_run [OF this, of "Ptr b (length pre)" c] b wf
  obtain r1 h1 where sw: "dh_parse_switch (Ptr b (length pre)) c r ?h = Inr (r1, h1)"
    and facts: "ia_rep N h1 (IA_PDList r1) (ls @ (if dh_switch_adds c ?h then [Ptr b (length pre)] else []))"
      "ClientIdentifier r1 = (if c = DHCPv6_OPTION_CLIENTID then Ptr b (length pre) else ClientIdentifier r)"
      "ServerIdentifier r1 = (if c = DHCPv6_OPTION_SERVERID then Ptr b (length pre) else ServerIdentifier r)"
      "ElapsedTIme r1 = ElapsedTIme r" "heap_wf h1"
      "next_block h \<le> next_block h1" "placed h1 = placed h"
      "avail h1 = avail h - (if dh_switch_adds c ?h then 16 else 0)"
      "\<forall>n < N. blocks h1 n = blocks ?h n"
    by auto
  have "dh_switch_adds c ?h \<longleftrightarrow> c = DHCPv6_OPTION_IA_PD"
    using mem by (auto simp: dh_switch_adds_def)
  then have "dh_parsed_as N b pre [(c, vs)] rest r ls h r1 h1"
    using facts b by (auto simp: dh_parsed_as_def simp del: dh_host_option.simps)
  with hd sw show thesis by (rule that)
qed

lemma dh_size_word_nz:
  assumes "todo \<noteq> []" and "dh_size todo < 18446744073709551616"
  shows "(of_nat (dh_size todo) :: u64) \<noteq> 0"
proof -
  have "4 \<le> dh_size todo" using assms(1) by (cases todo) auto
  moreover have "unat (of_nat (dh_size todo) :: u64) = dh_size todo"
    using assms(2) by (simp add: unat_of_nat)
  ultimately show ?thesis by force
qed

lemma dh_parse_loop_wf:
  assumes "todo \<noteq> []" and "dh_sized todo" and "length todo \<le> fuel"
    and "blocks h b = Some (pre @ concat (map dh_wire_option todo) @ tail)"
    and "ia_rep N h (IA_PDList r) ls" and "b < N" and "N \<le> next_block h" and "heap_wf h"
    and "sz = of_nat (length pre + dh_size todo)"
    and "unat (placed h b) + (length pre + dh_size todo) < 18446744073709551616"
    and "16 * length (dh_occurrences DHCPv6_OPTION_IA_PD b (length pre) todo) \<le> avail h"
  shows "\<exists>r' h'. dh_parse_loop fuel (Ptr b 0) sz (Ptr b (length pre)) (of_nat (dh_size todo)) r h =
      Inr (r', h') \<and> dh_parsed_as N b pre todo tail r ls h r' h'"
  using assms
proof (induction todo arbitrary: fuel pre r h ls)
  case Nil
  then show ?case by simp
next
  case (Cons opt todo)
  obtain c vs where o: "opt = (c, vs)" by (cases opt)
  obtain fuel' where fuel: "fuel = Suc fuel'" using Cons.prems(3) by (cases fuel) auto
  have len: "length vs < 65536" using Cons.prems(2) o by simp
  note adv = dh_option_advance [OF len]
  obtain h0 r1 h1 where hd: "dh_swap_header (Ptr b (length pre)) h = Inr ((c, of_nat (length vs)), h0)"
    and sw: "dh_parse_switch (Ptr b (length pre)) c r h0 = Inr (r1, h1)"
    and one: "dh_parsed_as N b pre [opt] (concat (map dh_wire_option todo) @ tail) r ls h r1 h1"
    by (rule dh_parse_iteration [of h b pre c vs "concat (map dh_wire_option todo) @ tail" N r ls])
      (use Cons.prems len o in auto)
  show ?case
  proof (cases "todo = []")
    case True
    then show ?thesis using one fuel hd sw adv(1) adv(3) [of c todo] o
      by (auto simp: cm_simps Let_def simp del: of_nat_add)
  next
    case False
    have small: "dh_size todo < 18446744073709551616" using Cons.prems(10) o by simp
    note nz = dh_size_word_nz [OF False small]
    let ?pre = "pre @ dh_host_option opt" and ?ls = "ls @ dh_occurrences DHCPv6_OPTION_IA_PD b (length pre) [opt]"
    have pre: "length ?pre = length pre + (4 + length vs)" using o by simp
    have pl1: "placed h1 = placed h" using one by (simp add: dh_parsed_as_def)
    have inside: "\<not> uintptr h1 (Ptr b 0) + sz < uintptr h1 (Ptr b (length pre + (4 + length vs)))"
      using address_in_bounds [of "placed h b" "length pre + dh_size (opt # todo)" "length pre + (4 + length vs)"]
        Cons.prems(9,10) o pl1 by simp
    have "\<exists>r' h'. dh_parse_loop fuel' (Ptr b 0) sz (Ptr b (length ?pre)) (of_nat (dh_size todo)) r1 h1 =
        Inr (r', h') \<and> dh_parsed_as N b ?pre todo tail r1 ?ls h1 r' h'"
      by (rule Cons.IH) (use False Cons.prems fuel o pl1 pre one in
        \<open>auto simp: dh_parsed_as_def add.assoc split: if_splits\<close>)
    then obtain r' h' where IH: "dh_parse_loop fuel' (Ptr b 0) sz (Ptr b (length pre + (4 + length vs)))
        (of_nat (dh_size todo)) r1 h1 = Inr (r', h')"
      and rest: "dh_parsed_as N b ?pre todo tail r1 ?ls h1 r' h'" unfolding pre by blast
    have nz': "(of_nat (dh_size (opt # todo)) :: u64) \<noteq> of_nat (4 + length vs)"
      using adv(3) [of c todo] nz o by (metis diff_self)
    have "dh_parse_loop fuel (Ptr b 0) sz (Ptr b (length pre)) (of_nat (dh_size (opt # todo))) r h =
        Inr (r', h')"
      using fuel hd sw adv(1,2) adv(3) [of c todo] o nz nz' inside IH
      by (simp add: cm_simps Let_def del: of_nat_add uintptr.simps)
    then show ?thesis using dh_parsed_as_Cons [OF one rest] by blast
  qed
qed

lemma dh_parseOptions_wf:
  assumes ne: "opts \<noteq> []" and sized: "dh_sized opts"
    and ty: "ty = dh_msgType_value dh_ADVERTISE \<or> ty = dh_msgType_value dh_REPLY"
    and wf: "heap_wf h" and b: "b < next_block h"
    and blk: "blocks h b = Some (dh_wire_packet ty transId opts @ tail)"
    and addr: "unat (placed h b) + (4 + dh_size opts) < 18446744073709551616"
    and mem: "16 * length (dh_occurrences DHCPv6_OPTION_IA_PD b 4 opts) \<le> avail h"
  shows "\<exists>r h'. dh_parseOptions (Ptr b 0) (of_nat (4 + dh_size opts)) h = Inr (r, h') \<and>
    success r \<and>
    ClientIdentifier r = last (Null # dh_occurrences DHCPv6_OPTION_CLIENTID b 4 opts) \<and>
    ServerIdentifier r = last (Null # dh_occurrences DHCPv6_OPTION_SERVERID b 4 opts) \<and>
    ElapsedTIme r = Null \<and>
    ia_rep (next_block h) h' (IA_PDList r) (dh_occurrences DHCPv6_OPTION_IA_PD b 4 opts) \<and>
    blocks h' b = Some (map Byte (ty # dh_pkt_TransactionId_bytes transId) @
      concat (map dh_host_option opts) @ tail) \<and>
    (\<forall>n < next_block h. n \<noteq> b \<longrightarrow> blocks h' n = blocks h n) \<and>
    heap_wf h' \<and> next_block h \<le> next_block h' \<and> placed h' = placed h \<and>
    avail h' = avail h - 16 * length (dh_occurrences DHCPv6_OPTION_IA_PD b 4 opts)"
proof -
  let ?pre = "map Byte (ty # dh_pkt_TransactionId_bytes transId)"
  let ?r = "\<lparr>success = False, ClientIdentifier = Null, ServerIdentifier = Null,
    IA_PDList = Null, ElapsedTIme = Null\<rparr>"
  let ?bs = "?pre @ concat (map dh_wire_option opts) @ tail"
  have pre: "length ?pre = 4" by (simp add: dh_pkt_TransactionId_bytes_def)
  have blk': "blocks h b = Some ?bs" using blk by (simp add: dh_wire_packet_def)
  have nz: "(of_nat (dh_size opts) :: u64) \<noteq> 0"
    by (rule dh_size_word_nz [OF ne]) (use addr in simp)
  have "length opts \<le> dh_size opts" by (induction opts) auto
  then have fuel: "length opts \<le> dh_parse_fuel (Ptr b 0) h"
    using blk' by (simp add: dh_parse_fuel_def length_dh_wire_options)
  have ld: "load8 (Ptr b 0) h = Inr (ty, h)"
    using blk' by (simp add: cm_simps segment_def int_dec_def)
  have "\<exists>r' h'. dh_parse_loop (dh_parse_fuel (Ptr b 0) h) (Ptr b 0) (of_nat (4 + dh_size opts))
      (Ptr b (length ?pre)) (of_nat (dh_size opts)) ?r h = Inr (r', h') \<and>
    dh_parsed_as (next_block h) b ?pre opts tail ?r [] h r' h'"
    by (rule dh_parse_loop_wf) (use ne sized fuel blk' b wf addr mem pre in simp_all)
  then obtain r' h' where run: "dh_parse_loop (dh_parse_fuel (Ptr b 0) h) (Ptr b 0)
      (of_nat (4 + dh_size opts)) (Ptr b 4) (of_nat (dh_size opts)) ?r h = Inr (r', h')"
    and parsed: "dh_parsed_as (next_block h) b ?pre opts tail ?r [] h r' h'"
    unfolding pre by blast
  have "dh_parseOptions (Ptr b 0) (of_nat (4 + dh_size opts)) h = Inr (r'\<lparr>success := True\<rparr>, h')"
    using run(1) nz ty ld
    by (auto simp: dh_parseOptions_def cm_simps Let_def dh_pkt_offset_def sizeof_dh_pkt_TransactionId_def)
  with parsed show ?thesis unfolding dh_parsed_as_def pre by auto
qed

definition dh_nothing :: dh_parsedOptions where
  "dh_nothing = \<lparr>success = False, ClientIdentifier = Null, ServerIdentifier = Null,
     IA_PDList = Null, ElapsedTIme = Null\<rparr>"

text \<open>
  A packet that goes on for one to three octets behind its option: the loop takes them for the
  beginning of another header and converts four octets, the rest of them behind the packet.
\<close>

lemma trailing_unread:
  fixes l :: u16
  assumes "0 < k" and "k < 4"
  shows "(of_nat k :: u64) \<noteq> 0" and "(of_nat k :: u64) \<noteq> ucast l + 4"
    and "unat (ucast l + dh_optPayload_offset :: u64) = 4 + unat l"
proof -
  have l: "unat l < 65536" using unsigned_less [of l, where ?'a = nat] by simp
  have k: "unat (of_nat k :: u64) = k" using assms(2) by (simp add: unat_of_nat)
  show n: "unat (ucast l + dh_optPayload_offset :: u64) = 4 + unat l"
    using l by (simp add: dh_sizeof_defs unat_word_ariths unat_ucast_up)
  show "(of_nat k :: u64) \<noteq> 0" using k assms(1) by auto
  show "(of_nat k :: u64) \<noteq> ucast l + 4"
    using k n assms(2) by (auto simp: dh_sizeof_defs)
qed

lemma dh_parse_trailing_header:
  fixes c l :: u16
  assumes blk: "blocks h b = Some (pre @ map Byte (be_bytes 2 c @ be_bytes 2 l) @ tail)"
    and inv: "ia_rep N h (IA_PDList r) ls" "N \<le> next_block h" "heap_wf h" "b < N"
    and k: "0 < k" "k < 4" and sz: "sz = of_nat (length pre + k)"
    and addr: "unat (placed h b) + (length pre + (4 + unat l)) < 18446744073709551616"
  shows "\<exists>r' h'. dh_parse_loop (Suc fuel) (Ptr b 0) sz (Ptr b (length pre)) (of_nat k) r h = Inr (r', h') \<and>
    blocks h' b = Some (pre @ map Byte (le_bytes 2 c @ le_bytes 2 l) @ tail)"
proof -
  let ?h = "set_block b (pre @ map Byte (le_bytes 2 c @ le_bytes 2 l) @ tail) h"
  have sw: "dh_swap_header (Ptr b (length pre)) h = Inr ((c, l), ?h)"
    using dh_swap_header_run [OF blk, of "length pre" c l] by (simp add: segment_def patch_def)
  have "ia_rep N ?h (IA_PDList r) ls" by (rule ia_rep_frame [OF inv(1)]) (use inv in auto)
  from dh_parse_switch_run [OF this, of "Ptr b (length pre)" c] inv
  obtain r' h' where h': "dh_parse_switch (Ptr b (length pre)) c r ?h = Inr (r', h')" "placed h' = placed h"
    "blocks h' b = blocks ?h b" by auto
  have l: "unat l < 65536" using unsigned_less [of l, where ?'a = nat] by simp
  have "unat (placed h b + of_nat (length pre + k)) < unat (placed h b + of_nat (length pre + (4 + unat l)))"
    using addr k by (simp add: unat_word_ariths unat_of_nat del: of_nat_add)
  then have "uintptr h' (Ptr b 0) + sz < uintptr h' (Ptr b (length pre + (4 + unat l)))"
    unfolding sz using h'(2) by (simp add: word_less_nat_alt del: of_nat_add)
  then show ?thesis using sw h'(1,3) trailing_unread(1) [OF k] trailing_unread(2,3) [OF k, of l]
    by (simp add: cm_simps Let_def dh_sizeof_defs del: of_nat_add uintptr.simps)
qed

lemma dh_parse_trailing:
  fixes c' l :: u16
  assumes len: "length vs < 65536"
    and ty: "ty = dh_msgType_value dh_ADVERTISE \<or> ty = dh_msgType_value dh_REPLY"
    and wf: "heap_wf h" and b: "b < next_block h"
    and blk: "blocks h b = Some (dh_wire_packet ty transId [(c, vs)] @ map Byte (be_bytes 2 c' @ be_bytes 2 l) @ tail)"
    and k: "0 < k" "k < 4"
    and addr: "unat (placed h b) + (12 + length vs + unat l) < 18446744073709551616"
    and mem: "c = DHCPv6_OPTION_IA_PD \<Longrightarrow> 16 \<le> avail h"
  shows "\<exists>r h'. dh_parseOptions (Ptr b 0) (of_nat (8 + length vs + k)) h = Inr (r, h') \<and>
    blocks h' b = Some (map Byte (ty # dh_pkt_TransactionId_bytes transId) @ dh_host_option (c, vs) @
      map Byte (le_bytes 2 c' @ le_bytes 2 l) @ tail)"
proof -
  let ?pre = "map Byte (ty # dh_pkt_TransactionId_bytes transId)"
  let ?rest = "map Byte (be_bytes 2 c' @ be_bytes 2 l) @ tail"
  let ?sz = "of_nat (8 + length vs + k) :: u64"
  have pre: "length ?pre = 4" by (simp add: dh_pkt_TransactionId_bytes_def)
  have blk': "blocks h b = Some (?pre @ dh_wire_option (c, vs) @ ?rest)"
    using blk by (simp add: dh_wire_packet_def)
  have rep: "ia_rep (next_block h) h (IA_PDList dh_nothing) []"
    by (auto simp: dh_nothing_def intro!: exI [of _ "[]"])
  obtain h0 r1 h1 where hd: "dh_swap_header (Ptr b 4) h = Inr ((c, of_nat (length vs)), h0)"
    and sw: "dh_parse_switch (Ptr b 4) c dh_nothing h0 = Inr (r1, h1)"
    and one: "dh_parsed_as (next_block h) b ?pre [(c, vs)] ?rest dh_nothing [] h r1 h1"
    using dh_parse_iteration [OF blk' len rep b _ wf mem] unfolding pre by blast
  let ?pre1 = "?pre @ dh_host_option (c, vs)"
  have pre1: "length ?pre1 = 8 + length vs" using pre by simp
  have h1: "blocks h1 b = Some (?pre1 @ ?rest)" "placed h1 = placed h" "heap_wf h1" "next_block h \<le> next_block h1"
    using one by (simp_all add: dh_parsed_as_def)
  obtain ls where ls: "ia_rep (next_block h) h1 (IA_PDList r1) ls" using one by (auto simp: dh_parsed_as_def)
  obtain fuel where fuel: "dh_parse_fuel (Ptr b 0) h = Suc (Suc fuel)"
    using blk' by (simp add: dh_parse_fuel_def)
  obtain r' h' where two: "dh_parse_loop (Suc fuel) (Ptr b 0) ?sz (Ptr b (8 + length vs)) (of_nat k) r1 h1 = Inr (r', h')"
    "blocks h' b = Some (?pre1 @ map Byte (le_bytes 2 c' @ le_bytes 2 l) @ tail)"
    using dh_parse_trailing_header [OF h1(1) ls h1(4,3) b k, of ?sz fuel] addr h1(2) unfolding pre1
    by (auto simp: add.assoc)
  have inside: "\<not> uintptr h1 (Ptr b 0) + ?sz < uintptr h1 (Ptr b (8 + length vs))"
    using address_in_bounds [of "placed h b" "8 + length vs + k" "8 + length vs"] addr k h1(2) by simp
  note adv = dh_option_advance [OF len]
  have unread: "?sz - 4 - (of_nat (4 + length vs)) = of_nat k" by simp
  then have "?sz - 4 \<noteq> of_nat (4 + length vs)" using trailing_unread(1) [OF k] by force
  then have "dh_parse_loop (dh_parse_fuel (Ptr b 0) h) (Ptr b 0) ?sz (Ptr b 4) (?sz - 4) dh_nothing h = Inr (r', h')"
    unfolding fuel dh_parse_loop.simps(2) [of "Suc fuel"]
    using hd sw two(1) inside adv(1,2) trailing_unread(1) [OF k] unread
    by (simp add: cm_simps Let_def del: dh_parse_loop.simps of_nat_add uintptr.simps)
  moreover have "load8 (Ptr b 0) h = Inr (ty, h)" using blk' by (simp add: cm_simps segment_def int_dec_def)
  moreover have "?sz - 4 \<noteq> 0"
  proof -
    have "?sz - 4 = of_nat (4 + length vs + k)" by simp
    moreover have "unat (of_nat (4 + length vs + k) :: u64) = 4 + length vs + k"
      using addr k by (simp add: unat_of_nat del: of_nat_add)
    ultimately show ?thesis by (metis add_is_0 unat_0 zero_neq_numeral)
  qed
  ultimately have "dh_parseOptions (Ptr b 0) ?sz h = Inr (r'\<lparr>success := True\<rparr>, h')"
    using ty by (auto simp: dh_parseOptions_def cm_simps Let_def dh_pkt_offset_def dh_nothing_def
        sizeof_dh_pkt_TransactionId_def simp del: of_nat_add)
  then show ?thesis using two(2) by auto
qed

section \<open>The parser touches the heap only\<close>

lemma heap_only_append_node [heap_only_intros]: "heap_only (dh_append_node fuel p q)"
  by (induction fuel arbitrary: p) (auto intro!: heap_only_intros)

lemma heap_only_parse_loop [heap_only_intros]: "heap_only (dh_parse_loop fuel pkt sz p n r)"
proof (induction fuel arbitrary: p n r)
  case 0
  then show ?case by (simp add: heap_only_intros)
next
  case (Suc fuel)
  show ?case
    unfolding dh_parse_loop.simps dh_swap_header_def dh_parse_switch_def Let_def
    by (intro heap_only_intros Suc.IH)
qed

lemma heap_only_parseOptions: "heap_only (dh_parseOptions pkt sz)"
  unfolding dh_parseOptions_def Let_def by (intro heap_only_intros)

section \<open>What the pointers of the result refer to\<close>

definition dh_find :: "u16 \<Rightarrow> dh_option list \<Rightarrow> mval list list" where
  "dh_find c opts = map snd (filter (\<lambda>opt. fst opt = c) opts)"

text \<open>\<open>p\<close> is an option with this code and data, in host order, inside a packet.\<close>

definition dh_at :: "'z cheap_scheme \<Rightarrow> u16 \<Rightarrow> ptr \<Rightarrow> mval list \<Rightarrow> bool" where
  "dh_at h c p vs \<longleftrightarrow> load_raw p (4 + length vs) h = Inr (dh_host_option (c, vs), h)"

lemma dh_occurrences_at:
  assumes "blocks h b = Some (pre @ concat (map dh_host_option opts) @ tail)"
  shows "list_all2 (dh_at h c) (dh_occurrences c b (length pre) opts) (dh_find c opts)"
  using assms
proof (induction opts arbitrary: pre)
  case Nil
  then show ?case by (simp add: dh_find_def)
next
  case (Cons opt opts)
  obtain c' vs where o: "opt = (c', vs)" by (cases opt)
  have "list_all2 (dh_at h c)
      (dh_occurrences c b (length (pre @ dh_host_option (c', vs))) opts) (dh_find c opts)"
    by (rule Cons.IH) (use Cons.prems o in simp)
  moreover have "dh_at h c' (Ptr b (length pre)) vs"
    using Cons.prems o by (simp add: dh_at_def cm_simps segment_append)
  ultimately show ?case using o by (auto simp: dh_find_def)
qed

lemma dh_occurrences_parsed:
  assumes "blocks h b = Some (map Byte (ty # dh_pkt_TransactionId_bytes transId) @
      concat (map dh_host_option opts) @ tail)"
  shows "list_all2 (dh_at h c) (dh_occurrences c b 4 opts) (dh_find c opts)"
proof -
  have "length (map Byte (ty # dh_pkt_TransactionId_bytes transId)) = 4"
    by (simp add: dh_pkt_TransactionId_bytes_def)
  with dh_occurrences_at [OF assms] show ?thesis by metis
qed

lemma length_dh_occurrences: "length (dh_occurrences c b k opts) = length (dh_find c opts)"
  by (induction c b k opts rule: dh_occurrences.induct) (auto simp: dh_find_def)

text \<open>
  What a client is promised: the last option of a kind that occurs, NULL for a kind that
  does not, and every prefix delegation in the order of the packet.
\<close>

definition dh_points :: "'z cheap_scheme \<Rightarrow> u16 \<Rightarrow> ptr \<Rightarrow> mval list list \<Rightarrow> bool" where
  "dh_points h c p vss \<longleftrightarrow> (if vss = [] then p = Null else dh_at h c p (last vss))"

definition dh_represents ::
  "nat \<Rightarrow> 'z cheap_scheme \<Rightarrow> dh_parsedOptions \<Rightarrow> dh_option list \<Rightarrow> bool" where
  "dh_represents N h r opts \<longleftrightarrow> success r \<and> ElapsedTIme r = Null \<and>
     dh_points h DHCPv6_OPTION_CLIENTID (ClientIdentifier r) (dh_find DHCPv6_OPTION_CLIENTID opts) \<and>
     dh_points h DHCPv6_OPTION_SERVERID (ServerIdentifier r) (dh_find DHCPv6_OPTION_SERVERID opts) \<and>
     (\<exists>ps. ia_rep N h (IA_PDList r) ps \<and>
        list_all2 (dh_at h DHCPv6_OPTION_IA_PD) ps (dh_find DHCPv6_OPTION_IA_PD opts))"

lemma dh_points_last:
  assumes "list_all2 (dh_at h c) ps vss"
  shows "dh_points h c (last (Null # ps)) vss"
proof (cases "vss = []")
  case True
  then show ?thesis using assms by (simp add: dh_points_def)
next
  case False
  then have ne: "ps \<noteq> []" and len: "length ps = length vss"
    using assms by (auto simp: list_all2_lengthD)
  then have "dh_at h c (ps ! (length ps - 1)) (vss ! (length ps - 1))"
    using False by (intro list_all2_nthD [OF assms]) simp
  then show ?thesis using False ne len by (simp add: dh_points_def last_conv_nth)
qed

lemma dh_parseOptions_represents:
  assumes "opts \<noteq> []" and "dh_sized opts"
    and "ty = dh_msgType_value dh_ADVERTISE \<or> ty = dh_msgType_value dh_REPLY"
    and "heap_wf h" and "b < next_block h"
    and "blocks h b = Some (dh_wire_packet ty transId opts @ tail)"
    and "unat (placed h b) + (4 + dh_size opts) < 18446744073709551616"
    and "16 * length (dh_find DHCPv6_OPTION_IA_PD opts) \<le> avail h"
  shows "\<exists>r h'. dh_parseOptions (Ptr b 0) (of_nat (4 + dh_size opts)) h = Inr (r, h') \<and>
    dh_represents (next_block h) h' r opts \<and>
    blocks h' b = Some (map Byte (ty # dh_pkt_TransactionId_bytes transId) @
      concat (map dh_host_option opts) @ tail) \<and>
    (\<forall>n < next_block h. n \<noteq> b \<longrightarrow> blocks h' n = blocks h n)"
proof -
  obtain r h' where run: "dh_parseOptions (Ptr b 0) (of_nat (4 + dh_size opts)) h = Inr (r, h')"
    "success r" "ClientIdentifier r = last (Null # dh_occurrences DHCPv6_OPTION_CLIENTID b 4 opts)"
    "ServerIdentifier r = last (Null # dh_occurrences DHCPv6_OPTION_SERVERID b 4 opts)"
    "ElapsedTIme r = Null"
    "ia_rep (next_block h) h' (IA_PDList r) (dh_occurrences DHCPv6_OPTION_IA_PD b 4 opts)"
    and blk: "blocks h' b = Some (map Byte (ty # dh_pkt_TransactionId_bytes transId) @
      concat (map dh_host_option opts) @ tail)"
    and fr: "\<forall>n < next_block h. n \<noteq> b \<longrightarrow> blocks h' n = blocks h n"
    using dh_parseOptions_wf [OF assms(1-7)] assms(8) by (auto simp: length_dh_occurrences)
  have "list_all2 (dh_at h' c) (dh_occurrences c b 4 opts) (dh_find c opts)" for c
    by (rule dh_occurrences_parsed [OF blk])
  with run have "dh_represents (next_block h) h' r opts"
    unfolding dh_represents_def by (metis dh_points_last)
  with run blk fr show ?thesis by blast
qed

section \<open>Properties\<close>

text \<open>C11: A well-formed Advertise or Reply, its sizes within a datagram's and its memory
  sufficient, is parsed without a fault; the result represents exactly its options.\<close>

theorem parse_reply:
  assumes "opts \<noteq> []" and "dh_sized opts"
    and "ty = dh_msgType_value dh_ADVERTISE \<or> ty = dh_msgType_value dh_REPLY"
    and "heap_wf h" and "b < next_block h"
    and "blocks h b = Some (dh_wire_packet ty transId opts @ tail)"
    and "unat (placed h b) + (4 + dh_size opts) < 18446744073709551616"
    and "16 * length (dh_find DHCPv6_OPTION_IA_PD opts) \<le> avail h"
  shows "\<exists>r h'. dh_parseOptions (Ptr b 0) (of_nat (4 + dh_size opts)) h = Inr (r, h') \<and>
    dh_represents (next_block h) h' r opts"
  using dh_parseOptions_represents [OF assms] by blast

definition sample_opts :: "dh_option list" where
  "sample_opts = [(DHCPv6_OPTION_SERVERID, [Byte 9]), (DHCPv6_OPTION_IA_PD, map Byte [1, 2]),
     (DHCPv6_OPTION_IA_PD, [Byte 3])]"

definition sample_transId :: dh_pkt_TransactionId where
  "sample_transId = \<lparr>TransactionId_0 = 5, TransactionId_1 = 6, TransactionId_2 = 7\<rparr>"

lemma sample_opts_facts:
  "sample_opts \<noteq> []" "dh_sized sample_opts" "dh_size sample_opts = 16"
  "length (dh_find DHCPv6_OPTION_IA_PD sample_opts) = 2"
  by (simp_all add: sample_opts_def dh_sized_def dh_find_def dh_option_codes)

theorem parse_reply_witness:
  "\<exists>r h'. dh_parseOptions (Ptr 0 0) (of_nat (4 + dh_size sample_opts))
      (sample_heap [dh_wire_packet 7 sample_transId sample_opts] 40) = Inr (r, h') \<and>
    dh_represents 1 h' r sample_opts"
  using parse_reply [of sample_opts 7 "sample_heap [dh_wire_packet 7 sample_transId sample_opts] 40"
      0 sample_transId "[]"]
  by (simp add: sample_opts_facts)

text \<open>An Advertise or Reply with these options in a block, which may go on behind it.\<close>

definition reply_in ::
  "'z cheap_scheme \<Rightarrow> nat \<Rightarrow> u8 \<Rightarrow> dh_pkt_TransactionId \<Rightarrow> dh_option list \<Rightarrow> mval list \<Rightarrow> bool" where
  "reply_in h b ty transId opts tail \<longleftrightarrow> blocks h b = Some (dh_wire_packet ty transId opts @ tail) \<and>
     (ty = dh_msgType_value dh_ADVERTISE \<or> ty = dh_msgType_value dh_REPLY) \<and> opts \<noteq> [] \<and> dh_sized opts \<and>
     unat (placed h b) + (4 + dh_size opts + 65540) < 18446744073709551616 \<and>
     16 * length (dh_find DHCPv6_OPTION_IA_PD opts) \<le> avail h"


lemma sample_reply_returns:
  "\<exists>r h'. dh_parseOptions (Ptr 0 0) (of_nat (4 + dh_size sample_opts))
      (sample_heap [dh_wire_packet 7 sample_transId sample_opts, [Undef]] 40) = Inr (r, h')"
  using dh_parseOptions_represents [of sample_opts 7
      "sample_heap [dh_wire_packet 7 sample_transId sample_opts, [Undef]] 40" 0 sample_transId "[]"]
  by (auto simp: sample_opts_facts)

definition sample_trailing :: cheap where
  "sample_trailing = sample_heap [dh_wire_packet 7 sample_transId [(2, [Byte 9])] @
     map Byte (be_bytes 2 (5 :: u16) @ be_bytes 2 (6 :: u16))] 0"

lemma sample_trailing_returns:
  "\<exists>r h'. dh_parseOptions (Ptr 0 0) 10 sample_trailing = Inr (r, h')"
  using dh_parse_trailing [where vs = "[Byte 9]" and ty = 7 and h = sample_trailing and b = 0
      and transId = sample_transId and c = 2 and c' = 5 and l = 6 and tail = "[]" and k = 1]
  by (auto simp: sample_trailing_def dh_option_codes)


text \<open>C13: Round trip. A packet the builder assembles from options on the heap, given to the
  parser with the length the builder returned, yields those options again.\<close>

theorem create_parse_roundtrip:
  assumes wf: "heap_wf h" and arr: "ptr_array h arr ps" and holds: "list_all2 (dh_holds h) ps opts"
    and num: "unat n = length ps" and ne: "opts \<noteq> []" and ty: "ty = dh_ADVERTISE \<or> ty = dh_REPLY"
    and mem: "4 + dh_size opts + 16 * length (dh_find DHCPv6_OPTION_IA_PD opts) \<le> avail h"
    and addr: "unat (placed h (next_block h)) + (4 + dh_size opts) < 18446744073709551616"
  shows "\<exists>r h'. bindc (dh_createPacket ty transId arr n)
      (\<lambda>(pkt, len). dh_parseOptions pkt len) h = Inr (r, h') \<and>
    dh_represents (Suc (next_block h)) h' r opts"
proof -
  let ?h = "push_block (dh_wire_packet (dh_msgType_value ty) transId opts) h"
  have sized: "dh_sized opts"
    using holds by (auto simp: dh_sized_def dh_holds_def list_all2_conv_all_nth in_set_conv_nth
        split: prod.splits) (metis snd_conv)
  have size: "length (dh_wire_packet (dh_msgType_value ty) transId opts) = 4 + dh_size opts"
    by (simp add: dh_wire_packet_def length_dh_wire_options dh_pkt_TransactionId_bytes_def)
  have "\<exists>r h'. dh_parseOptions (Ptr (next_block h) 0) (of_nat (4 + dh_size opts)) ?h = Inr (r, h') \<and>
    dh_represents (next_block ?h) h' r opts"
  proof -
    have "dh_msgType_value ty = dh_msgType_value dh_ADVERTISE \<or>
        dh_msgType_value ty = dh_msgType_value dh_REPLY"
      using ty by auto
    moreover have "blocks ?h (next_block h) =
        Some (dh_wire_packet (dh_msgType_value ty) transId opts @ [])" by simp
    moreover have "16 * length (dh_find DHCPv6_OPTION_IA_PD opts) \<le> avail ?h"
      using mem size by simp
    ultimately show ?thesis
      using dh_parseOptions_represents [OF ne sized, where h = ?h and b = "next_block h"] wf addr
      by (metis heap_wf_push_block lessI next_block_push_block placed_push_block)
  qed
  moreover have "dh_createPacket ty transId arr n h =
      Inr ((Ptr (next_block h) 0, of_nat (4 + dh_size opts)), ?h)"
    using dh_createPacket_run [OF arr holds num] mem by simp
  ultimately show ?thesis by (simp add: bindc_apply del: of_nat_add)
qed

definition sample_build_heap :: cheap where
  "sample_build_heap = sample_heap [dh_object DHCPv6_OPTION_SERVERID [Byte 9],
     dh_object DHCPv6_OPTION_IA_PD [Byte 1], concat (map ptr_enc [Ptr 0 0, Ptr 1 0])] 100"

definition sample_build_opts :: "dh_option list" where
  "sample_build_opts = [(DHCPv6_OPTION_SERVERID, [Byte 9]), (DHCPv6_OPTION_IA_PD, [Byte 1])]"

lemma sample_build_facts:
  "heap_wf sample_build_heap" "ptr_array sample_build_heap (Ptr 2 0) [Ptr 0 0, Ptr 1 0]"
  "list_all2 (dh_holds sample_build_heap) [Ptr 0 0, Ptr 1 0] sample_build_opts"
  "sample_build_opts \<noteq> []" "dh_size sample_build_opts = 10"
  "length (dh_find DHCPv6_OPTION_IA_PD sample_build_opts) = 1"
  "avail sample_build_heap = 100" "next_block sample_build_heap = 3"
  "placed sample_build_heap b = 4096"
  by (auto simp: sample_build_heap_def sample_build_opts_def ptr_array_def dh_holds_def dh_find_def
      dh_option_codes less_Suc_eq segment_def ptr_enc_def upt_rec)

theorem create_parse_roundtrip_witness:
  "\<exists>r h'. bindc (dh_createPacket dh_REPLY sample_transId (Ptr 2 0) 2)
      (\<lambda>(pkt, len). dh_parseOptions pkt len) sample_build_heap = Inr (r, h') \<and>
    dh_represents 4 h' r sample_build_opts"
  using create_parse_roundtrip [OF sample_build_facts(1-3), of 2 dh_REPLY sample_transId]
  by (simp add: sample_build_facts)

text \<open>Building a packet. With memory for it the builder returns a fresh block that is the
  message on the wire, every option in order with code and length in network order, and its
  exact length; without, it writes through the NULL that \<open>malloc\<close> returned.\<close>

theorem create_packet:
  assumes "ptr_array h arr ps" and "list_all2 (dh_holds h) ps opts" and "unat n = length ps"
  shows "dh_createPacket ty transId arr n h = (if 4 + dh_size opts \<le> avail h
    then Inr ((Ptr (next_block h) 0, of_nat (4 + dh_size opts)),
      push_block (dh_wire_packet (dh_msgType_value ty) transId opts) h)
    else Inl NullDeref)"
  by (rule dh_createPacket_run [OF assms])

theorem create_packet_witness:
  "dh_createPacket dh_SOLICIT sample_transId (Ptr 2 0) 2 sample_build_heap =
    Inr ((Ptr 3 0, 14), push_block (dh_wire_packet 1 sample_transId sample_build_opts) sample_build_heap)"
  using create_packet [OF sample_build_facts(2,3), of 2 dh_SOLICIT sample_transId]
  by (simp add: sample_build_facts)

text \<open>C14: The parser terminates on every packet, well formed or not, and on every size: the
  loop bound of the model, the length of the packet's block, is never reached.\<close>

theorem parse_terminates:
  assumes "heap_wf h"
  shows "dh_parseOptions pkt sz h \<noteq> Inl OutOfFuel"
  by (rule dh_parseOptions_fuel [OF assms])

theorem parse_terminates_witness:
  "dh_parseOptions (Ptr 0 0) (-1) (sample_heap [map Byte [7, 0, 0, 0, 0, 25, 0, 0]] 40) \<noteq> Inl OutOfFuel"
  by (rule parse_terminates) simp

text \<open>What a result without success looks like.\<close>

text \<open>A packet whose type is neither Advertise nor Reply is refused: the result reports
  failure and points to nothing, and memory is unchanged.\<close>

theorem parse_rejects_type:
  fixes ty :: u8
  assumes "blocks h b = Some (Byte ty # vs)" and "sz \<noteq> 4"
    and "ty \<noteq> dh_msgType_value dh_ADVERTISE" and "ty \<noteq> dh_msgType_value dh_REPLY"
  shows "dh_parseOptions (Ptr b 0) sz h = Inr (dh_nothing, h)"
proof -
  have "int_dec [Byte ty] = Some ty" by (simp add: int_dec_def)
  moreover have "sz - 4 \<noteq> 0" using assms(2) by auto
  ultimately show ?thesis using assms
    by (simp add: dh_parseOptions_def cm_simps segment_def dh_nothing_def dh_pkt_offset_def
        sizeof_dh_pkt_TransactionId_def Let_def)
qed

theorem parse_rejects_type_witness:
  "dh_parseOptions (Ptr 0 0) 9 (sample_heap [map Byte [3, 0, 0, 0, 0, 14, 0, 0, 0]] 40) =
    Inr (dh_nothing, sample_heap [map Byte [3, 0, 0, 0, 0, 14, 0, 0, 0]] 40)"
  by (rule parse_rejects_type [of _ _ "3::u8"]) simp_all

text \<open>A packet of four bytes, a header without options, is refused before anything is read.\<close>

theorem parse_rejects_empty:
  "dh_parseOptions (Ptr b k) 4 h = Inr (dh_nothing, h)"
  by (simp add: dh_parseOptions_def cm_simps dh_nothing_def dh_pkt_offset_def
      sizeof_dh_pkt_TransactionId_def Let_def)

text \<open>The first option alone, when the loop leaves after it.\<close>

lemma dh_parse_first:
  fixes l :: u16
  assumes blk: "blocks h b = Some (map Byte ([ty, x, y, z] @ be_bytes 2 c @ be_bytes 2 l) @ tail)"
    and ty: "ty = dh_msgType_value dh_ADVERTISE \<or> ty = dh_msgType_value dh_REPLY"
    and c: "c = DHCPv6_OPTION_CLIENTID" and sz: "sz \<noteq> 4"
    and out: "uintptr h (Ptr b 0) + sz < uintptr h (Ptr b (8 + unat l))"
  shows "dh_parseOptions (Ptr b 0) sz h = Inr (dh_nothing\<lparr>success := True, ClientIdentifier := Ptr b 4\<rparr>,
    set_block b (map Byte ([ty, x, y, z] @ le_bytes 2 c @ le_bytes 2 l) @ tail) h)"
proof -
  let ?h = "set_block b (map Byte ([ty, x, y, z] @ le_bytes 2 c @ le_bytes 2 l) @ tail) h"
  let ?vs = "map Byte ([ty, x, y, z] @ be_bytes 2 c @ be_bytes 2 l) @ tail"
  have sw: "dh_swap_header (Ptr b 4) h = Inr ((c, l), ?h)"
    using dh_swap_header_run [OF blk, of 4 c l] by (simp add: segment_def patch_def)
  have ld: "load8 (Ptr b 0) h = Inr (ty, h)"
    using blk by (simp add: cm_simps segment_def int_dec_def)
  have nz: "sz - 4 \<noteq> 0" using sz by auto
  have l: "unat (ucast l + dh_optPayload_offset :: u64) = 4 + unat l"
    using unsigned_less [of l, where ?'a = nat]
    by (simp add: dh_sizeof_defs unat_word_ariths unat_ucast_up)
  have fuel: "dh_parse_fuel (Ptr b 0) h = Suc (length ?vs)" using blk by (simp add: dh_parse_fuel_def)
  have loop: "dh_parse_loop (dh_parse_fuel (Ptr b 0) h) (Ptr b 0) sz (Ptr b 4) (sz - 4) dh_nothing h =
      Inr (dh_nothing\<lparr>ClientIdentifier := Ptr b 4\<rparr>, ?h)"
    using out sw unfolding fuel dh_parse_loop.simps Let_def
    by (simp add: cm_simps dh_parse_switch_def c l)
  show ?thesis
    using loop ld ty nz
    by (auto simp: dh_parseOptions_def cm_simps dh_nothing_def dh_pkt_offset_def
        sizeof_dh_pkt_TransactionId_def Let_def)
qed

text \<open>C19: The parser does not check that an option fits. A reply whose only option announces
  more data than the packet has is reported as a success, with a pointer to an option
  whose data cannot be read.\<close>

theorem parse_accepts_truncated:
  fixes l :: u16
  assumes "blocks h b = Some (map Byte ([7, x, y, z] @ be_bytes 2 DHCPv6_OPTION_CLIENTID @ be_bytes 2 l))"
    and "0 < l" and "unat (placed h b) + (8 + unat l) < 18446744073709551616"
  shows "\<exists>r h'. dh_parseOptions (Ptr b 0) 8 h = Inr (r, h') \<and> success r \<and>
    ClientIdentifier r = Ptr b 4 \<and> load_raw (Ptr b 4) (4 + unat l) h' = Inl OutOfBounds"
proof -
  have l: "0 < unat l" "unat l < 65536"
    using assms(2) unsigned_less [of l, where ?'a = nat] by (simp_all add: word_less_nat_alt)
  have "uintptr h (Ptr b 0) + 8 < uintptr h (Ptr b (8 + unat l))"
    using assms(3) l by (simp add: word_less_nat_alt unat_word_ariths unat_ucast_up)
  then show ?thesis
    using dh_parse_first [of h b 7 x y z DHCPv6_OPTION_CLIENTID l "[]" 8] assms(1) l
    by (simp add: cm_simps)
qed

text \<open>A Reply of eight bytes with an option header that announces \<open>l\<close> bytes of data.\<close>

definition sample_short_reply :: "u16 \<Rightarrow> cheap" where
  "sample_short_reply l = sample_heap
     [map Byte ([7, 0, 0, 0] @ be_bytes 2 DHCPv6_OPTION_CLIENTID @ be_bytes 2 l)] 0"

theorem parse_accepts_truncated_witness:
  "\<exists>r h'. dh_parseOptions (Ptr 0 0) 8 (sample_short_reply 100) = Inr (r, h') \<and>
    success r \<and> ClientIdentifier r = Ptr 0 4 \<and> load_raw (Ptr 0 4) 104 h' = Inl OutOfBounds"
  using parse_accepts_truncated [of "sample_short_reply 100" 0 0 0 0 100]
  by (simp add: sample_short_reply_def)

text \<open>\<open>recvfrom\<close>'s error value -1, which the caller passes on as the size, is taken for a
  huge packet: what an earlier call left in the buffer is parsed as far as its first
  option, and the result reports success.\<close>

theorem parse_after_failed_receive:
  fixes l :: u16
  assumes "blocks h b = Some (map Byte ([7, x, y, z] @ be_bytes 2 DHCPv6_OPTION_CLIENTID @ be_bytes 2 l) @ tail)"
    and "0 < placed h b" and "unat (placed h b) + (8 + unat l) < 18446744073709551616"
  shows "\<exists>r h'. dh_parseOptions (Ptr b 0) (-1) h = Inr (r, h') \<and> success r \<and>
    ClientIdentifier r = Ptr b 4 \<and> ServerIdentifier r = Null \<and> IA_PDList r = Null"
proof -
  have "unat l < 65536" using unsigned_less [of l, where ?'a = nat] by simp
  moreover have "unat (placed h b - 1) = unat (placed h b) - 1"
    using assms(2) by (simp add: unat_minus_one word_greater_zero_iff)
  ultimately have "uintptr h (Ptr b 0) + (-1) < uintptr h (Ptr b (8 + unat l))"
    using assms(2,3) by (simp add: word_less_nat_alt unat_word_ariths unat_ucast_up)
  then show ?thesis
    using dh_parse_first [of h b 7 x y z DHCPv6_OPTION_CLIENTID l tail "-1"] assms(1)
    by (simp add: dh_nothing_def)
qed

theorem parse_after_failed_receive_witness:
  "\<exists>r h'. dh_parseOptions (Ptr 0 0) (-1) (sample_short_reply 9) = Inr (r, h') \<and> success r \<and>
    ClientIdentifier r = Ptr 0 4 \<and> ServerIdentifier r = Null \<and> IA_PDList r = Null"
  using parse_after_failed_receive [of "sample_short_reply 9" 0 0 0 0 9 "[]"]
  by (simp add: sample_short_reply_def)

text \<open>The Solicit builder. With a clock and its three mandatory options it returns the
  Solicit message with these options first and the caller's after them, under the
  transaction id drawn from the generator; the array of pointers it allocated stays.\<close>

theorem solicit_packet:
  assumes "list_all2 (dh_holds h) (client # elapsed # iapd # vArg) opts"
    and "unat optionsNum = length vArg" and "length vArg + 3 < 4294967296"
    and "8 * (length vArg + 3) + (4 + dh_size opts) \<le> avail h"
  shows "dh_CreateCustomizedSolicitPacket (Some (sec, nsec)) rng old client elapsed iapd
      optionsNum vArg h =
    Inr ((Ptr (Suc (next_block h)) 0, of_nat (4 + dh_size opts)),
      push_block (dh_wire_packet 1 (dh_transId_of_random (rng (ucast (nsec XOR sec)))) opts)
        (push_block (concat (map ptr_enc (client # elapsed # iapd # vArg))) h))"
  by (rule dh_solicit_run [OF assms])

definition sample_solicit_heap :: cheap where
  "sample_solicit_heap = sample_heap [dh_object DHCPv6_OPTION_CLIENTID [Byte 1],
     dh_object DHCPv6_OPTION_ELAPSED_TIME [Byte 0, Byte 0], dh_object DHCPv6_OPTION_IA_PD [Byte 4],
     dh_object DHCPv6_OPTION_RAPID_COMMIT []] 100"

definition sample_solicit_opts :: "dh_option list" where
  "sample_solicit_opts = [(DHCPv6_OPTION_CLIENTID, [Byte 1]),
     (DHCPv6_OPTION_ELAPSED_TIME, [Byte 0, Byte 0]), (DHCPv6_OPTION_IA_PD, [Byte 4]),
     (DHCPv6_OPTION_RAPID_COMMIT, [])]"

lemma sample_solicit_facts:
  "list_all2 (dh_holds sample_solicit_heap) [Ptr 0 0, Ptr 1 0, Ptr 2 0, Ptr 3 0] sample_solicit_opts"
  "dh_size sample_solicit_opts = 20" "avail sample_solicit_heap = 100"
  "next_block sample_solicit_heap = 4"
  by (simp_all add: sample_solicit_heap_def sample_solicit_opts_def dh_holds_def)

theorem solicit_packet_witness:
  "\<exists>h'. dh_CreateCustomizedSolicitPacket (Some (3, 5)) (\<lambda>seed. ucast seed + 1) Null
      (Ptr 0 0) (Ptr 1 0) (Ptr 2 0) 1 [Ptr 3 0] sample_solicit_heap = Inr ((Ptr 5 0, 24), h') \<and>
    blocks h' 5 = Some (dh_wire_packet 1 (dh_transId_of_random 7) sample_solicit_opts)"
  using solicit_packet [OF sample_solicit_facts(1), of 1 3 5 "\<lambda>seed. ucast seed + 1" Null]
  by (simp add: sample_solicit_facts)

text \<open>Without one of the three mandatory options the Solicit builder reports an error: the
  caller's pointer keeps its value and the size is (size_t) -1.\<close>

theorem solicit_missing_option:
  assumes "client = Null \<or> elapsed = Null \<or> iapd = Null"
  shows "\<exists>h'. dh_CreateCustomizedSolicitPacket clock rng old client elapsed iapd n vArg h =
      Inr ((old, -1), h')"
  by (rule dh_solicit_null_args [OF assms])

theorem solicit_missing_option_witness:
  "\<exists>h'. dh_CreateCustomizedSolicitPacket None (\<lambda>_. 0) Null (Ptr 0 0) Null (Ptr 2 0) 0 []
      sample_solicit_heap = Inr ((Null, -1), h')"
  by (rule solicit_missing_option) simp

end
