(* ===== verification/Pdrad_World.thy ===== *)
theory Pdrad_World
  imports C_Memory
begin

text \<open>
  What the daemon acts on besides the heap: its static variables and the operating system.
  A system call's effect on the outside is an entry of the trace; what the kernel answers is
  a parameter of the function that makes the call. Also the addresses of \<open>Inc/global.h\<close>.
\<close>

section \<open>The world\<close>

text \<open>Calls whose effect matters outside the process. A datagram carries its destination
  address and port, for a raw socket the hop limit set as ancillary data, and its bytes.\<close>

datatype sys_call =
    Close int
  | Send_Raw int in6_addr nat "mval list"
  | Send_Udp int in6_addr nat "mval list"
  | Printed string
  | Sleep u32
  | Lock_Prefix
  | Unlock_Prefix

record world = cheap +
  utils_handler :: int
  utils_request :: ptr
  prefix_ptr :: ptr                        \<comment> \<open>the static object \<open>_prefix\<close>\<close>
  Thread_sendRouterAdv_cancel :: bool
  Thread_requestDhcpPrefix_cancel :: bool
  Thread_listenRouterSolicit_cancel :: bool
  trace :: "sys_call list"

definition sys :: "sys_call \<Rightarrow> ('z world_scheme, unit) cm" where
  "sys c w = Inr ((), w\<lparr>trace := trace w @ [c]\<rparr>)"

lemma sys_apply [cm_simps]: "sys c w = Inr ((), w\<lparr>trace := trace w @ [c]\<rparr>)"
  by (simp add: sys_def)

text \<open>Updates of the daemon's own fields commute with those of the heap.\<close>

definition upd :: "('s \<Rightarrow> 's) \<Rightarrow> ('s, unit) cm" where
  "upd f s = Inr ((), f s)"

lemma upd_apply [cm_simps]: "upd f s = Inr ((), f s)"
  by (simp add: upd_def)

text \<open>A fresh process: the given heap, \<open>_prefix\<close> zeroed in a block of its own.\<close>

definition sample_world :: "mval list list \<Rightarrow> nat \<Rightarrow> world" where
  "sample_world vss n = \<lparr>blocks = (\<lambda>b. if b < length vss then Some (vss ! b) else None),
     next_block = length vss, avail = n, placed = (\<lambda>_. 4096),
     utils_handler = -1, utils_request = Null, prefix_ptr = Ptr 0 0,
     Thread_sendRouterAdv_cancel = False, Thread_requestDhcpPrefix_cancel = False,
     Thread_listenRouterSolicit_cancel = False, trace = []\<rparr>"

lemma sample_world_fields [simp]:
  "blocks (sample_world vss n) b = (if b < length vss then Some (vss ! b) else None)"
  "next_block (sample_world vss n) = length vss"
  "avail (sample_world vss n) = n"
  "utils_handler (sample_world vss n) = -1"
  "utils_request (sample_world vss n) = Null"
  "prefix_ptr (sample_world vss n) = Ptr 0 0"
  "trace (sample_world vss n) = []"
  by (simp_all add: sample_world_def)

lemma push_block_world [simp]:
  "utils_handler (push_block vs w) = utils_handler w"
  "utils_request (push_block vs w) = utils_request w"
  "prefix_ptr (push_block vs w) = prefix_ptr w"
  "trace (push_block vs w) = trace w"
  "Thread_sendRouterAdv_cancel (push_block vs w) = Thread_sendRouterAdv_cancel w"
  "Thread_requestDhcpPrefix_cancel (push_block vs w) = Thread_requestDhcpPrefix_cancel w"
  "Thread_listenRouterSolicit_cancel (push_block vs w) = Thread_listenRouterSolicit_cancel w"
  "utils_handler (set_block b vs w) = utils_handler w"
  "utils_request (set_block b vs w) = utils_request w"
  "prefix_ptr (set_block b vs w) = prefix_ptr w"
  "trace (set_block b vs w) = trace w"
  "Thread_sendRouterAdv_cancel (set_block b vs w) = Thread_sendRouterAdv_cancel w"
  "Thread_requestDhcpPrefix_cancel (set_block b vs w) = Thread_requestDhcpPrefix_cancel w"
  "Thread_listenRouterSolicit_cancel (set_block b vs w) = Thread_listenRouterSolicit_cancel w"
  by (simp_all add: push_block_def set_block_def)

lemma release_world [simp]:
  "utils_handler (release b n w) = utils_handler w"
  "utils_request (release b n w) = utils_request w"
  "prefix_ptr (release b n w) = prefix_ptr w"
  "trace (release b n w) = trace w"
  "Thread_sendRouterAdv_cancel (release b n w) = Thread_sendRouterAdv_cancel w"
  "Thread_requestDhcpPrefix_cancel (release b n w) = Thread_requestDhcpPrefix_cancel w"
  "Thread_listenRouterSolicit_cancel (release b n w) = Thread_listenRouterSolicit_cancel w"
  by (simp_all add: release_def)

lemma trace_update_fields [simp]:
  "blocks (trace_update t w) = blocks w" "next_block (trace_update t w) = next_block w"
  "avail (trace_update t w) = avail w" "placed (trace_update t w) = placed w"
  by simp_all

lemma set_block_push_block_fresh [simp]:
  "b = next_block w \<Longrightarrow> length ws = length vs \<Longrightarrow> set_block b ws (push_block vs w) = push_block ws w"
  by simp

lemma update_push_block [simp]:
  "utils_handler_update f (push_block vs w) = push_block vs (utils_handler_update f w)"
  "utils_request_update g (push_block vs w) = push_block vs (utils_request_update g w)"
  "trace_update t (push_block vs w) = push_block vs (trace_update t w)"
  "utils_handler_update f (set_block b vs w) = set_block b vs (utils_handler_update f w)"
  "utils_request_update g (set_block b vs w) = set_block b vs (utils_request_update g w)"
  "trace_update t (set_block b vs w) = set_block b vs (trace_update t w)"
  by (simp_all add: push_block_def set_block_def)

section \<open>What a function leaves alone\<close>

text \<open>
  \<open>world_keeps bs w w'\<close>: from \<open>w\<close> to \<open>w'\<close> no object that existed changed except those of the
  blocks \<open>bs\<close>, and none of the daemon's variables did.
\<close>

definition same_globals :: "'z world_scheme \<Rightarrow> 'z world_scheme \<Rightarrow> bool" where
  "same_globals w w' \<longleftrightarrow> utils_handler w' = utils_handler w \<and> utils_request w' = utils_request w \<and>
     prefix_ptr w' = prefix_ptr w \<and>
     Thread_sendRouterAdv_cancel w' = Thread_sendRouterAdv_cancel w \<and>
     Thread_requestDhcpPrefix_cancel w' = Thread_requestDhcpPrefix_cancel w \<and>
     Thread_listenRouterSolicit_cancel w' = Thread_listenRouterSolicit_cancel w"

definition world_keeps :: "nat set \<Rightarrow> 'z world_scheme \<Rightarrow> 'z world_scheme \<Rightarrow> bool" where
  "world_keeps bs w w' \<longleftrightarrow> same_globals w w' \<and> placed w' = placed w \<and> next_block w \<le> next_block w' \<and>
     (heap_wf w \<longrightarrow> heap_wf w') \<and> (\<forall>b < next_block w. b \<notin> bs \<longrightarrow> blocks w' b = blocks w b)"

lemma same_globals_refl [simp]: "same_globals w w"
  by (simp add: same_globals_def)

lemma same_globals_trans [trans]: "same_globals u v \<Longrightarrow> same_globals v w \<Longrightarrow> same_globals u w"
  by (simp add: same_globals_def)

lemma same_globals_heap [simp]:
  "same_globals w (push_block vs w)" "same_globals w (set_block b vs w)"
  "same_globals w (release b n w)" "same_globals w (w\<lparr>trace := t\<rparr>)"
  "same_globals w (w\<lparr>blocks := m\<rparr>)" "same_globals w (w\<lparr>blocks := m, next_block := n\<rparr>)"
  by (simp_all add: same_globals_def push_block_def set_block_def release_def)

lemma same_globals_more:
  assumes "cheap.more w' = cheap.more (w :: 'z world_scheme)"
  shows "same_globals w w'" and "trace w' = trace w"
  using assms by (cases w; cases w'; simp add: same_globals_def)+

lemma world_keeps_refl [simp]: "world_keeps bs w w"
  by (simp add: world_keeps_def)

lemma world_keeps_trans [trans]:
  "world_keeps bs u v \<Longrightarrow> world_keeps bs v w \<Longrightarrow> world_keeps bs u w"
  unfolding world_keeps_def using same_globals_trans by (metis order_less_le_trans order_trans)

lemma world_keeps_mono: "world_keeps bs u v \<Longrightarrow> bs \<subseteq> cs \<Longrightarrow> world_keeps cs u v"
  unfolding world_keeps_def by blast

lemma world_keeps_blocks: "world_keeps bs w w' \<Longrightarrow> b < next_block w \<Longrightarrow> b \<notin> bs \<Longrightarrow> blocks w' b = blocks w b"
  by (simp add: world_keeps_def)

lemma world_keeps_frame: "world_keeps {} w w' \<Longrightarrow> \<forall>b < next_block w. blocks w' b = blocks w b"
  by (simp add: world_keeps_def)

lemma world_keeps_basic [simp]:
  "world_keeps bs w (w\<lparr>trace := t\<rparr>)"
  "world_keeps bs w (push_block vs w)"
  "world_keeps {} (w :: 'z world_scheme)
    (w\<lparr>blocks := (blocks w)(next_block w \<mapsto> vs), next_block := Suc (next_block w)\<rparr>)"
  by (auto simp: world_keeps_def heap_wf_def less_Suc_eq split: if_splits)

lemma world_keeps_set_block:
  "b < next_block w \<Longrightarrow> b \<in> bs \<Longrightarrow> world_keeps bs w (set_block b vs w)"
  by (auto simp: world_keeps_def)

text \<open>A local object: freeing what was allocated above the given state.\<close>

lemma world_keeps_drop:
  "world_keeps bs w w' \<Longrightarrow> next_block w \<le> b \<Longrightarrow> world_keeps bs w (w'\<lparr>blocks := (blocks w')(b := None)\<rparr>)"
  by (auto simp: world_keeps_def heap_wf_def same_globals_def)

lemma world_keeps_release:
  "world_keeps bs w w' \<Longrightarrow> next_block w \<le> b \<Longrightarrow> world_keeps bs w (release b n w')"
  by (auto simp: world_keeps_def intro: same_globals_trans)

section \<open>Multicast addresses\<close>

text \<open>
  The initialisers fill \<open>struct in6_addr\<close> by 32-bit words in host order; \<open>htobe_inet6\<close>, in its
  64-bit variant, rewrites the two halves in network order. The type \<open>in6_addr\<close> of the model
  is the number the sixteen bytes in memory spell.
\<close>

type_synonym addr32 = "u32 \<times> u32 \<times> u32 \<times> u32"

definition ADDR_All_Nodes_Multicast :: addr32 where
  "ADDR_All_Nodes_Multicast = (0xff020000, 0x00000000, 0x00000000, 0x00000001)"

definition ADDR_All_Routers_Multicast :: addr32 where
  "ADDR_All_Routers_Multicast = (0xff020000, 0x00000000, 0x00000000, 0x00000002)"

definition ADDR_All_DHCP_Relay_Agents_and_Servers :: addr32 where
  "ADDR_All_DHCP_Relay_Agents_and_Servers = (0xff020000, 0x00000000, 0x00000000, 0x00010002)"

definition htobe_inet6 :: "addr32 \<Rightarrow> in6_addr" where
  "htobe_inet6 addr = (case addr of (a, b, c, d) \<Rightarrow>
     from_be (le_bytes 8 (htobe64 (push_bit 32 (ucast a) OR ucast b)) @
              le_bytes 8 (htobe64 (push_bit 32 (ucast c) OR ucast d))))"

lemma le_bytes_add: "le_bytes (m + n) w = le_bytes m w @ le_bytes n (drop_bit (8 * m) w)"
  by (induction m arbitrary: w) (simp_all add: drop_bit_drop_bit add.commute)

lemma le_bytes_cong:
  fixes x :: "'a::len word" and y :: "'b::len word"
  shows "(\<And>i. i < 8 * n \<Longrightarrow> bit x i \<longleftrightarrow> bit y i) \<Longrightarrow> le_bytes n x = le_bytes n y"
proof (induction n arbitrary: x y)
  case 0
  then show ?case by simp
next
  case (Suc n)
  have "ucast x = (ucast y :: u8)"
    by (rule bit_word_eqI) (use Suc.prems in \<open>simp add: bit_simps\<close>)
  moreover have "le_bytes n (drop_bit 8 x) = le_bytes n (drop_bit 8 y)"
    by (rule Suc.IH) (use Suc.prems in \<open>simp add: bit_simps\<close>)
  ultimately show ?case by simp
qed

lemma be_bytes_concat:
  fixes a b :: u32
  shows "be_bytes 8 (push_bit 32 (ucast a) OR ucast b :: u64) = be_bytes 4 a @ be_bytes 4 b"
proof -
  let ?x = "push_bit 32 (ucast a) OR ucast b :: u64"
  have "le_bytes 4 ?x = le_bytes 4 b"
    by (rule le_bytes_cong) (auto simp: bit_simps)
  moreover have "le_bytes 4 (drop_bit 32 ?x) = le_bytes 4 a"
    by (rule le_bytes_cong) (auto simp: bit_simps dest: bit_imp_le_length)
  ultimately have "le_bytes 8 ?x = le_bytes 4 b @ le_bytes 4 a"
    using le_bytes_add [of 4 4 ?x] by simp
  then show ?thesis by (simp add: be_bytes_def)
qed

lemma in6_bytes_from_be: "length bs = 16 \<Longrightarrow> in6_bytes (from_be bs) = bs"
  by (simp add: in6_bytes_def be_bytes_def from_be_def le_bytes_from_le)

lemma in6_bytes_htobe_inet6:
  "in6_bytes (htobe_inet6 (a, b, c, d)) = be_bytes 4 a @ be_bytes 4 b @ be_bytes 4 c @ be_bytes 4 d"
  by (simp add: htobe_inet6_def in6_bytes_from_be be_bytes_concat)

text \<open>The three groups of RFC 4291 and RFC 8415: \<open>ff02::1\<close>, \<open>ff02::2\<close> and \<open>ff02::1:2\<close>.\<close>

definition all_nodes :: in6_addr where "all_nodes = 0xff020000000000000000000000000001"
definition all_routers :: in6_addr where "all_routers = 0xff020000000000000000000000000002"
definition all_dhcp_agents :: in6_addr where "all_dhcp_agents = 0xff020000000000000000000000010002"

lemma from_be_append:
  "length bs = n \<Longrightarrow> from_be (as @ bs) = push_bit (8 * n) (from_be as) OR (from_be bs :: 'a::len word)"
proof (induction bs arbitrary: n rule: rev_induct)
  case Nil
  then show ?case by (simp add: from_be_def)
next
  case (snoc b bs)
  then show ?case
    by (auto simp: from_be_def push_bit_or or.left_commute or.assoc ac_simps)
qed

lemma from_be_be_bytes_ucast:
  fixes a :: u32
  shows "from_be (be_bytes 4 a) = (ucast a :: in6_addr)"
proof -
  have "le_bytes 4 a = le_bytes 4 (ucast a :: in6_addr)"
    by (rule le_bytes_cong) (auto simp: bit_simps)
  then have "from_be (be_bytes 4 a) = (take_bit 32 (ucast a) :: in6_addr)"
    by (simp add: from_be_def be_bytes_def from_le_le_bytes)
  also have "\<dots> = ucast a"
    by (rule bit_word_eqI) (auto simp: bit_simps dest: bit_imp_le_length)
  finally show ?thesis .
qed

lemma htobe_inet6_value:
  "htobe_inet6 (a, b, c, d) = push_bit 96 (ucast a) OR push_bit 64 (ucast b) OR
     push_bit 32 (ucast c) OR ucast d"
proof -
  have "htobe_inet6 (a, b, c, d) =
      from_be (((be_bytes 4 a @ be_bytes 4 b) @ be_bytes 4 c) @ be_bytes 4 d)"
    by (simp add: htobe_inet6_def be_bytes_concat)
  then show ?thesis
    by (simp only: from_be_append [of _ 4] length_be_bytes from_be_be_bytes_ucast push_bit_or
        push_bit_push_bit) (simp add: or.assoc)
qed

lemma multicast_values:
  "htobe_inet6 ADDR_All_Nodes_Multicast = all_nodes"
  "htobe_inet6 ADDR_All_Routers_Multicast = all_routers"
  "htobe_inet6 ADDR_All_DHCP_Relay_Agents_and_Servers = all_dhcp_agents"
  by (simp_all add: ADDR_All_Nodes_Multicast_def ADDR_All_Routers_Multicast_def
      ADDR_All_DHCP_Relay_Agents_and_Servers_def htobe_inet6_value all_nodes_def all_routers_def
      all_dhcp_agents_def)

text \<open>The address constants, after \<open>htobe_inet6\<close>, are the multicast groups they are named after,
  in network order.\<close>

theorem multicast_addresses:
  "htobe_inet6 ADDR_All_Nodes_Multicast = all_nodes \<and>
   htobe_inet6 ADDR_All_Routers_Multicast = all_routers \<and>
   htobe_inet6 ADDR_All_DHCP_Relay_Agents_and_Servers = all_dhcp_agents"
  by (simp add: multicast_values)

end
