(* ===== verification/Utils.thy ===== *)
theory Utils
  imports Pdrad_World
begin

text \<open>
  \<open>Src/utils.c\<close>: the process-wide socket and interface request behind the link-local and
  hardware address queries. What each system call answers is a parameter: a descriptor, a
  result code, the bytes the kernel stores, and \<open>errno\<close> when it fails.
\<close>

section \<open>Operations\<close>

definition EINVAL :: int where "EINVAL = 22"

definition MAC_ADDRESS_LENGTH :: u64 where "MAC_ADDRESS_LENGTH = 6"

text \<open>\<open>struct ifreq\<close> of \<open>net/if.h\<close>: 40 bytes, the name in the first 16, the union after it;
  in a hardware address request the union holds a \<open>struct sockaddr\<close>.\<close>

definition IFNAMSIZ :: nat where "IFNAMSIZ = 16"
definition sizeof_ifreq :: u64 where "sizeof_ifreq = 40"
abbreviation (input) ifr_name :: "ptr \<Rightarrow> ptr" where "ifr_name p \<equiv> ptr_add p 0"
abbreviation (input) ifr_ifru :: "ptr \<Rightarrow> ptr" where "ifr_ifru p \<equiv> ptr_add p 16"
abbreviation (input) ifr_hwaddr_sa_data :: "ptr \<Rightarrow> ptr" where "ifr_hwaddr_sa_data p \<equiv> ptr_add p 18"

text \<open>A C string that may be NULL; \<open>strcpy\<close> into a character array of the given size.\<close>

type_synonym c_string = "u8 list option"

definition strcpy :: "ptr \<Rightarrow> nat \<Rightarrow> c_string \<Rightarrow> ('z cheap_scheme, unit) cm" where
  "strcpy dst cap src = (case src of
       None \<Rightarrow> raise NullDeref
     | Some s \<Rightarrow> if length s < cap then store_raw dst (map Byte (s @ [0])) else raise OutOfBounds)"

text \<open>\<open>ioctl_hw\<close> is the \<open>sockaddr\<close> the kernel stores, or \<open>None\<close> when the call fails.\<close>

definition utils_getHardwareAddressByName ::
  "u8 list option \<Rightarrow> int \<Rightarrow> ptr \<Rightarrow> ('z world_scheme, int) cm" where
  "utils_getHardwareAddressByName ioctl_hw errno hwAddress =
     bindc (gets utils_request) (\<lambda>request.
     thenc (store32 (ifr_ifru request) 0) (
     case ioctl_hw of
       None \<Rightarrow> ret errno
     | Some sockaddr \<Rightarrow>
         thenc (store_raw (ifr_ifru request) (map Byte sockaddr)) (
         thenc (memcpy hwAddress (ifr_hwaddr_sa_data request) MAC_ADDRESS_LENGTH) (
         ret 0))))"

definition utils_Init :: "int \<Rightarrow> int \<Rightarrow> int \<Rightarrow> c_string \<Rightarrow> ('z world_scheme, int) cm" where
  "utils_Init socket setsockopt errno interfaceName =
     bindc (gets utils_handler) (\<lambda>handler.
     bindc (gets utils_request) (\<lambda>request.
     if handler \<noteq> -1 \<or> request \<noteq> Null then ret EINVAL
     else
       thenc (upd (utils_handler_update (\<lambda>_. socket))) (
       bindc (malloc sizeof_ifreq) (\<lambda>request.
       thenc (upd (utils_request_update (\<lambda>_. request))) (
       thenc (strcpy (ifr_name request) IFNAMSIZ interfaceName) (
       if setsockopt < 0 then
         thenc (sys (Close socket)) (
         thenc (free request) (
         ret errno))
       else ret 0))))))"

text \<open>
  \<open>connect\<close> is the result of connecting to all nodes, \<open>getsockname\<close> the local address of the
  connected socket or \<open>None\<close>; \<open>old\<close> is what \<open>*address\<close> held before the call.
\<close>

definition utils_getLinkLocalAddress ::
  "int \<Rightarrow> in6_addr option \<Rightarrow> int \<Rightarrow> in6_addr \<Rightarrow> ('z world_scheme, int \<times> in6_addr) cm" where
  "utils_getLinkLocalAddress connect getsockname errno old =
     bindc (gets utils_handler) (\<lambda>handler.
     if connect < 0 then thenc (sys (Close handler)) (ret (errno, old))
     else
       let addrBuffer = 0 in
       case getsockname of
         None \<Rightarrow> thenc (sys (Close handler)) (ret (0, addrBuffer))
       | Some addrBuffer \<Rightarrow> ret (0, addrBuffer))"

definition utils_Dispose :: "int \<Rightarrow> ('z world_scheme, int) cm" where
  "utils_Dispose close =
     bindc (gets utils_handler) (\<lambda>handler.
     thenc (sys (Close handler)) (ret close))"

section \<open>The request object\<close>

text \<open>Initialised: there is a live request object that starts with the interface's name.\<close>

definition utils_ready :: "u8 list \<Rightarrow> 'z world_scheme \<Rightarrow> bool" where
  "utils_ready name w \<longleftrightarrow> utils_handler w \<noteq> -1 \<and>
     (\<exists>b vs. utils_request w = Ptr b 0 \<and> b < next_block w \<and> blocks w b = Some vs \<and> length vs = 40 \<and>
        take (Suc (length name)) vs = map Byte (name @ [0]) \<and> length name < 16)"

definition ifreq_image :: "u8 list \<Rightarrow> mval list" where
  "ifreq_image name = map Byte (name @ [0]) @ replicate (39 - length name) Undef"

lemma length_ifreq_image: "length name < 16 \<Longrightarrow> length (ifreq_image name) = 40"
  by (simp add: ifreq_image_def)

lemma utils_Init_run:
  assumes "utils_handler w = -1" and "utils_request w = Null" and "length name < 16" and "40 \<le> avail w"
  shows "utils_Init socket setsockopt errno (Some name) w =
    (let w' = push_block (ifreq_image name)
        (w\<lparr>utils_handler := socket, utils_request := Ptr (next_block w) 0\<rparr>)
     in if setsockopt < 0
        then thenc (free (Ptr (next_block w) 0)) (ret errno) (w'\<lparr>trace := trace w @ [Close socket]\<rparr>)
        else Inr (0, w'))"
proof -
  have "patch 0 (map Byte (name @ [0])) (replicate 40 Undef) = ifreq_image name"
    using assms(3) by (simp add: patch_def ifreq_image_def del: replicate_numeral_Cons)
  then show ?thesis using assms
    by (simp add: utils_Init_def cm_simps sizeof_ifreq_def strcpy_def IFNAMSIZ_def Let_def
        length_ifreq_image del: replicate_numeral_Cons)
qed

section \<open>Properties\<close>

text \<open>The first initialisation of a process: when the socket can be bound, the request object
  holds the interface's name and the module is ready; a second call is refused and changes
  nothing.\<close>

theorem utils_Init_ready:
  assumes "utils_handler w = -1" and "utils_request w = Null" and "length name < 16" and "40 \<le> avail w"
    and "0 \<le> socket" and "0 \<le> setsockopt"
  shows "\<exists>w'. utils_Init socket setsockopt errno (Some name) w = Inr (0, w') \<and> utils_ready name w' \<and>
    utils_handler w' = socket \<and> trace w' = trace w \<and> utils_Init s' r' e' n' w' = Inr (EINVAL, w')"
  using assms utils_Init_run [OF assms(1-4), of socket setsockopt errno]
  by (auto simp: utils_ready_def length_ifreq_image) (auto simp: ifreq_image_def utils_Init_def cm_simps)

theorem utils_Init_ready_witness:
  "\<exists>w'. utils_Init 5 0 0 (Some [101, 116, 104, 48]) (sample_world [] 40) = Inr (0, w') \<and>
    utils_ready [101, 116, 104, 48] w'"
  using utils_Init_ready [of "sample_world [] 40" "[101, 116, 104, 48]" 5 0 0 0 0 0 None] by auto

text \<open>C40: An initialisation that cannot bind the socket returns the error but leaves its variables
  behind: the module can not be initialised again, and the next query of the hardware
  address writes to the request object that was freed.\<close>

theorem utils_Init_failed:
  assumes "utils_handler w = -1" and "utils_request w = Null" and "length name < 16" and "40 \<le> avail w"
    and "setsockopt < 0"
  shows "\<exists>w'. utils_Init socket setsockopt errno (Some name) w = Inr (errno, w') \<and>
    trace w' = trace w @ [Close socket] \<and>
    utils_Init s' r' e' n' w' = Inr (EINVAL, w') \<and>
    utils_getHardwareAddressByName ioctl_hw errno' hwAddress w' = Inl DeadBlock"
  using assms utils_Init_run [OF assms(1-4), of socket setsockopt errno]
  by (simp add: cm_simps free_def utils_getHardwareAddressByName_def utils_Init_def Let_def)

theorem utils_Init_failed_witness:
  "\<exists>w'. utils_Init 5 (-1) 19 (Some [108, 111]) (sample_world [] 40) = Inr (19, w') \<and>
    utils_getHardwareAddressByName (Some []) 0 (Ptr 0 0) w' = Inl DeadBlock"
  using utils_Init_failed [of "sample_world [] 40" "[108, 111]" "-1" 5 19 0 0 0 None "Some []" 0 "Ptr 0 0"]
  by auto

text \<open>The hardware address query, once initialised: six bytes of the address the kernel stored
  arrive at the caller's buffer; when \<open>ioctl\<close> fails the error is returned and the buffer
  is untouched.\<close>

theorem utils_hardware_address:
  assumes "utils_ready name w" and "length sockaddr = 16"
    and "blocks w b = Some vs" and "6 \<le> length vs" and "utils_request w \<noteq> Ptr b 0"
  shows "(\<exists>w'. utils_getHardwareAddressByName (Some sockaddr) errno (Ptr b 0) w = Inr (0, w') \<and>
      blocks w' b = Some (map Byte (segment 2 6 sockaddr) @ drop 6 vs)) \<and>
    (\<exists>w'. utils_getHardwareAddressByName None errno (Ptr b 0) w = Inr (errno, w') \<and>
      blocks w' b = Some vs)"
proof -
  obtain r rs where r: "utils_request w = Ptr r 0" "blocks w r = Some rs" "length rs = 40"
    using assms(1) by (auto simp: utils_ready_def)
  have "b \<noteq> r" using assms(5) r(1) by auto
  moreover have "segment 18 6 (patch 16 (map Byte sockaddr) (patch 16 ws rs)) =
      map Byte (segment 2 6 sockaddr)" if "length ws = 4" for ws
    using that r(3) assms(2) by (simp add: segment_def patch_def take_map drop_map)
  moreover have "patch 0 (map Byte (segment 2 6 sockaddr)) vs =
      map Byte (segment 2 6 sockaddr) @ drop 6 vs"
    using assms(2) by (simp add: patch_def)
  ultimately show ?thesis using r assms(2-4)
    by (simp add: utils_getHardwareAddressByName_def cm_simps MAC_ADDRESS_LENGTH_def)
qed

theorem utils_hardware_address_witness:
  "\<exists>w'. utils_getHardwareAddressByName (Some ([1, 0] @ [2, 4, 6, 8, 10, 12] @ replicate 8 0)) 0 (Ptr 0 0)
      (sample_world [replicate 8 (Byte 0), ifreq_image [108, 111]] 0
        \<lparr>utils_handler := 5, utils_request := Ptr 1 0\<rparr>) = Inr (0, w') \<and>
    blocks w' 0 = Some (map Byte [2, 4, 6, 8, 10, 12, 0, 0])"
  using utils_hardware_address [of "[108, 111]" "sample_world [replicate 8 (Byte 0), ifreq_image [108, 111]] 0
        \<lparr>utils_handler := 5, utils_request := Ptr 1 0\<rparr>"
      "[1, 0] @ [2, 4, 6, 8, 10, 12] @ replicate 8 0" 0 "replicate 8 (Byte 0)" 0]
  by (simp add: utils_ready_def ifreq_image_def segment_def)

text \<open>The link-local address query. A failing \<open>connect\<close> returns the error and closes the
  process-wide socket; a failing \<open>getsockname\<close> closes it too, but reports success, with the
  unspecified address.\<close>

theorem utils_link_local_address:
  "utils_getLinkLocalAddress connect name errno old w =
    (if connect < 0 then Inr ((errno, old), w\<lparr>trace := trace w @ [Close (utils_handler w)]\<rparr>)
     else case name of
       Some addr \<Rightarrow> Inr ((0, addr), w)
     | None \<Rightarrow> Inr ((0, 0), w\<lparr>trace := trace w @ [Close (utils_handler w)]\<rparr>))"
  by (simp add: utils_getLinkLocalAddress_def cm_simps split: option.split)

end
