(* ===== verification/Daemon.thy ===== *)
theory Daemon
  imports Ndp_Packets Dh_Packets Utils
begin

text \<open>
  The functions of \<open>Src/test.c\<close> its threads call: sending a Router Advertisement, waiting for
  a Router Solicitation, dumping memory, and one DHCPv6 exchange. The structure \<open>_prefix\<close> is an object of 25 bytes at \<open>prefix_ptr\<close>. The messages the program
  logs are left out: with no function and no lock registered the logger changes nothing the
  program reads.
\<close>

section \<open>Constants\<close>

definition SERVER_PORT :: nat where "SERVER_PORT = 547"
definition CLIENT_PORT :: nat where "CLIENT_PORT = 546"

abbreviation (input) prefix_PreferredLifetime :: "ptr \<Rightarrow> ptr" where
  "prefix_PreferredLifetime p \<equiv> ptr_add p 0"
abbreviation (input) prefix_ValidLifetime :: "ptr \<Rightarrow> ptr" where
  "prefix_ValidLifetime p \<equiv> ptr_add p 4"
abbreviation (input) prefix_PrefixLength :: "ptr \<Rightarrow> ptr" where
  "prefix_PrefixLength p \<equiv> ptr_add p 8"
abbreviation (input) prefix_Prefix :: "ptr \<Rightarrow> ptr" where
  "prefix_Prefix p \<equiv> ptr_add p 9"

section \<open>Sending a Router Advertisement\<close>

text \<open>\<open>sendmsg\<close> failing is only logged, so its result is not a parameter.\<close>

definition sendRouterAdv ::
  "int \<Rightarrow> ptr \<Rightarrow> in6_addr \<Rightarrow> in6_addr \<Rightarrow> in6_addr \<Rightarrow> u32 \<Rightarrow> u32 \<Rightarrow> u32 \<Rightarrow> ('z world_scheme, int) cm" where
  "sendRouterAdv handler macAddr linkLocalAddr dstAddr prefix prefixLength validTime preferTime =
     bindc (ndp_createOptionPrefixInformation (ucast prefixLength)
       ((ndp_opt_PrefixInformation_flag_L OR ndp_opt_PrefixInformation_flag_A)
         AND ndp_opt_PrefixInformation_flag_R) validTime preferTime prefix) (\<lambda>prefixInfo.
     bindc (ndp_createOptionRouteInformation 56 0x00 validTime prefix) (\<lambda>routeInfo.
     bindc (ndp_createOptionMtu 1500) (\<lambda>mtu.
     bindc (ndp_createOptionSourceLinkLayerAddress macAddr) (\<lambda>linkAddress.
     bindc (ndp_createRAPacket linkLocalAddr dstAddr 64 1800 0x00 0x00 4
       [linkAddress, prefixInfo, routeInfo, mtu]) (\<lambda>(raPacket, pktSize).
     bindc (load_raw raPacket (unat pktSize)) (\<lambda>payload.
     thenc (sys (Send_Raw handler dstAddr 255 payload)) (
     thenc (free prefixInfo) (
     thenc (free mtu) (
     thenc (free linkAddress) (
     thenc (free raPacket) (
     ret 0)))))))))))"

text \<open>
  The message it is meant to send: source link-layer address, the prefix with the flags L
  and A, a route for the prefix's first 56 bits, and an MTU of 1500.
\<close>

definition ra_of_prefix :: "u8 list \<Rightarrow> in6_addr \<Rightarrow> u32 \<Rightarrow> u32 \<Rightarrow> u32 \<Rightarrow> ra_message" where
  "ra_of_prefix mac prefix prefixLength validTime preferTime = ndp_ra_message 64 1800 0 0
     [SourceLinkLayer mac, PrefixInfo (ucast prefixLength) 0xC0 validTime preferTime prefix,
      RouteInfo 56 0 validTime (take 8 (be_bytes 16 prefix)), MtuInfo 1500]"

lemma ndp_holds_fresh:
  "ndp_option_wf opt \<Longrightarrow> vs = map Byte (ndp_encode opt) \<Longrightarrow>
     ndp_holds (push_block vs w) (Ptr (next_block w) 0) opt"
  by (simp add: ndp_holds_def)

text \<open>The images the daemon's arguments give, as encodings.\<close>

lemma ra_images:
  assumes "length bs = 6"
  shows "ndp_prefix_image l ((ndp_opt_PrefixInformation_flag_L OR ndp_opt_PrefixInformation_flag_A)
      AND ndp_opt_PrefixInformation_flag_R) validTime preferTime prefix =
      map Byte (ndp_encode (PrefixInfo l 0xC0 validTime preferTime prefix))"
    and "ndp_route_image 56 0 validTime prefix =
      map Byte (ndp_encode (RouteInfo 56 0 validTime (take 8 (be_bytes 16 prefix))))"
    and "ndp_lla_image 1 (map Byte bs) = map Byte (ndp_encode (SourceLinkLayer bs))"
    and "length (ndp_route_image 56 0 validTime prefix) = 16"
    and "ndp_route_units 56 = 2"
proof -
  have pl: "(56 :: u8) < 128" by simp
  show units: "ndp_route_units 56 = 2" by (simp add: ndp_route_units_def)
  show "ndp_prefix_image l ((ndp_opt_PrefixInformation_flag_L OR ndp_opt_PrefixInformation_flag_A)
      AND ndp_opt_PrefixInformation_flag_R) validTime preferTime prefix =
      map Byte (ndp_encode (PrefixInfo l 0xC0 validTime preferTime prefix))"
    unfolding ndp_prefix_image_encodes
    by (simp add: ndp_opt_PrefixInformation_flag_L_def ndp_opt_PrefixInformation_flag_A_def
        ndp_opt_PrefixInformation_flag_R_def)
  show "ndp_route_image 56 0 validTime prefix =
      map Byte (ndp_encode (RouteInfo 56 0 validTime (take 8 (be_bytes 16 prefix))))"
    by (simp only: ndp_route_image_encodes [OF pl] ndp_route_prefix_def units) simp
  show "ndp_lla_image 1 (map Byte bs) = map Byte (ndp_encode (SourceLinkLayer bs))"
    by (rule ndp_lla_image_encodes [OF assms])
  show "length (ndp_route_image 56 0 validTime prefix) = 16"
    using length_ndp_route_image [OF pl] units by simp
qed

lemma ra_options_built:
  fixes w :: "'z world_scheme" and prefixLength :: u32
  assumes mac: "readable mac 6 w" "peek mac 6 w = map Byte bs" and mem: "64 \<le> avail w"
  defines "nb \<equiv> next_block w"
  shows "\<exists>v1 v2 v3 v4.
    ndp_createOptionPrefixInformation (ucast prefixLength)
      ((ndp_opt_PrefixInformation_flag_L OR ndp_opt_PrefixInformation_flag_A)
        AND ndp_opt_PrefixInformation_flag_R) validTime preferTime prefix w =
      Inr (Ptr nb 0, push_block v1 w) \<and>
    ndp_createOptionRouteInformation 56 0x00 validTime prefix (push_block v1 w) =
      Inr (Ptr (Suc nb) 0, push_block v2 (push_block v1 w)) \<and>
    ndp_createOptionMtu 1500 (push_block v2 (push_block v1 w)) =
      Inr (Ptr (Suc (Suc nb)) 0, push_block v3 (push_block v2 (push_block v1 w))) \<and>
    ndp_createOptionSourceLinkLayerAddress mac (push_block v3 (push_block v2 (push_block v1 w))) =
      Inr (Ptr (Suc (Suc (Suc nb))) 0, push_block v4 (push_block v3 (push_block v2 (push_block v1 w)))) \<and>
    length v1 = 32 \<and> length v2 = 16 \<and> length v3 = 8 \<and> length v4 = 8 \<and>
    list_all2 (ndp_holds (push_block v4 (push_block v3 (push_block v2 (push_block v1 w)))))
      [Ptr (Suc (Suc (Suc nb))) 0, Ptr nb 0, Ptr (Suc nb) 0, Ptr (Suc (Suc nb)) 0]
      [SourceLinkLayer bs, PrefixInfo (ucast prefixLength) 0xC0 validTime preferTime prefix,
       RouteInfo 56 0 validTime (take 8 (be_bytes 16 prefix)), MtuInfo 1500]"
proof -
  let ?flags = "(ndp_opt_PrefixInformation_flag_L OR ndp_opt_PrefixInformation_flag_A)
    AND ndp_opt_PrefixInformation_flag_R"
  let ?v1 = "ndp_prefix_image (ucast prefixLength) ?flags validTime preferTime prefix"
  let ?v2 = "ndp_route_image 56 0 validTime prefix"
  let ?v3 = "ndp_mtu_image 1500"
  let ?v4 = "ndp_lla_image 1 (map Byte bs)"
  let ?pi = "PrefixInfo (ucast prefixLength) 0xC0 validTime preferTime prefix"
  let ?ri = "RouteInfo 56 0 validTime (take 8 (be_bytes 16 prefix))"
  have six: "length bs = 6" using length_peek [OF mac(1)] mac(2) by simp
  have pl: "(56 :: u8) < 128" by simp
  note images = ra_images [OF six]
  note e1 = images(1) and e2 = images(2) and e4 = images(3) and l2 = images(4) and units = images(5)
  let ?w = "push_block ?v4 (push_block ?v3 (push_block ?v2 (push_block ?v1 w)))"
  have "ndp_holds ?w (Ptr (Suc (Suc (Suc nb))) 0) (SourceLinkLayer bs)"
    using ndp_holds_fresh [of "SourceLinkLayer bs" ?v4 "push_block ?v3 (push_block ?v2 (push_block ?v1 w))"]
      six e4 by (simp add: nb_def)
  moreover have "ndp_holds ?w (Ptr nb 0) ?pi"
    using ndp_holds_fresh [of ?pi ?v1 w] e1 by (simp add: nb_def)
  moreover have "ndp_holds ?w (Ptr (Suc nb) 0) ?ri"
    using ndp_holds_fresh [of ?ri ?v2 "push_block ?v1 w"] e2 by (simp add: nb_def)
  moreover have "ndp_holds ?w (Ptr (Suc (Suc nb)) 0) (MtuInfo 1500)"
    using ndp_holds_fresh [of "MtuInfo 1500" ?v3 "push_block ?v2 (push_block ?v1 w)"]
    by (simp add: nb_def ndp_mtu_image_encodes)
  ultimately have holds: "list_all2 (ndp_holds ?w)
      [Ptr (Suc (Suc (Suc nb))) 0, Ptr nb 0, Ptr (Suc nb) 0, Ptr (Suc (Suc nb)) 0]
      [SourceLinkLayer bs, ?pi, ?ri, MtuInfo 1500]" by simp
  have r1: "ndp_createOptionPrefixInformation (ucast prefixLength) ?flags validTime preferTime prefix w =
      Inr (Ptr nb 0, push_block ?v1 w)" using mem by (simp add: ndp_prefix_run nb_def)
  have r2: "ndp_createOptionRouteInformation 56 0x00 validTime prefix (push_block ?v1 w) =
      Inr (Ptr (Suc nb) 0, push_block ?v2 (push_block ?v1 w))"
    using mem by (simp add: ndp_route_run [OF pl] units nb_def)
  have r3: "ndp_createOptionMtu 1500 (push_block ?v2 (push_block ?v1 w)) =
      Inr (Ptr (Suc (Suc nb)) 0, push_block ?v3 (push_block ?v2 (push_block ?v1 w)))"
    using mem l2 by (simp add: ndp_mtu_run nb_def)
  have r4: "ndp_createOptionSourceLinkLayerAddress mac (push_block ?v3 (push_block ?v2 (push_block ?v1 w))) =
      Inr (Ptr (Suc (Suc (Suc nb))) 0, ?w)"
    using mem l2 mac by (simp add: ndp_createOptionSourceLinkLayerAddress_def ndp_lla_core_run nb_def)
  have lens: "length ?v1 = 32" "length ?v3 = 8" "length ?v4 = 8" using six by simp_all
  from r1 r2 r3 r4 lens l2 holds show ?thesis by blast
qed

lemma ra_packet_built:
  fixes h :: "'z cheap_scheme"
  assumes holds: "list_all2 (ndp_holds h) [p1, p2, p3, p4] opts" and total: "ndp_total opts = 64"
    and mem: "80 \<le> avail h"
  obtains packet where "length packet = 80" "ra_decode packet = Some (0, ndp_ra_message 64 1800 0 0 opts)"
    "ndp_createRAPacket src dst 64 1800 0 0 4 [p1, p2, p3, p4] h =
      Inr ((Ptr (next_block h) 0, 80), push_block (map Byte packet) h)"
proof -
  let ?m = "ndp_ra_message 64 1800 0 0 opts"
  have num: "unat (4 :: u32) = length [p1, p2, p3, p4]" by simp
  have size: "(of_nat (16 + ndp_total opts) :: u64) = 80" by (simp add: total)
  have mem': "16 + ndp_total opts \<le> avail h" using mem by (simp add: total)
  have "length (ra_encode 0 ?m) = 80"
    using total by (simp add: ndp_ra_message_def length_concat_encode)
  moreover have "ra_decode (ra_encode 0 ?m) = Some (0, ?m)"
    by (rule ra_decode_encode) (simp only: ndp_ra_message_def ra_message.simps ndp_holds_wf [OF holds])
  moreover have "ndp_createRAPacket src dst 64 1800 0 0 4 [p1, p2, p3, p4] h =
      Inr ((Ptr (next_block h) 0, 80), push_block (map Byte (ra_encode 0 ?m)) h)"
    using ndp_createRAPacket_run [OF holds num mem'] by (simp only: size)
  ultimately show thesis by (rule that)
qed

text \<open>The end of \<open>sendRouterAdv\<close>: the packet is sent and all blocks but the route option returned.\<close>

lemma advert_released:
  fixes w :: "'z world_scheme" and r :: int
  assumes lens: "length v1 = 32" "length v2 = 16" "length v3 = 8" "length v4 = 8" "length packet = 80"
    and mem: "144 \<le> avail w"
  shows "\<exists>w'. (thenc (sys call) (thenc (free (Ptr (next_block w) 0)) (thenc (free (Ptr (Suc (Suc (next_block w))) 0))
      (thenc (free (Ptr (Suc (Suc (Suc (next_block w)))) 0)) (thenc (free (Ptr (Suc (Suc (Suc (Suc (next_block w))))) 0))
      (ret r)))))) (push_block (map Byte packet) (push_block v4 (push_block v3 (push_block v2 (push_block v1 w))))) =
      Inr (r, w') \<and> trace w' = trace w @ [call] \<and> avail w' = avail w - 16 \<and> world_keeps {} w w'"
proof -
  let ?nb = "next_block w"
  let ?w1 = "(push_block (map Byte packet) (push_block v4 (push_block v3 (push_block v2 (push_block v1 w)))))\<lparr>
    trace := trace w @ [call]\<rparr>"
  let ?w2 = "release ?nb 32 ?w1"
  let ?w3 = "release (Suc (Suc ?nb)) 8 ?w2"
  let ?w4 = "release (Suc (Suc (Suc ?nb))) 8 ?w3"
  let ?w' = "release (Suc (Suc (Suc (Suc ?nb)))) 80 ?w4"
  have "free (Ptr ?nb 0) ?w1 = Inr ((), ?w2)" "free (Ptr (Suc (Suc ?nb)) 0) ?w2 = Inr ((), ?w3)"
    "free (Ptr (Suc (Suc (Suc ?nb))) 0) ?w3 = Inr ((), ?w4)"
    "free (Ptr (Suc (Suc (Suc (Suc ?nb)))) 0) ?w4 = Inr ((), ?w')"
    using lens by (simp_all add: free_run)
  moreover have "avail ?w' = avail w - 16" using mem lens by simp
  moreover have "world_keeps {} w ?w'"
    by (intro world_keeps_release world_keeps_trans [OF _ world_keeps_basic(1)]
        world_keeps_trans [OF _ world_keeps_basic(2)] world_keeps_refl) simp_all
  ultimately show ?thesis
    by (intro exI [of _ ?w']) (simp add: thenc_apply sys_apply ret_apply)
qed

lemma sendRouterAdv_run:
  fixes w :: "'z world_scheme"
  assumes mac: "readable mac 6 w" "peek mac 6 w = map Byte bs" and mem: "144 \<le> avail w"
  shows "\<exists>w' packet. sendRouterAdv handler mac src dst prefix prefixLength validTime preferTime w =
      Inr (0, w') \<and>
    trace w' = trace w @ [Send_Raw handler dst 255 (map Byte packet)] \<and>
    ra_decode packet = Some (0, ra_of_prefix bs prefix prefixLength validTime preferTime) \<and>
    world_keeps {} w w' \<and> avail w' = avail w - 16"
proof -
  let ?nb = "next_block w"
  let ?opts = "[SourceLinkLayer bs, PrefixInfo (ucast prefixLength) 0xC0 validTime preferTime prefix,
       RouteInfo 56 0 validTime (take 8 (be_bytes 16 prefix)), MtuInfo 1500]"
  let ?ps = "[Ptr (Suc (Suc (Suc ?nb))) 0, Ptr ?nb 0, Ptr (Suc ?nb) 0, Ptr (Suc (Suc ?nb)) 0]"
  obtain v1 v2 v3 v4 where built:
    "ndp_createOptionPrefixInformation (ucast prefixLength)
      ((ndp_opt_PrefixInformation_flag_L OR ndp_opt_PrefixInformation_flag_A)
        AND ndp_opt_PrefixInformation_flag_R) validTime preferTime prefix w =
      Inr (Ptr ?nb 0, push_block v1 w)"
    "ndp_createOptionRouteInformation 56 0x00 validTime prefix (push_block v1 w) =
      Inr (Ptr (Suc ?nb) 0, push_block v2 (push_block v1 w))"
    "ndp_createOptionMtu 1500 (push_block v2 (push_block v1 w)) =
      Inr (Ptr (Suc (Suc ?nb)) 0, push_block v3 (push_block v2 (push_block v1 w)))"
    "ndp_createOptionSourceLinkLayerAddress mac (push_block v3 (push_block v2 (push_block v1 w))) =
      Inr (Ptr (Suc (Suc (Suc ?nb))) 0, push_block v4 (push_block v3 (push_block v2 (push_block v1 w))))"
    and lens: "length v1 = 32" "length v2 = 16" "length v3 = 8" "length v4 = 8"
    and holds: "list_all2 (ndp_holds (push_block v4 (push_block v3 (push_block v2 (push_block v1 w))))) ?ps ?opts"
    using ra_options_built [OF mac, of prefixLength validTime preferTime prefix] mem by auto
  let ?w4 = "push_block v4 (push_block v3 (push_block v2 (push_block v1 w)))"
  let ?n4 = "Suc (Suc (Suc (Suc ?nb)))"
  have six: "length bs = 6" using length_peek [OF mac(1)] mac(2) by simp
  have total: "ndp_total ?opts = 64" using six by simp
  have mem4: "80 \<le> avail ?w4" using mem lens by simp
  obtain packet where packet: "length packet = 80"
    "ra_decode packet = Some (0, ndp_ra_message 64 1800 0 0 ?opts)"
    "ndp_createRAPacket src dst 64 1800 0 0 4 ?ps ?w4 =
      Inr ((Ptr ?n4 0, 80), push_block (map Byte packet) ?w4)"
    by (rule ra_packet_built [OF holds total mem4, of src dst]) (simp only: next_block_push_block)
  obtain w' where released: "(thenc (sys (Send_Raw handler dst 255 (map Byte packet))) (thenc (free (Ptr ?nb 0))
      (thenc (free (Ptr (Suc (Suc ?nb)) 0)) (thenc (free (Ptr (Suc (Suc (Suc ?nb))) 0))
      (thenc (free (Ptr ?n4 0)) (ret (0 :: int))))))) (push_block (map Byte packet) ?w4) = Inr (0, w')"
    and w': "trace w' = trace w @ [Send_Raw handler dst 255 (map Byte packet)]" "avail w' = avail w - 16"
      "world_keeps {} w w'"
    using advert_released [OF lens packet(1) mem] by blast
  have "load_raw (Ptr ?n4 0) 80 (push_block (map Byte packet) ?w4) =
      Inr (map Byte packet, push_block (map Byte packet) ?w4)"
    using packet(1) by (simp add: load_raw_simps segment_all)
  then have "sendRouterAdv handler mac src dst prefix prefixLength validTime preferTime w = Inr (0, w')"
    using built packet(3) released by (simp add: sendRouterAdv_def bindc_apply thenc_apply)
  then show ?thesis using packet(2) w'
    by (intro exI [of _ w'] exI [of _ packet]) (simp add: ra_of_prefix_def)
qed

section \<open>Waiting for a Router Solicitation\<close>

text \<open>
  The answers of \<open>recvfrom\<close>, in order: a datagram with its source, or \<open>None\<close> for an error.
  The length it returns is not looked at. A process for which no answer is left waits
  forever, which the model reports as \<open>OutOfFuel\<close>.
\<close>

type_synonym recv_answer = "(u8 list \<times> in6_addr) option"

primrec rs_loop :: "ptr \<Rightarrow> recv_answer list \<Rightarrow> in6_addr \<Rightarrow> ('z cheap_scheme, in6_addr) cm" where
  "rs_loop recBuf [] addr = raise OutOfFuel"
| "rs_loop recBuf (answer # answers) addr =
     bindc (case answer of
         None \<Rightarrow> ret addr
       | Some (datagram, source) \<Rightarrow>
           thenc (store_raw recBuf (map Byte (take 1500 datagram))) (ret source)) (\<lambda>addr.
     bindc (load8 (icmp6_type recBuf)) (\<lambda>type.
     if type \<noteq> 133 then rs_loop recBuf answers addr
     else
       bindc (load8 (icmp6_code recBuf)) (\<lambda>code.
       if code \<noteq> 0 then rs_loop recBuf answers addr
       else ret addr)))"

definition ReceiveSrcAddrFromRouterSolicit ::
  "recv_answer list \<Rightarrow> ('z cheap_scheme, in6_addr) cm" where
  "ReceiveSrcAddrFromRouterSolicit answers =
     bindc (stack_alloc (replicate 1500 Undef)) (\<lambda>recBuf.
     bindc (rs_loop recBuf answers 0) (\<lambda>addr.
     thenc (stack_free recBuf) (ret addr)))"

section \<open>Printing memory\<close>

definition hex_digit :: "nat \<Rightarrow> char" where
  "hex_digit d = char_of (if d < 10 then 48 + d else 55 + d)"

definition hex_byte :: "u8 \<Rightarrow> string" where
  "hex_byte b = [hex_digit (unat b div 16), hex_digit (unat b mod 16)]"

primrec hex_loop :: "ptr \<Rightarrow> u64 \<Rightarrow> nat \<Rightarrow> nat \<Rightarrow> ('z cheap_scheme, string) cm" where
  "hex_loop mem sz i 0 = ret []"
| "hex_loop mem sz i (Suc n) =
     bindc (load8 (ptr_add mem i)) (\<lambda>b.
     bindc (hex_loop mem sz (Suc i) n) (\<lambda>rest.
     ret (hex_byte b @ (if of_nat i < sz - 1 then '' '' else []) @ rest)))"

definition print_memory_hex :: "ptr \<Rightarrow> u64 \<Rightarrow> ('z world_scheme, unit) cm" where
  "print_memory_hex mem sz =
     bindc (hex_loop mem sz 0 (unat sz)) (\<lambda>text. sys (Printed (text @ [CHR 0x0A])))"

section \<open>One DHCPv6 exchange\<close>

text \<open>
  \<open>clock\<close> and \<open>rng\<close> as in the Solicit builder; \<open>sendto\<close> is the result of sending and
  \<open>recv\<close> the reply received, \<open>None\<close> when \<open>recvfrom\<close> fails. The value is \<open>None\<close> when the
  process exits. The two conversions of pointers at the end step over the headers of the
  prefix delegation and of the option in it, which the program takes for an IA Prefix.
\<close>

definition dhcp_solicit ::
  "(u64 \<times> u64) option \<Rightarrow> (u32 \<Rightarrow> u64) \<Rightarrow> ptr \<Rightarrow> ('z cheap_scheme, (ptr \<times> u64) option) cm" where
  "dhcp_solicit clock rng id' =
     bindc (dh_createOption_ClientIdentifier_En 4107 id' 4) (\<lambda>clientId.
     if clientId = Null then ret None else
     bindc (dh_createOption_ElapsedTime 0) (\<lambda>esTime.
     if esTime = Null then ret None else
     bindc (dh_createOption_IA_PD 0x0d0007021 Null 0) (\<lambda>IA_Prefix.
     if IA_Prefix = Null then ret None else
     bindc dh_createOption_RapidCommit (\<lambda>rapid.
     if rapid = Null then ret None else
     bindc (dh_CreateCustomizedSolicitPacket clock rng Null clientId esTime IA_Prefix 1 [rapid])
       (\<lambda>(pktPtr, pktLength).
     thenc (free clientId) (
     thenc (free esTime) (
     thenc (free IA_Prefix) (
     thenc (free rapid) (
     ret (Some (pktPtr, pktLength)))))))))))"

definition dhcp_take_prefix :: "int \<Rightarrow> ptr \<Rightarrow> dh_parsedOptions \<Rightarrow> ('z world_scheme, unit) cm" where
  "dhcp_take_prefix handler prefixResultPtr parsed =
     bindc (load_ptr (node_value (IA_PDList parsed))) (\<lambda>pd.
     let pdData = dh_OptionData pd;
         pdOption = ptr_add pdData 12;
         prefix = dh_OptionData pdOption
     in
     thenc (memcpy prefixResultPtr prefix sizeof_dh_opt_IA_Prefix)
       (sys (Close handler)))"

definition dhcp_receive ::
  "u8 list option \<Rightarrow> int \<Rightarrow> ptr \<Rightarrow> u64 \<Rightarrow> ptr \<Rightarrow> ('z world_scheme, unit) cm" where
  "dhcp_receive recv handler buffer bufferLength prefixResultPtr =
     bindc (case recv of
         None \<Rightarrow> ret (-1)
       | Some datagram \<Rightarrow>
           let received = take (unat bufferLength) datagram in
           thenc (store_raw buffer (map Byte received)) (ret (of_nat (length received)))) (\<lambda>recLen.
     thenc (print_memory_hex buffer recLen) (
     thenc (load_raw buffer 4) (
     bindc (dh_parseOptions buffer recLen) (dhcp_take_prefix handler prefixResultPtr))))"

definition requestAndReceiveDhcp ::
  "(u64 \<times> u64) option \<Rightarrow> (u32 \<Rightarrow> u64) \<Rightarrow> int \<Rightarrow> u8 list option \<Rightarrow> int \<Rightarrow> ptr \<Rightarrow> u64 \<Rightarrow> ptr
    \<Rightarrow> ('z world_scheme, int option) cm" where
  "requestAndReceiveDhcp clock rng sendto recv handler buffer bufferLength prefixResultPtr =
     bindc (stack_alloc (map Byte [0x0d, 0x00, 0x07, 0x21])) (\<lambda>id'.
     bindc (dhcp_solicit clock rng id') (\<lambda>solicit.
     case solicit of
       None \<Rightarrow> ret None
     | Some (pktPtr, pktLength) \<Rightarrow>
         thenc (print_memory_hex pktPtr pktLength) (
         bindc (load_raw pktPtr (unat pktLength)) (\<lambda>payload.
         if sendto < 0 then
           thenc (sys (Close handler)) (
           thenc (stack_free id') (
           ret (Some 1)))
         else
           thenc (sys (Send_Udp handler (htobe_inet6 ADDR_All_DHCP_Relay_Agents_and_Servers)
             SERVER_PORT payload)) (
           thenc (dhcp_receive recv handler buffer bufferLength prefixResultPtr) (
           thenc (stack_free id') (
           ret (Some 0))))))))"

section \<open>The Solicit message of the daemon\<close>

definition solicit_opts :: "dh_option list" where
  "solicit_opts =
    [(DHCPv6_OPTION_CLIENTID, map Byte (be_bytes 2 (2::u16) @ be_bytes 4 (4107::u32) @ [0x0d, 0x00, 0x07, 0x21])),
     (DHCPv6_OPTION_ELAPSED_TIME, map Byte [0, 0]),
     (DHCPv6_OPTION_IA_PD, map Byte (be_bytes 4 (0xd0007021::u32) @ replicate 8 0)),
     (DHCPv6_OPTION_RAPID_COMMIT, [])]"

definition solicit_bytes :: "dh_pkt_TransactionId \<Rightarrow> u8 list" where
  "solicit_bytes transId = 1 # dh_pkt_TransactionId_bytes transId @
     be_bytes 2 DHCPv6_OPTION_CLIENTID @ be_bytes 2 (10::u16) @
       be_bytes 2 (2::u16) @ be_bytes 4 (4107::u32) @ [0x0d, 0x00, 0x07, 0x21] @
     be_bytes 2 DHCPv6_OPTION_ELAPSED_TIME @ be_bytes 2 (2::u16) @ [0, 0] @
     be_bytes 2 DHCPv6_OPTION_IA_PD @ be_bytes 2 (12::u16) @ be_bytes 4 (0xd0007021::u32) @ replicate 8 0 @
     be_bytes 2 DHCPv6_OPTION_RAPID_COMMIT @ be_bytes 2 (0::u16)"

lemma solicit_wire: "dh_wire_packet 1 transId solicit_opts = map Byte (solicit_bytes transId)"
  by (simp add: dh_wire_packet_def solicit_opts_def solicit_bytes_def)

lemma length_solicit_bytes [simp]: "length (solicit_bytes transId) = 44"
  by (simp add: solicit_bytes_def dh_pkt_TransactionId_bytes_def)

lemma size_solicit_opts [simp]: "dh_size solicit_opts = 40"
  by (simp add: solicit_opts_def)

definition solicit_object :: "nat \<Rightarrow> mval list" where
  "solicit_object i = dh_host_option (solicit_opts ! i)"

lemma length_solicit_object [simp]:
  "length (solicit_object 0) = 14" "length (solicit_object (Suc 0)) = 6"
  "length (solicit_object 2) = 16" "length (solicit_object 3) = 4"
  by (simp_all add: solicit_object_def solicit_opts_def numeral_2_eq_2 numeral_3_eq_3)

text \<open>The heap with the four option objects, and the one the exchange leaves: of its six blocks
  the array of pointers and the packet remain.\<close>

definition solicit_objects :: "'z cheap_scheme \<Rightarrow> 'z cheap_scheme" where
  "solicit_objects w = push_block (solicit_object 3) (push_block (solicit_object 2)
     (push_block (solicit_object (Suc 0)) (push_block (solicit_object 0) w)))"

definition solicit_array :: "nat \<Rightarrow> ptr list" where
  "solicit_array nb = [Ptr nb 0, Ptr (nb + 1) 0, Ptr (nb + 2) 0, Ptr (nb + 3) 0]"

definition after_solicit :: "dh_pkt_TransactionId \<Rightarrow> 'z cheap_scheme \<Rightarrow> 'z cheap_scheme" where
  "after_solicit transId w = (let nb = next_block w in
     release (nb + 3) 4 (release (nb + 2) 16 (release (nb + 1) 6 (release nb 14
       (push_block (map Byte (solicit_bytes transId))
         (push_block (concat (map ptr_enc (solicit_array nb))) (solicit_objects w)))))))"

lemma solicit_objects_hold:
  "list_all2 (dh_holds (solicit_objects w)) (solicit_array (next_block w)) solicit_opts"
  by (simp add: solicit_objects_def solicit_array_def solicit_opts_def dh_holds_def
      solicit_object_def numeral_2_eq_2 numeral_3_eq_3)

lemma dhcp_options_run:
  assumes id: "readable id' 4 w" "peek id' 4 w = map Byte [0x0d, 0x00, 0x07, 0x21]" and mem: "40 \<le> avail w"
  shows "dh_createOption_ClientIdentifier_En 4107 id' 4 w =
      Inr (Ptr (next_block w) 0, push_block (solicit_object 0) w)"
    and "dh_createOption_ElapsedTime 0 (push_block (solicit_object 0) w) =
      Inr (Ptr (next_block w + 1) 0, push_block (solicit_object (Suc 0)) (push_block (solicit_object 0) w))"
    and "dh_createOption_IA_PD 0x0d0007021 Null 0
        (push_block (solicit_object (Suc 0)) (push_block (solicit_object 0) w)) =
      Inr (Ptr (next_block w + 2) 0, push_block (solicit_object 2)
        (push_block (solicit_object (Suc 0)) (push_block (solicit_object 0) w)))"
    and "dh_createOption_RapidCommit (push_block (solicit_object 2)
        (push_block (solicit_object (Suc 0)) (push_block (solicit_object 0) w))) =
      Inr (Ptr (next_block w + 3) 0, solicit_objects w)"
proof -
  have "solicit_object 0 = dh_object DHCPv6_OPTION_CLIENTID (dh_client_en 4107 (peek id' 4 w))"
    by (simp add: id(2) solicit_object_def solicit_opts_def dh_client_en_def)
  then show "dh_createOption_ClientIdentifier_En 4107 id' 4 w =
      Inr (Ptr (next_block w) 0, push_block (solicit_object 0) w)"
    using dh_ClientIdentifier_run [of id' 4 w 4107] id mem by simp
  have "solicit_object (Suc 0) = dh_object DHCPv6_OPTION_ELAPSED_TIME
      (map Byte (dh_opt_ElapsedTime_bytes \<lparr>ElapsedTime = htobe16 0\<rparr>))"
    by (simp add: solicit_object_def solicit_opts_def wire_simps)
  then show "dh_createOption_ElapsedTime 0 (push_block (solicit_object 0) w) =
      Inr (Ptr (next_block w + 1) 0, push_block (solicit_object (Suc 0)) (push_block (solicit_object 0) w))"
    using mem by (simp add: dh_ElapsedTime_run)
  have "solicit_object 2 = dh_object DHCPv6_OPTION_IA_PD (map Byte
      (dh_opt_IA_PD_bytes \<lparr>IA_id = htobe32 0xd0007021, Time1 = 0, Time2 = 0\<rparr>))"
    by (simp add: solicit_object_def solicit_opts_def wire_simps numeral_2_eq_2 numeral_3_eq_3)
  then show "dh_createOption_IA_PD 0x0d0007021 Null 0
        (push_block (solicit_object (Suc 0)) (push_block (solicit_object 0) w)) =
      Inr (Ptr (next_block w + 2) 0, push_block (solicit_object 2)
        (push_block (solicit_object (Suc 0)) (push_block (solicit_object 0) w)))"
    using mem by (simp add: dh_IA_PD_run)
  have "solicit_object 3 = dh_object DHCPv6_OPTION_RAPID_COMMIT []"
    by (simp add: solicit_object_def solicit_opts_def numeral_3_eq_3)
  then show "dh_createOption_RapidCommit (push_block (solicit_object 2)
        (push_block (solicit_object (Suc 0)) (push_block (solicit_object 0) w))) =
      Inr (Ptr (next_block w + 3) 0, solicit_objects w)"
    using mem by (simp add: dh_RapidCommit_run solicit_objects_def)
qed

lemma solicit_objects_fields:
  "next_block (solicit_objects w) = next_block w + 4"
  "b < next_block w \<Longrightarrow> blocks (solicit_objects w) b = blocks w b"
  "blocks (solicit_objects w) (next_block w) = Some (solicit_object 0)"
  "blocks (solicit_objects w) (Suc (next_block w)) = Some (solicit_object (Suc 0))"
  "blocks (solicit_objects w) (Suc (Suc (next_block w))) = Some (solicit_object 2)"
  "blocks (solicit_objects w) (next_block w + 3) = Some (solicit_object 3)"
  by (simp_all add: solicit_objects_def)

lemma dhcp_solicit_run:
  assumes id: "readable id' 4 w" "peek id' 4 w = map Byte [0x0d, 0x00, 0x07, 0x21]"
    and mem: "116 \<le> avail w"
  shows "dhcp_solicit (Some (sec, nsec)) rng id' w = Inr (Some (Ptr (next_block w + 5) 0, 44),
    after_solicit (dh_transId_of_random (rng (ucast (nsec XOR sec)))) w)"
proof -
  let ?nb = "next_block w" and ?t = "dh_transId_of_random (rng (ucast (nsec XOR sec)))"
  let ?w = "push_block (map Byte (solicit_bytes ?t))
    (push_block (concat (map ptr_enc (solicit_array ?nb))) (solicit_objects w))"
  have av: "avail (solicit_objects w) = avail w - 40"
    using mem by (simp add: solicit_objects_def)
  have "dh_CreateCustomizedSolicitPacket (Some (sec, nsec)) rng Null (Ptr ?nb 0) (Ptr (?nb + 1) 0)
      (Ptr (?nb + 2) 0) 1 [Ptr (?nb + 3) 0] (solicit_objects w) =
    Inr ((Ptr (?nb + 5) 0, 44), ?w)"
    using dh_solicit_run [OF solicit_objects_hold [unfolded solicit_array_def], of 1 w sec nsec rng Null]
      mem av
    by (simp add: solicit_objects_fields solicit_wire solicit_array_def)
  moreover have "free (Ptr ?nb 0) ?w = Inr ((), release ?nb 14 ?w)"
    "free (Ptr (?nb + 1) 0) (release ?nb 14 ?w) = Inr ((), release (?nb + 1) 6 (release ?nb 14 ?w))"
    "free (Ptr (?nb + 2) 0) (release (?nb + 1) 6 (release ?nb 14 ?w)) =
      Inr ((), release (?nb + 2) 16 (release (?nb + 1) 6 (release ?nb 14 ?w)))"
    "free (Ptr (?nb + 3) 0) (release (?nb + 2) 16 (release (?nb + 1) 6 (release ?nb 14 ?w))) =
      Inr ((), after_solicit ?t w)"
    by (simp_all add: free_run solicit_objects_fields after_solicit_def Let_def)
  ultimately show ?thesis
    using dhcp_options_run [OF id] mem
    by (simp add: dhcp_solicit_def bindc_apply thenc_apply ret_apply)
qed

lemma after_solicit_fields:
  assumes "44 \<le> avail w" and "116 \<le> avail w"
  shows "next_block (after_solicit t w) = next_block w + 6"
    and "avail (after_solicit t w) = avail w - 76"
    and "placed (after_solicit t w) = placed w"
    and "b < next_block w \<Longrightarrow> blocks (after_solicit t w) b = blocks w b"
    and "blocks (after_solicit t w) (next_block w + 5) = Some (map Byte (solicit_bytes t))"
  using assms
  by (simp_all add: after_solicit_def Let_def solicit_objects_def solicit_array_def)

lemma after_solicit_world [simp]:
  "trace (after_solicit t w) = trace w" "prefix_ptr (after_solicit t w) = prefix_ptr w"
  "utils_handler (after_solicit t w) = utils_handler w"
  "utils_request (after_solicit t w) = utils_request w"
  "Thread_sendRouterAdv_cancel (after_solicit t w) = Thread_sendRouterAdv_cancel w"
  "Thread_requestDhcpPrefix_cancel (after_solicit t w) = Thread_requestDhcpPrefix_cancel w"
  "Thread_listenRouterSolicit_cancel (after_solicit t w) = Thread_listenRouterSolicit_cancel w"
  by (simp_all add: after_solicit_def Let_def solicit_objects_def)

lemma heap_wf_after_solicit: "heap_wf w \<Longrightarrow> heap_wf (after_solicit t w)"
  by (simp add: after_solicit_def Let_def solicit_objects_def)

section \<open>Dumping memory\<close>

lemma hex_loop_run:
  assumes "blocks h b = Some (map Byte bs)" and "k + i + n \<le> length bs"
  shows "\<exists>out. hex_loop (Ptr b k) sz i n h = Inr (out, h)"
  using assms(2)
proof (induction n arbitrary: i)
  case 0
  then show ?case by (simp add: cm_simps)
next
  case (Suc n)
  have "k + i + 1 \<le> length bs" using Suc.prems by simp
  then have "load8 (ptr_add (Ptr b k) i) h = Inr (from_le (segment (k + i) 1 bs), h)"
    using assms(1) by (simp add: cm_simps flip: map_segment)
  moreover obtain out where "hex_loop (Ptr b k) sz (Suc i) n h = Inr (out, h)"
    using Suc.IH [of "Suc i"] Suc.prems by auto
  ultimately show ?case by (simp add: bindc_apply ret_apply)
qed

text \<open>Reading on past the end of the object.\<close>

lemma hex_loop_overrun:
  assumes "blocks h b = Some (map Byte bs)" and "k + i \<le> length bs" and "length bs < k + i + n"
  shows "hex_loop (Ptr b k) sz i n h = Inl OutOfBounds"
  using assms(2,3)
proof (induction n arbitrary: i)
  case 0
  then show ?case by simp
next
  case (Suc n)
  show ?case
  proof (cases "k + i = length bs")
    case True
    then show ?thesis using assms(1) by (simp add: cm_simps)
  next
    case False
    then have "k + i + 1 \<le> length bs" using Suc.prems by simp
    then have "load8 (ptr_add (Ptr b k) i) h = Inr (from_le (segment (k + i) 1 bs), h)"
      using assms(1) by (simp add: cm_simps flip: map_segment)
    moreover have "hex_loop (Ptr b k) sz (Suc i) n h = Inl OutOfBounds"
      using Suc.IH [of "Suc i"] Suc.prems False by simp
    ultimately show ?thesis by (simp add: bindc_apply)
  qed
qed

lemma print_memory_hex_run:
  assumes "blocks w b = Some (map Byte bs)" and "k + unat sz \<le> length bs"
  shows "\<exists>out. print_memory_hex (Ptr b k) sz w = Inr ((), w\<lparr>trace := trace w @ [Printed out]\<rparr>)"
proof -
  obtain out where "hex_loop (Ptr b k) sz 0 (unat sz) w = Inr (out, w)"
    using hex_loop_run [OF assms(1), of k 0 "unat sz" sz] assms(2) by auto
  then show ?thesis
    by (intro exI [of _ "out @ [CHR 0x0A]"]) (simp add: print_memory_hex_def bindc_apply sys_apply)
qed

section \<open>Receiving the reply\<close>

lemma dh_occurrences_block: "p \<in> set (dh_occurrences c b k opts) \<Longrightarrow> \<exists>j. p = Ptr b j"
  by (induction c b k opts rule: dh_occurrences.induct) (auto split: if_splits)

text \<open>The first node of the result's list.\<close>

lemma ia_rep_first:
  assumes "ia_rep N h p (v # vs)"
  shows "load_ptr (node_value p) h = Inr (v, h)"
  using assms
  by (auto simp: ia_rep_def Cons_eq_map_conv cm_simps segment_def ptr_t.dec_enc)

lemma segment_segment:
  assumes "j + n \<le> m"
  shows "segment j n (segment k m vs) = segment (k + j) n vs"
  using assms by (simp add: segment_def drop_take min_def add.commute)

text \<open>The prefix inside a prefix delegation, past the three fields of the delegation and the
  header of its first option.\<close>

lemma dh_at_prefix:
  assumes at: "dh_at h c (Ptr b j) (map Byte data)" and len: "41 \<le> length data"
  shows "load_raw (ptr_add (Ptr b j) 20) 25 h = Inr (map Byte (segment 16 25 data), h)"
proof -
  obtain vs where vs: "blocks h b = Some vs" "j + (4 + length data) \<le> length vs"
    "segment j (4 + length data) vs = dh_object c (map Byte data)"
    using at by (auto simp: dh_at_def cm_simps split: option.splits if_splits)
  have "segment (j + 20) 25 vs = segment 20 25 (dh_object c (map Byte data))"
    using segment_segment [of 20 25 "4 + length data" j vs] len vs(3) by simp
  also have "\<dots> = map Byte (segment 16 25 data)"
    by (simp add: dh_object_def segment_def take_map drop_map)
  finally show ?thesis using vs len by (simp add: cm_simps)
qed

text \<open>The parser leaves a buffer of bytes one of bytes.\<close>

lemma dh_host_bytes:
  assumes "map Byte bs = concat (map dh_wire_option opts)"
  shows "\<exists>cs. concat (map dh_host_option opts) = map Byte cs \<and> length cs = length bs"
  using assms
proof (induction opts arbitrary: bs)
  case Nil
  then show ?case by simp
next
  case (Cons opt opts)
  obtain c vs where opt: "opt = (c, vs)" by (cases opt)
  let ?header = "be_bytes 2 c @ be_bytes 2 (of_nat (length vs) :: u16)"
  have "map Byte bs = map Byte ?header @ (vs @ concat (map dh_wire_option opts))"
    using Cons.prems by (simp add: opt)
  then obtain as rest where as: "bs = as @ rest" "map Byte ?header = map Byte as"
    "vs @ concat (map dh_wire_option opts) = map Byte rest"
    by (auto simp only: map_eq_append_conv)
  obtain ds es where es: "rest = ds @ es" "vs = map Byte ds" "concat (map dh_wire_option opts) = map Byte es"
    using as(3) [symmetric] by (auto simp only: map_eq_append_conv)
  have bs: "bs = as @ ds @ es" "length as = 4" "map Byte ds = vs"
    "map Byte es = concat (map dh_wire_option opts)"
    using as(1) es arg_cong [OF as(2), of length] by simp_all
  obtain cs where cs: "concat (map dh_host_option opts) = map Byte cs" "length cs = length es"
    using Cons.IH [OF bs(4)] by blast
  have "dh_host_option opt = map Byte (le_bytes 2 c @ le_bytes 2 (of_nat (length vs) :: u16) @ ds)"
    by (simp add: opt dh_object_def bs(3))
  then show ?case using bs(1,2) cs
    by (intro exI [of _ "(le_bytes 2 c @ le_bytes 2 (of_nat (length vs) :: u16) @ ds) @ cs"]) simp
qed

lemma parsed_buffer_bytes:
  assumes "map Byte datagram = dh_wire_packet ty transId opts" and "length datagram \<le> length buf"
    and "blocks h bb = Some (map Byte (ty # dh_pkt_TransactionId_bytes transId) @
      concat (map dh_host_option opts) @ map Byte (drop (length datagram) buf))"
  shows "\<exists>buf'. blocks h bb = Some (map Byte buf') \<and> length buf' = length buf"
proof -
  have "map Byte (drop 4 datagram) = concat (map dh_wire_option opts)"
    using arg_cong [OF assms(1), of "drop 4"]
    by (simp add: drop_map dh_wire_packet_def dh_pkt_TransactionId_bytes_def)
  then obtain cs where "concat (map dh_host_option opts) = map Byte cs" "length cs = length (drop 4 datagram)"
    using dh_host_bytes by blast
  moreover have "4 \<le> length datagram"
    using arg_cong [OF assms(1), of length] by (simp add: dh_wire_packet_def dh_pkt_TransactionId_bytes_def)
  ultimately show ?thesis using assms(2,3)
    by (intro exI [of _ "(ty # dh_pkt_TransactionId_bytes transId) @ cs @ drop (length datagram) buf"])
      (simp add: dh_pkt_TransactionId_bytes_def)
qed

text \<open>Up to the call of the parser: the reply is in the buffer and has been dumped.\<close>

lemma dhcp_receive_until_parse:
  fixes w :: "'z world_scheme" and bufferLength :: u64
  assumes wf: "heap_wf w"
    and buf: "blocks w bb = Some (map Byte buf)" "unat bufferLength = length buf"
    and msg: "map Byte datagram = dh_wire_packet ty transId opts" "length datagram \<le> length buf"
    and addr: "unat (placed w bb) + length datagram < 18446744073709551616"
  shows "\<exists>w2 out. dhcp_receive (Some datagram) handler (Ptr bb 0) bufferLength dst w =
      bindc (dh_parseOptions (Ptr bb 0) (of_nat (4 + dh_size opts))) (dhcp_take_prefix handler dst) w2 \<and>
    blocks w2 bb = Some (dh_wire_packet ty transId opts @ map Byte (drop (length datagram) buf)) \<and>
    trace w2 = trace w @ [Printed out] \<and> world_keeps {bb} w w2 \<and> next_block w2 = next_block w \<and>
    avail w2 = avail w \<and> length datagram = 4 + dh_size opts"
proof -
  have len: "length datagram = 4 + dh_size opts"
    using arg_cong [OF msg(1), of length]
    by (simp add: dh_wire_packet_def length_dh_wire_options dh_pkt_TransactionId_bytes_def)
  let ?bs = "datagram @ drop (length datagram) buf"
  let ?w1 = "set_block bb (map Byte ?bs) w"
  have bb: "bb < next_block w" using wf buf by (auto simp: heap_wf_def)
  have st: "store_raw (Ptr bb 0) (map Byte datagram) w = Inr ((), ?w1)"
    using buf msg(2) by (simp add: cm_simps patch_def drop_map)
  have rl: "unat (of_nat (length datagram) :: u64) = length datagram"
    using addr by (simp add: unat_of_nat)
  obtain out where pr: "print_memory_hex (Ptr bb 0) (of_nat (length datagram)) ?w1 =
      Inr ((), ?w1\<lparr>trace := trace w @ [Printed out]\<rparr>)"
    using print_memory_hex_run [of ?w1 bb ?bs 0 "of_nat (length datagram)"] rl by auto
  define w2 where "w2 = ?w1\<lparr>trace := trace w @ [Printed out]\<rparr>"
  have "load_raw (Ptr bb 0) 4 w2 = Inr (segment 0 4 (map Byte ?bs), w2)"
    using len by (simp add: load_raw_simps w2_def)
  then have "dhcp_receive (Some datagram) handler (Ptr bb 0) bufferLength dst w =
      bindc (dh_parseOptions (Ptr bb 0) (of_nat (4 + dh_size opts))) (dhcp_take_prefix handler dst) w2"
    unfolding len [symmetric] using st pr [folded w2_def] msg(2) buf(2)
    by (simp add: dhcp_receive_def bindc_apply thenc_apply ret_apply Let_def)
  moreover have "world_keeps {bb} w w2"
    unfolding w2_def by (rule world_keeps_trans [OF world_keeps_set_block world_keeps_basic(1)]) (use bb in simp_all)
  moreover have "blocks w2 bb = Some (dh_wire_packet ty transId opts @ map Byte (drop (length datagram) buf))"
    "trace w2 = trace w @ [Printed out]" "next_block w2 = next_block w" "avail w2 = avail w"
    by (simp_all add: w2_def msg(1))
  ultimately show ?thesis using len by blast
qed

text \<open>After it: the 25 bytes behind the first delegation's header go to the result.\<close>

lemma dhcp_take_prefix_run:
  fixes h :: "'z world_scheme"
  assumes "ia_rep N h (IA_PDList r) (Ptr bb j # ps)" and "dh_at h c (Ptr bb j) (map Byte data)"
    and "41 \<le> length data" and "blocks h pb = Some old" and "25 \<le> length old" and "pb \<noteq> bb"
  shows "dhcp_take_prefix handler (Ptr pb 0) r h = Inr ((),
    (set_block pb (map Byte (segment 16 25 data) @ drop 25 old) h)\<lparr>trace := trace h @ [Close handler]\<rparr>)"
proof -
  have first: "load_ptr (node_value (IA_PDList r)) h = Inr (Ptr bb j, h)"
    by (rule ia_rep_first [OF assms(1)])
  have prefix: "load_raw (Ptr bb (j + 20)) 25 h = Inr (map Byte (segment 16 25 data), h)"
    using dh_at_prefix [OF assms(2,3)] by simp
  then have cp: "memcpy (Ptr pb 0) (Ptr bb (j + 20)) 25 h =
      Inr ((), set_block pb (map Byte (segment 16 25 data) @ drop 25 old) h)"
    using assms(3-6) by (simp add: memcpy_apply store_raw_simps patch_def)
  show ?thesis
    using first cp [unfolded add.commute [of j]]
    by (simp add: dhcp_take_prefix_def bindc_apply thenc_apply ret_apply sys_apply Let_def
        sizeof_dh_opt_IA_Prefix_def)
qed

lemma dhcp_receive_run:
  fixes w :: "'z world_scheme" and bufferLength :: u64
  assumes wf: "heap_wf w"
    and buf: "blocks w bb = Some (map Byte buf)" "unat bufferLength = length buf"
    and msg: "map Byte datagram = dh_wire_packet ty transId opts" "length datagram \<le> length buf"
    and ty: "ty = dh_msgType_value dh_ADVERTISE \<or> ty = dh_msgType_value dh_REPLY"
    and opts: "opts \<noteq> []" "dh_sized opts"
    and pd: "dh_find DHCPv6_OPTION_IA_PD opts = map Byte data # rest" "41 \<le> length data"
    and addr: "unat (placed w bb) + length datagram < 18446744073709551616"
    and dst: "blocks w pb = Some old" "25 \<le> length old" "pb \<noteq> bb"
    and mem: "16 * length (dh_find DHCPv6_OPTION_IA_PD opts) \<le> avail w"
  shows "\<exists>w' out. dhcp_receive (Some datagram) handler (Ptr bb 0) bufferLength (Ptr pb 0) w = Inr ((), w') \<and>
    blocks w' pb = Some (map Byte (segment 16 25 data) @ drop 25 old) \<and>
    trace w' = trace w @ [Printed out, Close handler] \<and> world_keeps {bb, pb} w w' \<and>
    avail w' = avail w - 16 * length (dh_find DHCPv6_OPTION_IA_PD opts) \<and>
    (\<exists>buf'. blocks w' bb = Some (map Byte buf') \<and> length buf' = length buf)"
proof -
  have bb: "bb < next_block w" and pb: "pb < next_block w" using wf buf dst by (auto simp: heap_wf_def)
  let ?tail = "map Byte (drop (length datagram) buf)"
  obtain w2 out where w2: "dhcp_receive (Some datagram) handler (Ptr bb 0) bufferLength (Ptr pb 0) w =
      bindc (dh_parseOptions (Ptr bb 0) (of_nat (4 + dh_size opts))) (dhcp_take_prefix handler (Ptr pb 0)) w2"
    "blocks w2 bb = Some (dh_wire_packet ty transId opts @ ?tail)" "trace w2 = trace w @ [Printed out]"
    "world_keeps {bb} w w2" "next_block w2 = next_block w" "avail w2 = avail w" "length datagram = 4 + dh_size opts"
    using dhcp_receive_until_parse [OF wf buf msg addr, of handler "Ptr pb 0"] by blast
  have heap2: "heap_wf w2" "bb < next_block w2" "unat (placed w2 bb) + (4 + dh_size opts) < 18446744073709551616"
    "16 * length (dh_occurrences DHCPv6_OPTION_IA_PD bb 4 opts) \<le> avail w2"
    using w2(4-7) wf bb addr mem by (simp_all add: world_keeps_def length_dh_occurrences)
  obtain r h' where run: "dh_parseOptions (Ptr bb 0) (of_nat (4 + dh_size opts)) w2 = Inr (r, h')"
    "ia_rep (next_block w2) h' (IA_PDList r) (dh_occurrences DHCPv6_OPTION_IA_PD bb 4 opts)"
    "blocks h' bb = Some (map Byte (ty # dh_pkt_TransactionId_bytes transId) @
      concat (map dh_host_option opts) @ ?tail)"
    "\<forall>n < next_block w2. n \<noteq> bb \<longrightarrow> blocks h' n = blocks w2 n" "heap_wf h'" "next_block w2 \<le> next_block h'"
    "placed h' = placed w2" "avail h' = avail w2 - 16 * length (dh_occurrences DHCPv6_OPTION_IA_PD bb 4 opts)"
    using dh_parseOptions_wf [OF opts ty heap2(1,2) w2(2) heap2(3,4)] by blast
  note more = same_globals_more [OF heap_onlyD [OF heap_only_parseOptions run(1)]]
  have keeps: "world_keeps {bb} w h'"
    by (rule world_keeps_trans [OF w2(4)]) (use run(4-7) more(1) in \<open>simp add: world_keeps_def\<close>)
  have "list_all2 (dh_at h' DHCPv6_OPTION_IA_PD) (dh_occurrences DHCPv6_OPTION_IA_PD bb 4 opts)
      (map Byte data # rest)"
    using dh_occurrences_parsed [OF run(3), of DHCPv6_OPTION_IA_PD] pd(1) by simp
  then obtain p ps where ps: "dh_occurrences DHCPv6_OPTION_IA_PD bb 4 opts = p # ps"
    "dh_at h' DHCPv6_OPTION_IA_PD p (map Byte data)" by (auto simp: list_all2_Cons2)
  then obtain j where j: "p = Ptr bb j" using dh_occurrences_block [of p DHCPv6_OPTION_IA_PD bb 4 opts] by auto
  have old: "blocks h' pb = Some old" using world_keeps_blocks [OF keeps pb] dst by simp
  let ?w' = "(set_block pb (map Byte (segment 16 25 data) @ drop 25 old) h')\<lparr>trace := trace h' @ [Close handler]\<rparr>"
  have "dhcp_receive (Some datagram) handler (Ptr bb 0) bufferLength (Ptr pb 0) w = Inr ((), ?w')"
    using w2(1) run(1) dhcp_take_prefix_run [OF run(2) [unfolded ps(1) j] ps(2) [unfolded j] pd(2) old dst(2,3)]
    by (simp add: bindc_apply)
  moreover have "world_keeps {bb, pb} w ?w'"
    by (rule world_keeps_trans [OF world_keeps_trans [OF world_keeps_mono [OF keeps] world_keeps_set_block]
          world_keeps_basic(1)]) (use pb w2(5) run(6) in simp_all)
  moreover have "avail h' = avail w - 16 * length (dh_find DHCPv6_OPTION_IA_PD opts)"
    using run(8) w2(6) by (simp add: length_dh_occurrences)
  moreover have "\<exists>buf'. blocks h' bb = Some (map Byte buf') \<and> length buf' = length buf"
    by (rule parsed_buffer_bytes [OF msg run(3)])
  ultimately show ?thesis using more(2) w2(3) dst(3)
    by (intro exI [of _ ?w'] exI [of _ out] conjI) simp_all
qed

text \<open>When \<open>recvfrom\<close> fails its result -1 is the size of the dump, which runs off the buffer.\<close>

lemma dhcp_receive_failed:
  assumes "blocks w bb = Some (map Byte buf)" and "length buf < 18446744073709551615"
  shows "dhcp_receive None handler (Ptr bb 0) bufferLength dst w = Inl OutOfBounds"
proof -
  have "hex_loop (Ptr bb 0) (-1) 0 18446744073709551615 w = Inl OutOfBounds"
    by (rule hex_loop_overrun [OF assms(1)]) (use assms(2) in simp_all)
  moreover have "unat (- 1 :: u64) = 18446744073709551615"
    by (simp add: unsigned_minus_1_eq_mask mask_eq_exp_minus_1)
  ultimately show ?thesis
    by (simp add: dhcp_receive_def print_memory_hex_def bindc_apply thenc_apply ret_apply)
qed

section \<open>A whole exchange\<close>

lemma stack_alloc_run:
  "\<exists>w'. stack_alloc vs w = Inr (Ptr (next_block w) 0, w') \<and> next_block w' = Suc (next_block w) \<and>
     avail w' = avail w \<and> placed w' = placed w \<and> cheap.more w' = cheap.more w \<and>
     blocks w' = (blocks w)(next_block w \<mapsto> vs)"
  by (simp add: stack_alloc_def)

text \<open>Up to the call of \<open>sendto\<close>: the Solicit message is built and printed.\<close>

definition exchange_transId :: "u64 \<Rightarrow> u64 \<Rightarrow> (u32 \<Rightarrow> u64) \<Rightarrow> dh_pkt_TransactionId" where
  "exchange_transId sec nsec rng = dh_transId_of_random (rng (ucast (nsec XOR sec)))"

lemma exchange_until_send:
  fixes w :: "'z world_scheme"
  assumes mem: "116 \<le> avail w" and wf: "heap_wf w"
  shows "\<exists>out w1. requestAndReceiveDhcp (Some (sec, nsec)) rng sendto recv handler buffer n dst w =
      (if sendto < 0 then thenc (sys (Close handler)) (thenc (stack_free (Ptr (next_block w) 0)) (ret (Some 1)))
       else thenc (sys (Send_Udp handler all_dhcp_agents 547
           (map Byte (solicit_bytes (exchange_transId sec nsec rng))))) (
         thenc (dhcp_receive recv handler buffer n dst) (
         thenc (stack_free (Ptr (next_block w) 0)) (ret (Some 0))))) w1 \<and>
    trace w1 = trace w @ [Printed out] \<and> world_keeps {} w w1 \<and> avail w1 = avail w - 76"
proof -
  let ?t = "exchange_transId sec nsec rng"
  let ?id = "map Byte [0x0d, 0x00, 0x07, 0x21 :: u8]"
  obtain w0 where w0: "stack_alloc ?id w = Inr (Ptr (next_block w) 0, w0)"
    "next_block w0 = Suc (next_block w)" "avail w0 = avail w" "placed w0 = placed w"
    "cheap.more w0 = cheap.more w" "blocks w0 = (blocks w)(next_block w \<mapsto> ?id)"
    using stack_alloc_run by blast
  have id: "readable (Ptr (next_block w) 0) 4 w0" "peek (Ptr (next_block w) 0) 4 w0 = ?id"
    using w0 by (simp_all add: readable_Ptr peek_def segment_def)
  let ?a = "after_solicit ?t w0"
  have mem0: "116 \<le> avail w0" "44 \<le> avail w0" using mem w0(3) by simp_all
  note after = after_solicit_fields [OF mem0(2,1), where t = ?t]
  have sol: "dhcp_solicit (Some (sec, nsec)) rng (Ptr (next_block w) 0) w0 =
      Inr (Some (Ptr (next_block w0 + 5) 0, 44), ?a)"
    using dhcp_solicit_run [OF id mem0(1)] by (simp add: exchange_transId_def)
  obtain out where pr: "print_memory_hex (Ptr (next_block w0 + 5) 0) 44 ?a =
      Inr ((), ?a\<lparr>trace := trace ?a @ [Printed out]\<rparr>)"
    using print_memory_hex_run [OF after(5), of 0 44] by auto
  let ?w1 = "?a\<lparr>trace := trace ?a @ [Printed out]\<rparr>"
  have ld: "load_raw (Ptr (next_block w0 + 5) 0) 44 ?w1 = Inr (map Byte (solicit_bytes ?t), ?w1)"
    using after(5) by (simp add: load_raw_simps segment_all)
  have tr: "trace ?w1 = trace w @ [Printed out]" using same_globals_more(2) [OF w0(5)] by simp
  have "heap_wf w0" using wf w0(2,6) by (auto simp: heap_wf_def less_Suc_eq)
  then have wf1: "heap_wf ?w1" using heap_wf_after_solicit by (simp add: heap_wf_def)
  have "same_globals w ?w1"
    using same_globals_more(1) [OF w0(5)] by (simp add: same_globals_def)
  then have keeps: "world_keeps {} w ?w1"
    using after w0 wf1 by (simp add: world_keeps_def)
  have "requestAndReceiveDhcp (Some (sec, nsec)) rng sendto recv handler buffer n dst w =
      (if sendto < 0 then thenc (sys (Close handler)) (thenc (stack_free (Ptr (next_block w) 0)) (ret (Some 1)))
       else thenc (sys (Send_Udp handler all_dhcp_agents 547 (map Byte (solicit_bytes ?t)))) (
         thenc (dhcp_receive recv handler buffer n dst) (
         thenc (stack_free (Ptr (next_block w) 0)) (ret (Some 0))))) ?w1"
    using w0(1) sol pr ld
    by (simp add: requestAndReceiveDhcp_def bindc_apply [of "stack_alloc _"] bindc_apply [of "dhcp_solicit _ _ _"]
        bindc_apply [of "load_raw _ _"] thenc_apply [of "print_memory_hex _ _"] multicast_values SERVER_PORT_def)
  moreover have "avail ?w1 = avail w - 76" using after(2) w0(3) by simp
  ultimately show ?thesis using tr keeps by blast
qed

lemma ia_rep_empty: "ia_rep N h p [] \<Longrightarrow> p = Null"
  by (auto simp: ia_rep_def)

text \<open>A reply without a prefix delegation: the list of the result is NULL and is dereferenced.\<close>

lemma dhcp_receive_no_pd:
  fixes w :: "'z world_scheme" and bufferLength :: u64
  assumes wf: "heap_wf w"
    and buf: "blocks w bb = Some (map Byte buf)" "unat bufferLength = length buf"
    and msg: "map Byte datagram = dh_wire_packet ty transId opts" "length datagram \<le> length buf"
    and ty: "ty = dh_msgType_value dh_ADVERTISE \<or> ty = dh_msgType_value dh_REPLY"
    and opts: "opts \<noteq> []" "dh_sized opts" "dh_find DHCPv6_OPTION_IA_PD opts = []"
    and addr: "unat (placed w bb) + length datagram < 18446744073709551616"
  shows "dhcp_receive (Some datagram) handler (Ptr bb 0) bufferLength dst w = Inl NullDeref"
proof -
  have bb: "bb < next_block w" using wf buf by (auto simp: heap_wf_def)
  obtain w2 where w2: "dhcp_receive (Some datagram) handler (Ptr bb 0) bufferLength dst w =
      bindc (dh_parseOptions (Ptr bb 0) (of_nat (4 + dh_size opts))) (dhcp_take_prefix handler dst) w2"
    "blocks w2 bb = Some (dh_wire_packet ty transId opts @ map Byte (drop (length datagram) buf))"
    "world_keeps {bb} w w2" "next_block w2 = next_block w" "length datagram = 4 + dh_size opts"
    using dhcp_receive_until_parse [OF wf buf msg addr, of handler dst] by blast
  have heap2: "heap_wf w2" "bb < next_block w2" "unat (placed w2 bb) + (4 + dh_size opts) < 18446744073709551616"
    "16 * length (dh_find DHCPv6_OPTION_IA_PD opts) \<le> avail w2"
    using w2(3-5) wf bb addr by (simp_all add: world_keeps_def opts(3))
  obtain r h' where run: "dh_parseOptions (Ptr bb 0) (of_nat (4 + dh_size opts)) w2 = Inr (r, h')"
    and rep: "dh_represents (next_block w2) h' r opts"
    using dh_parseOptions_represents [OF opts(1,2) ty heap2(1,2) w2(2) heap2(3,4)] by blast
  have "IA_PDList r = Null" using rep opts(3) by (auto simp: dh_represents_def ia_rep_empty)
  then show ?thesis using w2(1) run by (simp add: bindc_apply dhcp_take_prefix_def cm_simps)
qed

text \<open>The whole exchange, when the server delegates a prefix and when sending fails.\<close>

lemma exchange_run:
  fixes w :: "'z world_scheme" and bufferLength :: u64
  assumes wf: "heap_wf w"
    and buf: "blocks w bb = Some (map Byte buf)" "unat bufferLength = length buf"
    and msg: "map Byte datagram = dh_wire_packet 7 transId opts" "length datagram \<le> length buf"
    and opts: "opts \<noteq> []" "dh_sized opts"
    and pd: "dh_find DHCPv6_OPTION_IA_PD opts = map Byte data # rest" "41 \<le> length data"
    and addr: "unat (placed w bb) + length datagram < 18446744073709551616"
    and dst: "blocks w pb = Some old" "25 \<le> length old" "pb \<noteq> bb"
    and mem: "116 + 16 * length (dh_find DHCPv6_OPTION_IA_PD opts) \<le> avail w" and send: "0 \<le> sendto"
  shows "\<exists>w' out out'. requestAndReceiveDhcp (Some (sec, nsec)) rng sendto (Some datagram) handler
      (Ptr bb 0) bufferLength (Ptr pb 0) w = Inr (Some 0, w') \<and>
    blocks w' pb = Some (map Byte (segment 16 25 data) @ drop 25 old) \<and>
    trace w' = trace w @ [Printed out,
      Send_Udp handler all_dhcp_agents 547 (map Byte (solicit_bytes (exchange_transId sec nsec rng))),
      Printed out', Close handler] \<and> world_keeps {bb, pb} w w' \<and>
    avail w' = avail w - 76 - 16 * length (dh_find DHCPv6_OPTION_IA_PD opts) \<and>
    (\<exists>buf'. blocks w' bb = Some (map Byte buf') \<and> length buf' = length buf)"
proof -
  let ?send = "Send_Udp handler all_dhcp_agents 547 (map Byte (solicit_bytes (exchange_transId sec nsec rng)))"
  have "116 \<le> avail w" using mem by simp
  then obtain out w1 where w1: "requestAndReceiveDhcp (Some (sec, nsec)) rng sendto (Some datagram) handler
      (Ptr bb 0) bufferLength (Ptr pb 0) w =
      thenc (sys ?send) (thenc (dhcp_receive (Some datagram) handler (Ptr bb 0) bufferLength (Ptr pb 0)) (
         thenc (stack_free (Ptr (next_block w) 0)) (ret (Some 0)))) w1"
    "trace w1 = trace w @ [Printed out]" "world_keeps {} w w1" "avail w1 = avail w - 76"
    using exchange_until_send [OF _ wf, of sec nsec rng sendto "Some datagram" handler
        "Ptr bb 0" bufferLength "Ptr pb 0"] send by auto
  define w2 where "w2 = w1\<lparr>trace := trace w1 @ [?send]\<rparr>"
  have keeps: "world_keeps {} w w2"
    unfolding w2_def by (rule world_keeps_trans [OF w1(3) world_keeps_basic(1)])
  have bb: "bb < next_block w" and pb: "pb < next_block w" using wf buf dst by (auto simp: heap_wf_def)
  have "heap_wf w2" "placed w2 = placed w" "next_block w \<le> next_block w2"
    using keeps wf by (simp_all add: world_keeps_def)
  moreover have "blocks w2 bb = Some (map Byte buf)" "blocks w2 pb = Some old"
    "16 * length (dh_find DHCPv6_OPTION_IA_PD opts) \<le> avail w2"
    using world_keeps_blocks [OF keeps] bb pb buf dst mem w1(4) by (simp_all add: w2_def)
  ultimately obtain w' out' where w': "dhcp_receive (Some datagram) handler (Ptr bb 0) bufferLength (Ptr pb 0) w2 =
      Inr ((), w')" "blocks w' pb = Some (map Byte (segment 16 25 data) @ drop 25 old)"
    "trace w' = trace w2 @ [Printed out', Close handler]" "world_keeps {bb, pb} w2 w'"
    "avail w' = avail w2 - 16 * length (dh_find DHCPv6_OPTION_IA_PD opts)"
    "\<exists>buf'. blocks w' bb = Some (map Byte buf') \<and> length buf' = length buf"
    using dhcp_receive_run [of w2 bb buf bufferLength datagram 7 transId opts data rest pb old handler]
      assms by auto
  let ?w' = "w'\<lparr>blocks := (blocks w')(next_block w := None)\<rparr>"
  have "requestAndReceiveDhcp (Some (sec, nsec)) rng sendto (Some datagram) handler
      (Ptr bb 0) bufferLength (Ptr pb 0) w = Inr (Some 0, ?w')"
    using w1(1) w'(1) by (simp add: thenc_apply sys_apply w2_def stack_free_def ret_apply)
  moreover have "world_keeps {bb, pb} w ?w'"
    by (rule world_keeps_drop [OF world_keeps_trans [OF world_keeps_mono [OF keeps] w'(4)]]) simp_all
  ultimately show ?thesis using w'(2,3,5,6) w1(2,4) pb bb
    by (intro exI [of _ ?w'] exI [of _ out] exI [of _ out'] conjI) (auto simp: w2_def)
qed

lemma exchange_send_failed_run:
  fixes w :: "'z world_scheme"
  assumes "heap_wf w" and "116 \<le> avail w" and "sendto < 0"
  shows "\<exists>w' out. requestAndReceiveDhcp (Some (sec, nsec)) rng sendto recv handler buffer n dst w =
      Inr (Some 1, w') \<and> trace w' = trace w @ [Printed out, Close handler] \<and>
    world_keeps {} w w' \<and> avail w' = avail w - 76"
proof -
  obtain out w1 where w1: "requestAndReceiveDhcp (Some (sec, nsec)) rng sendto recv handler buffer n dst w =
      thenc (sys (Close handler)) (thenc (stack_free (Ptr (next_block w) 0)) (ret (Some 1))) w1"
    "trace w1 = trace w @ [Printed out]" "world_keeps {} w w1" "avail w1 = avail w - 76"
    using exchange_until_send [OF assms(2,1), of sec nsec rng sendto recv handler buffer n dst] assms(3)
    by auto
  let ?w2 = "w1\<lparr>trace := trace w1 @ [Close handler]\<rparr>"
  let ?w' = "?w2\<lparr>blocks := (blocks ?w2)(next_block w := None)\<rparr>"
  have "world_keeps {} w ?w'"
    by (rule world_keeps_drop [OF world_keeps_trans [OF w1(3) world_keeps_basic(1)]]) simp
  moreover have "requestAndReceiveDhcp (Some (sec, nsec)) rng sendto recv handler buffer n dst w =
      Inr (Some 1, ?w')"
    using w1(1) by (simp add: thenc_apply sys_apply stack_free_def ret_apply)
  ultimately show ?thesis using w1(2,4) by (intro exI [of _ ?w'] exI [of _ out]) simp
qed

section \<open>Properties\<close>

text \<open>Sending a Router Advertisement. One datagram goes out, with hop limit 255; a receiver reads
  it as the advertisement of the prefix with the given lifetimes, a 56-bit route, an MTU of
  1500 and the sender's hardware address. Every earlier object is unchanged; of the memory
  used, the 16 bytes of the route option are not given back.\<close>

theorem router_adv_sent:
  fixes w :: "'z world_scheme"
  assumes "readable mac 6 w" and "peek mac 6 w = map Byte bs" and "144 \<le> avail w"
  shows "\<exists>w' packet. sendRouterAdv handler mac src dst prefix prefixLength validTime preferTime w =
      Inr (0, w') \<and>
    trace w' = trace w @ [Send_Raw handler dst 255 (map Byte packet)] \<and>
    ra_decode packet = Some (0, ra_of_prefix bs prefix prefixLength validTime preferTime) \<and>
    (\<forall>b < next_block w. blocks w' b = blocks w b) \<and> avail w' = avail w - 16"
  using sendRouterAdv_run [OF assms, of handler src dst prefix prefixLength validTime preferTime]
  by (elim exE conjE) (intro exI conjI; (assumption | rule world_keeps_frame))

theorem router_adv_sent_witness:
  "\<exists>w' packet. sendRouterAdv 4 (Ptr 0 0) 1 all_nodes 7 64 48000 24000
      (sample_world [map Byte [1, 2, 3, 4, 5, 6]] 144) = Inr (0, w') \<and>
    trace w' = [Send_Raw 4 all_nodes 255 (map Byte packet)] \<and>
    ra_decode packet = Some (0, ra_of_prefix [1, 2, 3, 4, 5, 6] 7 64 48000 24000)"
  using router_adv_sent [of "Ptr 0 0" "sample_world [map Byte [1, 2, 3, 4, 5, 6]] 144"
      "[1, 2, 3, 4, 5, 6]" 4 1 all_nodes 7 64 48000 24000]
  by (auto simp: readable_Ptr peek_def segment_def)

text \<open>C17: A whole DHCPv6 exchange. With a clock, memory and a reply that delegates a prefix, the
  daemon multicasts the Solicit message to the DHCPv6 agents' group, takes the 25 bytes of
  the first option of the first delegation for the prefix, stores them, and closes the socket.\<close>

theorem exchange_stores_prefix:
  fixes w :: "'z world_scheme" and bufferLength :: u64
  assumes "heap_wf w"
    and "blocks w bb = Some (map Byte buf)" and "unat bufferLength = length buf"
    and "map Byte datagram = dh_wire_packet 7 transId opts" and "length datagram \<le> length buf"
    and "opts \<noteq> []" and "dh_sized opts"
    and "dh_find DHCPv6_OPTION_IA_PD opts = map Byte data # rest" and "41 \<le> length data"
    and "unat (placed w bb) + length datagram < 18446744073709551616"
    and "blocks w pb = Some old" and "25 \<le> length old" and "pb \<noteq> bb"
    and "116 + 16 * length (dh_find DHCPv6_OPTION_IA_PD opts) \<le> avail w" and "0 \<le> sendto"
  shows "\<exists>w' out out'. requestAndReceiveDhcp (Some (sec, nsec)) rng sendto (Some datagram) handler
      (Ptr bb 0) bufferLength (Ptr pb 0) w = Inr (Some 0, w') \<and>
    blocks w' pb = Some (map Byte (segment 16 25 data) @ drop 25 old) \<and>
    trace w' = trace w @ [Printed out,
      Send_Udp handler all_dhcp_agents 547 (map Byte (solicit_bytes (exchange_transId sec nsec rng))),
      Printed out', Close handler]"
  using exchange_run [OF assms] by blast

text \<open>A Reply with one prefix delegation around one option, whose contents are all twos.\<close>

definition sample_delegation :: "u8 list" where
  "sample_delegation = replicate 16 1 @ replicate 25 2"

definition sample_reply_opts :: "dh_option list" where
  "sample_reply_opts = [(DHCPv6_OPTION_IA_PD, map Byte sample_delegation)]"

definition sample_reply :: "u8 list" where
  "sample_reply = 7 # dh_pkt_TransactionId_bytes sample_transId @ be_bytes 2 DHCPv6_OPTION_IA_PD @
     be_bytes 2 (41 :: u16) @ sample_delegation"

lemma sample_reply_facts:
  "map Byte sample_reply = dh_wire_packet 7 sample_transId sample_reply_opts"
  "length sample_reply = 49" "length sample_delegation = 41"
  "sample_reply_opts \<noteq> []" "dh_sized sample_reply_opts"
  "dh_find DHCPv6_OPTION_IA_PD sample_reply_opts = map Byte sample_delegation # []"
  "dh_find DHCPv6_OPTION_IA_PD sample_reply_opts = [map Byte sample_delegation]"
  "segment 16 25 sample_delegation = replicate 25 2"
  by (simp_all add: sample_reply_def sample_reply_opts_def sample_delegation_def dh_wire_packet_def
      dh_sized_def dh_find_def dh_pkt_TransactionId_bytes_def segment_def
      del: replicate_numeral_Cons)

definition exchange_world :: world where
  "exchange_world = sample_world [replicate 25 (Byte 0), map Byte (replicate 64 0)] 200"

lemma exchange_world_facts:
  "heap_wf exchange_world" "blocks exchange_world 1 = Some (map Byte (replicate 64 0))"
  "blocks exchange_world 0 = Some (replicate 25 (Byte 0))" "avail exchange_world = 200"
  "placed exchange_world b = 4096" "trace exchange_world = []" "next_block exchange_world = 2"
  by (simp_all add: exchange_world_def sample_world_def heap_wf_def del: replicate_numeral_Cons)

theorem exchange_stores_prefix_witness:
  "\<exists>w'. requestAndReceiveDhcp (Some (3, 5)) (\<lambda>_. 1) 0 (Some sample_reply) 9
      (Ptr 1 0) 64 (Ptr 0 0) exchange_world = Inr (Some 0, w') \<and>
    blocks w' 0 = Some (replicate 25 (Byte 2))"
  using exchange_stores_prefix [OF exchange_world_facts(1,2) _ sample_reply_facts(1) _
      sample_reply_facts(4-6) _ _ exchange_world_facts(3), of 64 0 3 5 "\<lambda>_. 1" 9]
  by (auto simp: sample_reply_facts exchange_world_facts simp del: replicate_numeral_Cons)

text \<open>When \<open>sendto\<close> fails the exchange reports 1 after closing the socket, and nothing the
  caller can see has changed, the stored prefix included.\<close>

theorem exchange_send_fails:
  fixes w :: "'z world_scheme"
  assumes "heap_wf w" and "116 \<le> avail w" and "sendto < 0"
  shows "\<exists>w' out. requestAndReceiveDhcp (Some (sec, nsec)) rng sendto recv handler buffer n dst w =
      Inr (Some 1, w') \<and> trace w' = trace w @ [Printed out, Close handler] \<and>
    (\<forall>b < next_block w. blocks w' b = blocks w b)"
  using exchange_send_failed_run [OF assms, of sec nsec rng recv handler buffer n dst]
  by (elim exE conjE) (intro exI conjI; (assumption | rule world_keeps_frame))

theorem exchange_send_fails_witness:
  "\<exists>w'. requestAndReceiveDhcp (Some (3, 5)) (\<lambda>_. 1) (-1) None 9 (Ptr 1 0) 64 (Ptr 0 0) exchange_world =
      Inr (Some 1, w') \<and> blocks w' 0 = Some (replicate 25 (Byte 0))"
  using exchange_send_fails [OF exchange_world_facts(1), of "-1" 3 5 "\<lambda>_. 1" None 9 "Ptr 1 0" 64 "Ptr 0 0"]
  by (auto simp: exchange_world_facts simp del: replicate_numeral_Cons)

text \<open>A Reply with well-formed options, none of them a prefix delegation.\<close>

definition reply_without_delegation :: "u8 list \<Rightarrow> bool" where
  "reply_without_delegation datagram \<longleftrightarrow> (\<exists>transId opts.
     map Byte datagram = dh_wire_packet 7 transId opts \<and> opts \<noteq> [] \<and> dh_sized opts \<and>
     dh_find DHCPv6_OPTION_IA_PD opts = [])"

text \<open>C36: When receiving fails, or the reply delegates no prefix, the exchange does not return an
  error: it reads beyond the receive buffer, or dereferences NULL.\<close>

theorem exchange_receive_fails:
  fixes w :: "'z world_scheme" and bufferLength :: u64
  assumes "heap_wf w" and "116 \<le> avail w" and "0 \<le> sendto"
    and "blocks w bb = Some (map Byte buf)" and "unat bufferLength = length buf"
    and "unat (placed w bb) + length buf < 18446744073709551615"
    and "recv = None \<or> (\<exists>datagram. recv = Some datagram \<and> length datagram \<le> length buf \<and>
      reply_without_delegation datagram)"
  shows "requestAndReceiveDhcp (Some (sec, nsec)) rng sendto recv handler (Ptr bb 0) bufferLength dst w =
    Inl (if recv = None then OutOfBounds else NullDeref)"
proof -
  obtain out w1 where w1: "requestAndReceiveDhcp (Some (sec, nsec)) rng sendto recv handler
      (Ptr bb 0) bufferLength dst w =
      thenc (sys (Send_Udp handler all_dhcp_agents 547
           (map Byte (solicit_bytes (exchange_transId sec nsec rng))))) (
         thenc (dhcp_receive recv handler (Ptr bb 0) bufferLength dst) (
         thenc (stack_free (Ptr (next_block w) 0)) (ret (Some 0)))) w1"
    "heap_wf w1" "placed w1 = placed w" "\<forall>b < next_block w. blocks w1 b = blocks w b"
    using exchange_until_send [OF assms(2,1), of sec nsec rng sendto recv handler
        "Ptr bb 0" bufferLength dst] assms(1,3) by (auto simp: world_keeps_def)
  define w2 where "w2 = w1\<lparr>trace := trace w1 @ [Send_Udp handler all_dhcp_agents 547
    (map Byte (solicit_bytes (exchange_transId sec nsec rng)))]\<rparr>"
  have bb: "bb < next_block w" using assms(1,4) by (auto simp: heap_wf_def)
  have w2: "heap_wf w2" "blocks w2 bb = Some (map Byte buf)" "placed w2 bb = placed w bb"
    using w1(2-4) bb assms(4) by (simp_all add: w2_def heap_wf_def)
  have "dhcp_receive recv handler (Ptr bb 0) bufferLength dst w2 =
      Inl (if recv = None then OutOfBounds else NullDeref)"
  proof (cases recv)
    case None
    then show ?thesis using dhcp_receive_failed [OF w2(2)] assms(6) by simp
  next
    case (Some datagram)
    then obtain transId opts where "length datagram \<le> length buf"
      "map Byte datagram = dh_wire_packet 7 transId opts" "opts \<noteq> []" "dh_sized opts"
      "dh_find DHCPv6_OPTION_IA_PD opts = []"
      using assms(7) by (auto simp: reply_without_delegation_def)
    then show ?thesis
      using dhcp_receive_no_pd [OF w2(1,2) assms(5), of datagram 7 transId opts handler dst]
        Some assms(6) w2(3) by simp
  qed
  then show ?thesis
    using w1(1) by (simp add: thenc_apply sys_apply w2_def)
qed

theorem exchange_receive_fails_witness:
  "requestAndReceiveDhcp (Some (3, 5)) (\<lambda>_. 1) 0 None 9 (Ptr 1 0) 64 (Ptr 0 0) exchange_world =
    Inl OutOfBounds"
  using exchange_receive_fails [OF exchange_world_facts(1) _ _ exchange_world_facts(2), of 0 64 None]
  by (simp add: exchange_world_facts del: replicate_numeral_Cons)

text \<open>A datagram of at least two bytes, and whether it is a Router Solicitation.\<close>

definition is_router_solicit :: "u8 list \<Rightarrow> bool" where
  "is_router_solicit datagram \<longleftrightarrow> take 2 datagram = [133, 0]"

lemma rs_loop_step:
  assumes blk: "blocks w b = Some vs" "length vs = 1500" and len: "2 \<le> length datagram"
  shows "\<exists>vs'. length vs' = 1500 \<and> rs_loop (Ptr b 0) (Some (datagram, source) # answers) addr w =
    (if is_router_solicit datagram then ret source else rs_loop (Ptr b 0) answers source) (set_block b vs' w)"
proof -
  obtain x y rest where d: "datagram = x # y # rest"
    using len by (cases datagram rule: remdups_adj.cases) auto
  let ?vs' = "patch 0 (map Byte (take 1500 datagram)) vs"
  have l: "length ?vs' = 1500" using blk(2) by simp
  have st: "store_raw (Ptr b 0) (map Byte (take 1500 datagram)) w = Inr ((), set_block b ?vs' w)"
    using blk by (simp add: store_raw_simps)
  have "?vs' = Byte x # Byte y # map Byte (take 1498 rest) @ drop (length (take 1500 datagram)) vs"
    by (simp add: d patch_def take_Cons')
  then have "load8 (Ptr b 0) (set_block b ?vs' w) = Inr (x, set_block b ?vs' w)"
    "load8 (Ptr b 1) (set_block b ?vs' w) = Inr (y, set_block b ?vs' w)"
    by (simp_all add: cm_simps segment_def int_dec_def)
  then show ?thesis using st l d
    by (intro exI [of _ ?vs']) (auto simp: is_router_solicit_def bindc_apply thenc_apply ret_apply)
qed

lemma rs_loop_run:
  assumes "blocks w b = Some vs" and "length vs = 1500"
    and "\<forall>(d, s) \<in> set skipped. 2 \<le> length d \<and> \<not> is_router_solicit d"
    and "is_router_solicit datagram"
  shows "\<exists>vs'. rs_loop (Ptr b 0) (map Some skipped @ Some (datagram, source) # answers) addr w =
    Inr (source, set_block b vs' w)"
  using assms(1-3)
proof (induction skipped arbitrary: w vs addr)
  case Nil
  have "2 \<le> length datagram"
    using assms(4) by (cases datagram rule: remdups_adj.cases) (auto simp: is_router_solicit_def)
  then show ?case
    using rs_loop_step [OF Nil(1,2), of datagram source answers addr] assms(4)
    by (auto simp: ret_apply)
next
  case (Cons x skipped)
  obtain d s where x: "x = (d, s)" by (cases x)
  have len: "2 \<le> length d" and no: "\<not> is_router_solicit d" using Cons.prems(3) x by auto
  let ?todo = "map Some skipped @ Some (datagram, source) # answers"
  obtain vs' where vs': "length vs' = 1500"
    "rs_loop (Ptr b 0) (Some (d, s) # ?todo) addr w = rs_loop (Ptr b 0) ?todo s (set_block b vs' w)"
    using rs_loop_step [OF Cons.prems(1,2) len, of s ?todo addr] no by auto
  obtain vs'' where "rs_loop (Ptr b 0) ?todo s (set_block b vs' w) =
      Inr (source, set_block b vs'' (set_block b vs' w))"
    using Cons.IH [of "set_block b vs' w" vs' s] vs'(1) Cons.prems(3) by auto
  then show ?case using vs'(2) x by auto
qed

lemma receive_solicit_run:
  fixes w :: "'z cheap_scheme"
  assumes "heap_wf w" and "\<forall>(d, s) \<in> set skipped. 2 \<le> length d \<and> \<not> is_router_solicit d"
    and "is_router_solicit datagram"
  shows "\<exists>w'. ReceiveSrcAddrFromRouterSolicit (map Some skipped @ Some (datagram, source) # answers) w =
      Inr (source, w') \<and> blocks w' = blocks w \<and> avail w' = avail w \<and> placed w' = placed w \<and>
    next_block w' = Suc (next_block w) \<and> cheap.more w' = cheap.more w"
proof -
  let ?nb = "next_block w"
  let ?w = "w\<lparr>blocks := (blocks w)(?nb \<mapsto> replicate 1500 Undef), next_block := Suc ?nb\<rparr>"
  have al: "stack_alloc (replicate 1500 Undef) w = Inr (Ptr ?nb 0, ?w)" by (simp add: stack_alloc_def)
  have b: "blocks ?w ?nb = Some (replicate 1500 Undef)" by simp
  have l: "length (replicate 1500 Undef) = 1500" by (rule length_replicate)
  obtain vs' where loop: "rs_loop (Ptr ?nb 0) (map Some skipped @ Some (datagram, source) # answers) 0 ?w =
      Inr (source, set_block ?nb vs' ?w)"
    using rs_loop_run [OF b l assms(2,3)] by blast
  show ?thesis
    by (simp add: heap_wf_upd_next [OF assms(1)] ReceiveSrcAddrFromRouterSolicit_def bindc_apply thenc_apply ret_apply al loop
        stack_free_def set_block_def del: replicate_numeral_Cons)
qed

text \<open>Waiting for a Router Solicitation: the datagrams that are none, of at least two bytes,
  are dropped, the address returned is the source of the first that is one, and the heap is
  as before.\<close>

theorem solicit_source_received:
  fixes w :: "'z cheap_scheme"
  assumes "heap_wf w" and "\<forall>(d, s) \<in> set skipped. 2 \<le> length d \<and> \<not> is_router_solicit d"
    and "is_router_solicit datagram"
  shows "\<exists>w'. ReceiveSrcAddrFromRouterSolicit (map Some skipped @ Some (datagram, source) # answers) w =
      Inr (source, w') \<and> blocks w' = blocks w \<and> avail w' = avail w"
  using receive_solicit_run [OF assms] by blast

theorem solicit_source_received_witness:
  "\<exists>w'. ReceiveSrcAddrFromRouterSolicit [Some ([134, 0, 9], 1), Some ([133, 5, 9], 2), Some ([133, 0, 7], 3)]
      (sample_heap [] 0) = Inr (3, w')"
  using solicit_source_received [of "sample_heap [] 0" "[([134, 0, 9], 1), ([133, 5, 9], 2)]" "[133, 0, 7]" 3 "[]"]
  by (auto simp: is_router_solicit_def)

end
