(* ===== verification/Daemon_Threads.thy ===== *)
theory Daemon_Threads
  imports Daemon
begin

text \<open>
  The bodies of the daemon's threads in \<open>Src/test.c\<close>, its signal handler and its start-up,
  each run on its own over the memory of the process; how the threads interleave is the
  subject of \<open>Prefix_Sharing\<close>. A round of a loop takes the answers of the system calls it
  makes as parameters. The calls that lock take the mutex by reference; the DHCPv6 thread
  passes it by value, which no compiler accepts and is read as the address.
\<close>

section \<open>The shared prefix\<close>

text \<open>The structure \<open>_prefix\<close> in memory, and reading a structure from its 25 bytes.\<close>

definition in6_dec :: "mval list \<Rightarrow> in6_addr option" where
  "in6_dec vs = map_option from_be (bytes_of vs)"

definition prefix_holds :: "'z world_scheme \<Rightarrow> dh_opt_IA_Prefix \<Rightarrow> bool" where
  "prefix_holds w r \<longleftrightarrow> (\<exists>pb. prefix_ptr w = Ptr pb 0 \<and> pb < next_block w \<and>
     blocks w pb = Some (map Byte (dh_opt_IA_Prefix_bytes r)))"

definition dh_opt_IA_Prefix_of :: "u8 list \<Rightarrow> dh_opt_IA_Prefix" where
  "dh_opt_IA_Prefix_of bs = \<lparr>PreferredLifetime = from_le (segment 0 4 bs),
     ValidLifetime = from_le (segment 4 4 bs), PrefixLength = bs ! 8, Prefix = from_be (segment 9 16 bs)\<rparr>"

lemma length_IA_Prefix_bytes [simp]: "length (dh_opt_IA_Prefix_bytes r) = 25"
  by (simp add: dh_opt_IA_Prefix_bytes_def)

lemma IA_Prefix_bytes_of:
  assumes "length bs = 25"
  shows "dh_opt_IA_Prefix_bytes (dh_opt_IA_Prefix_of bs) = bs"
proof -
  have "segment 0 4 bs @ segment 4 4 bs @ [bs ! 8] @ segment 9 16 bs = bs"
  proof -
    have "[bs ! 8] = segment 8 1 bs"
      using assms by (simp add: segment_def take_Suc_conv_app_nth hd_drop_conv_nth)
    then show ?thesis
      using assms segment_append_segment [of 0 4 "4 + (1 + 16)" bs] segment_append_segment [of 4 4 "1 + 16" bs]
        segment_append_segment [of 8 1 16 bs] segment_all [of 25 bs] by simp
  qed
  then show ?thesis using assms
    by (simp add: dh_opt_IA_Prefix_bytes_def dh_opt_IA_Prefix_of_def le_bytes_from_le in6_bytes_from_be)
qed

lemma in6_bytes_value [simp]: "from_be (in6_bytes a) = a"
  by (simp add: in6_bytes_def from_be_def be_bytes_def from_le_le_bytes take_bit_word_eq_self)

lemma prefix_loads:
  assumes "blocks w pb = Some (map Byte (dh_opt_IA_Prefix_bytes r))"
  shows "load32 (Ptr pb 0) w = Inr (PreferredLifetime r, w)"
    and "load32 (Ptr pb 4) w = Inr (ValidLifetime r, w)"
    and "load8 (Ptr pb 8) w = Inr (PrefixLength r, w)"
    and "load_as in6_dec 16 (Ptr pb 9) w = Inr (Prefix r, w)"
  using assms
  by (simp_all only: load_as_apply load_raw_simps option.case length_map length_IA_Prefix_bytes
      in6_dec_def dh_opt_IA_Prefix_bytes_def segment_def take_map drop_map int_dec_map_Byte)
    (simp_all add: take_map drop_map int_dec_def)

lemma prefix_stores:
  assumes "blocks w pb = Some (map Byte (dh_opt_IA_Prefix_bytes r))"
  shows "store32 (Ptr pb 0) x w =
      Inr ((), set_block pb (map Byte (dh_opt_IA_Prefix_bytes (r\<lparr>PreferredLifetime := x\<rparr>))) w)"
    and "store32 (Ptr pb 4) x w =
      Inr ((), set_block pb (map Byte (dh_opt_IA_Prefix_bytes (r\<lparr>ValidLifetime := x\<rparr>))) w)"
    and "store8 (Ptr pb 8) y w =
      Inr ((), set_block pb (map Byte (dh_opt_IA_Prefix_bytes (r\<lparr>PrefixLength := y\<rparr>))) w)"
  using assms
  by (simp_all add: cm_simps int_enc_def dh_opt_IA_Prefix_bytes_def patch_def)

lemmas prefix_access = prefix_loads prefix_stores
  prefix_loads(3) [unfolded One_nat_def] prefix_stores(3) [unfolded One_nat_def]

section \<open>The DHCPv6 thread\<close>

text \<open>
  One round: the exchange, the conversion of the lifetimes in place, and the prefix length,
  under the mutex. The value is \<open>None\<close> when the process has exited.
\<close>

definition requestDhcpPrefix_round ::
  "(u64 \<times> u64) option \<Rightarrow> (u32 \<Rightarrow> u64) \<Rightarrow> int \<Rightarrow> u8 list option \<Rightarrow> int \<Rightarrow> ptr \<Rightarrow> u64
    \<Rightarrow> ('z world_scheme, int option) cm" where
  "requestDhcpPrefix_round clock rng sendto recv handler buffer mtu =
     bindc (gets prefix_ptr) (\<lambda>prefix.
     thenc (sys Lock_Prefix) (
     bindc (requestAndReceiveDhcp clock rng sendto recv handler buffer mtu prefix) (\<lambda>result.
     if result = None then ret None else
     bindc (load32 (prefix_PreferredLifetime prefix)) (\<lambda>preferred.
     thenc (store32 (prefix_PreferredLifetime prefix) (be32toh preferred)) (
     bindc (load32 (prefix_ValidLifetime prefix)) (\<lambda>valid.
     thenc (store32 (prefix_ValidLifetime prefix) (be32toh valid)) (
     thenc (store8 (prefix_PrefixLength prefix) 64) (
     thenc (sys Unlock_Prefix) (
     bindc (load32 (prefix_PreferredLifetime prefix)) (\<lambda>preferred.
     thenc (sys (Sleep preferred)) (
     ret result)))))))))))"

text \<open>What the round makes of the structure it finds or receives, and what it should make of the
  data of a delegation: the fields of the IA Prefix option in it, in network order.\<close>

definition prefix_settle :: "dh_opt_IA_Prefix \<Rightarrow> dh_opt_IA_Prefix" where
  "prefix_settle r = r\<lparr>PreferredLifetime := be32toh (PreferredLifetime r),
     ValidLifetime := be32toh (ValidLifetime r), PrefixLength := 64\<rparr>"

definition delegated_prefix :: "u8 list \<Rightarrow> dh_opt_IA_Prefix" where
  "delegated_prefix data = \<lparr>PreferredLifetime = from_be (segment 16 4 data),
     ValidLifetime = from_be (segment 20 4 data), PrefixLength = 64, Prefix = from_be (segment 25 16 data)\<rparr>"

lemma be32toh_from_le: "length bs = 4 \<Longrightarrow> be32toh (from_le bs) = from_be bs"
  by (simp add: be32toh_def le_bytes_from_le)

lemma prefix_settle_delegated:
  assumes "41 \<le> length data"
  shows "prefix_settle (dh_opt_IA_Prefix_of (segment 16 25 data)) = delegated_prefix data"
  using assms
  by (simp add: prefix_settle_def dh_opt_IA_Prefix_of_def delegated_prefix_def segment_segment
      be32toh_from_le)

lemma prefix_settle_twice: "prefix_settle (prefix_settle r) = r\<lparr>PrefixLength := 64\<rparr>"
  by (simp add: prefix_settle_def be32toh_eq_htobe32 [of "be32toh _"])

text \<open>What follows the exchange, in a state that holds the prefix.\<close>

lemma settle_run:
  fixes w :: "'z world_scheme"
  assumes "blocks w pb = Some (map Byte (dh_opt_IA_Prefix_bytes r))"
  shows "bindc (load32 (Ptr pb 0)) (\<lambda>preferred. thenc (store32 (Ptr pb 0) (be32toh preferred)) (
     bindc (load32 (Ptr pb 4)) (\<lambda>valid. thenc (store32 (Ptr pb 4) (be32toh valid)) (
     thenc (store8 (Ptr pb 8) 64) (thenc (sys Unlock_Prefix) (
     bindc (load32 (Ptr pb 0)) (\<lambda>preferred. thenc (sys (Sleep preferred)) (ret result)))))))) w =
   Inr (result, (set_block pb (map Byte (dh_opt_IA_Prefix_bytes (prefix_settle r))) w)
     \<lparr>trace := trace w @ [Unlock_Prefix, Sleep (be32toh (PreferredLifetime r))]\<rparr>)"
  using assms
  by (simp add: bindc_apply thenc_apply sys_apply ret_apply prefix_access prefix_settle_def)

lemma requestDhcpPrefix_round_settles:
  fixes w :: "'z world_scheme"
  assumes ptr: "prefix_ptr w = Ptr pb 0"
    and run: "requestAndReceiveDhcp clock rng sendto recv handler buffer mtu (Ptr pb 0)
      (w\<lparr>trace := trace w @ [Lock_Prefix]\<rparr>) = Inr (Some result, w1)"
    and blk: "blocks w1 pb = Some (map Byte (dh_opt_IA_Prefix_bytes r))"
  shows "requestDhcpPrefix_round clock rng sendto recv handler buffer mtu w =
    Inr (Some result, (set_block pb (map Byte (dh_opt_IA_Prefix_bytes (prefix_settle r))) w1)
     \<lparr>trace := trace w1 @ [Unlock_Prefix, Sleep (be32toh (PreferredLifetime r))]\<rparr>)"
  using ptr run settle_run [OF blk, of "Some result"]
  by (simp add: requestDhcpPrefix_round_def bindc_apply [of "gets _"] gets_apply
      thenc_apply [of "sys Lock_Prefix"] sys_apply bindc_apply [of "requestAndReceiveDhcp _ _ _ _ _ _ _ _"])

text \<open>
  \<open>reply_delegates datagram data n\<close>: a Reply of well-formed options with \<open>n\<close> prefix delegations,
  the first of them with the contents \<open>data\<close>, long enough for one IA Prefix option.
  \<open>receive_buffer w bb n\<close>: at \<open>bb\<close> there is an initialised buffer of \<open>n\<close> bytes, away from the
  end of the address space.
\<close>

definition reply_delegates :: "u8 list \<Rightarrow> u8 list \<Rightarrow> nat \<Rightarrow> bool" where
  "reply_delegates datagram data n \<longleftrightarrow> (\<exists>transId opts rest.
     map Byte datagram = dh_wire_packet 7 transId opts \<and> opts \<noteq> [] \<and> dh_sized opts \<and>
     dh_find DHCPv6_OPTION_IA_PD opts = map Byte data # rest \<and> n = Suc (length rest) \<and>
     41 \<le> length data)"

definition receive_buffer :: "'z cheap_scheme \<Rightarrow> nat \<Rightarrow> nat \<Rightarrow> bool" where
  "receive_buffer w bb n \<longleftrightarrow> (\<exists>buf. blocks w bb = Some (map Byte buf) \<and> length buf = n) \<and>
     unat (placed w bb) + n < 18446744073709551616"

lemma receive_buffer_keeps:
  "receive_buffer w bb n \<Longrightarrow> world_keeps bs w w' \<Longrightarrow> bb < next_block w \<Longrightarrow> bb \<notin> bs \<Longrightarrow> receive_buffer w' bb n"
  using world_keeps_blocks [of bs w w' bb] by (simp add: receive_buffer_def world_keeps_def)

lemma exchange_delegates_run:
  fixes w :: "'z world_scheme"
  assumes "heap_wf w" and "receive_buffer w bb (unat mtu)"
    and reply: "reply_delegates datagram data n" and "length datagram \<le> unat mtu"
    and "blocks w pb = Some old" and "length old = 25" and "pb \<noteq> bb"
    and "116 + 16 * n \<le> avail w" and "0 \<le> sendto"
  shows "\<exists>w' out out'. requestAndReceiveDhcp (Some (sec, nsec)) rng sendto (Some datagram) handler
      (Ptr bb 0) mtu (Ptr pb 0) w = Inr (Some 0, w') \<and>
    blocks w' pb = Some (map Byte (segment 16 25 data)) \<and>
    trace w' = trace w @ [Printed out,
      Send_Udp handler all_dhcp_agents 547 (map Byte (solicit_bytes (exchange_transId sec nsec rng))),
      Printed out', Close handler] \<and> world_keeps {bb, pb} w w' \<and> avail w' = avail w - 76 - 16 * n \<and>
    receive_buffer w' bb (unat mtu)"
proof -
  obtain transId opts rest where opts: "map Byte datagram = dh_wire_packet 7 transId opts" "opts \<noteq> []"
    "dh_sized opts" "dh_find DHCPv6_OPTION_IA_PD opts = map Byte data # rest" "n = Suc (length rest)"
    "41 \<le> length data"
    using reply by (auto simp: reply_delegates_def)
  obtain buf where buf: "blocks w bb = Some (map Byte buf)" "length buf = unat mtu"
    "unat (placed w bb) + unat mtu < 18446744073709551616"
    using assms(2) by (auto simp: receive_buffer_def)
  have n: "length (dh_find DHCPv6_OPTION_IA_PD opts) = n" using opts(4,5) by simp
  show ?thesis
    using exchange_run [of w bb buf mtu datagram transId opts data rest pb old sendto sec nsec rng handler]
      assms buf opts(1-4,6) unfolding n by (fastforce simp: receive_buffer_def world_keeps_def)
qed

lemma dhcp_round_run:
  fixes w :: "'z world_scheme"
  assumes "heap_wf w" and "receive_buffer w bb (unat mtu)"
    and reply: "reply_delegates datagram data n" and "length datagram \<le> unat mtu"
    and "prefix_ptr w = Ptr pb 0" and "blocks w pb = Some old" and "length old = 25" and "pb \<noteq> bb"
    and "116 + 16 * n \<le> avail w" and "0 \<le> sendto"
  shows "\<exists>w' out out'. requestDhcpPrefix_round (Some (sec, nsec)) rng sendto (Some datagram) handler
      (Ptr bb 0) mtu w = Inr (Some 0, w') \<and> prefix_holds w' (delegated_prefix data) \<and>
    trace w' = trace w @ [Lock_Prefix, Printed out,
      Send_Udp handler all_dhcp_agents 547 (map Byte (solicit_bytes (exchange_transId sec nsec rng))),
      Printed out', Close handler, Unlock_Prefix, Sleep (PreferredLifetime (delegated_prefix data))] \<and>
    world_keeps {bb, pb} w w' \<and> avail w' = avail w - 76 - 16 * n \<and> receive_buffer w' bb (unat mtu)"
proof -
  let ?w0 = "w\<lparr>trace := trace w @ [Lock_Prefix]\<rparr>"
  have pb: "pb < next_block w" using assms(1,6) by (auto simp: heap_wf_def)
  have data: "41 \<le> length data" using reply by (auto simp: reply_delegates_def)
  then have data': "length (segment 16 25 data) = 25" by simp
  let ?r = "dh_opt_IA_Prefix_of (segment 16 25 data)"
  have settle: "prefix_settle ?r = delegated_prefix data" by (rule prefix_settle_delegated [OF data])
  obtain w1 out out' where w1: "requestAndReceiveDhcp (Some (sec, nsec)) rng sendto (Some datagram) handler
      (Ptr bb 0) mtu (Ptr pb 0) ?w0 = Inr (Some 0, w1)"
    "blocks w1 pb = Some (map Byte (segment 16 25 data))"
    "trace w1 = trace ?w0 @ [Printed out,
      Send_Udp handler all_dhcp_agents 547 (map Byte (solicit_bytes (exchange_transId sec nsec rng))),
      Printed out', Close handler]" "world_keeps {bb, pb} ?w0 w1" "avail w1 = avail ?w0 - 76 - 16 * n"
    "receive_buffer w1 bb (unat mtu)"
    using exchange_delegates_run [of ?w0 bb mtu datagram data n pb old sendto sec nsec rng handler] assms
    by (auto simp: heap_wf_def receive_buffer_def)
  let ?w' = "(set_block pb (map Byte (dh_opt_IA_Prefix_bytes (prefix_settle ?r))) w1)
     \<lparr>trace := trace w1 @ [Unlock_Prefix, Sleep (be32toh (PreferredLifetime ?r))]\<rparr>"
  have run: "requestDhcpPrefix_round (Some (sec, nsec)) rng sendto (Some datagram) handler
      (Ptr bb 0) mtu w = Inr (Some 0, ?w')"
    by (rule requestDhcpPrefix_round_settles [OF assms(5) w1(1)])
      (simp add: w1(2) IA_Prefix_bytes_of [OF data'])
  have pb1: "pb < next_block w1" using w1(4) pb by (simp add: world_keeps_def)
  have keeps: "world_keeps {bb, pb} w w1"
    using world_keeps_trans [OF world_keeps_basic(1) w1(4)] by simp
  then have "prefix_ptr w1 = Ptr pb 0" using assms(5) by (simp add: world_keeps_def same_globals_def)
  then have "prefix_holds ?w' (delegated_prefix data)"
    using pb1 settle by (simp add: prefix_holds_def)
  moreover have "world_keeps {bb, pb} w ?w'"
    by (rule world_keeps_trans [OF world_keeps_trans [OF keeps world_keeps_set_block] world_keeps_basic(1)])
      (use pb1 in simp_all)
  moreover have "be32toh (PreferredLifetime ?r) = PreferredLifetime (delegated_prefix data)"
    using settle by (simp add: prefix_settle_def flip: settle)
  ultimately show ?thesis using run w1(3,5,6) assms(8)
    by (intro exI [of _ ?w'] exI [of _ out] exI [of _ out'] conjI) (simp_all add: receive_buffer_def)
qed

lemma dhcp_round_send_failed_run:
  fixes w :: "'z world_scheme"
  assumes "heap_wf w" and "prefix_holds w r" and "116 \<le> avail w" and "sendto < 0"
  shows "\<exists>w' out. requestDhcpPrefix_round (Some (sec, nsec)) rng sendto recv handler buffer mtu w =
      Inr (Some 1, w') \<and> prefix_holds w' (prefix_settle r) \<and>
    trace w' = trace w @ [Lock_Prefix, Printed out, Close handler, Unlock_Prefix,
      Sleep (be32toh (PreferredLifetime r))] \<and> avail w' = avail w - 76 \<and>
    (\<forall>pb. prefix_ptr w = Ptr pb 0 \<longrightarrow> world_keeps {pb} w w')"
proof -
  let ?w0 = "w\<lparr>trace := trace w @ [Lock_Prefix]\<rparr>"
  obtain pb where pb: "prefix_ptr w = Ptr pb 0" "pb < next_block w"
    "blocks w pb = Some (map Byte (dh_opt_IA_Prefix_bytes r))"
    using assms(2) by (auto simp: prefix_holds_def)
  obtain w1 out where w1: "requestAndReceiveDhcp (Some (sec, nsec)) rng sendto recv handler
      buffer mtu (Ptr pb 0) ?w0 = Inr (Some 1, w1)" "trace w1 = trace ?w0 @ [Printed out, Close handler]"
    "world_keeps {} ?w0 w1" "avail w1 = avail ?w0 - 76"
    using exchange_send_failed_run [of ?w0 sendto sec nsec rng recv handler buffer mtu "Ptr pb 0"] assms(1,3,4)
    by (auto simp: heap_wf_def)
  have "blocks w1 pb = Some (map Byte (dh_opt_IA_Prefix_bytes r))"
    using world_keeps_blocks [OF w1(3)] pb(2,3) by simp
  note run = requestDhcpPrefix_round_settles [OF pb(1) w1(1) this]
  have "prefix_ptr w1 = Ptr pb 0" "pb < next_block w1"
    using w1(3) pb(1,2) by (simp_all add: world_keeps_def same_globals_def)
  moreover have "world_keeps {pb} w w1"
    by (rule world_keeps_trans [OF world_keeps_basic(1) world_keeps_mono [OF w1(3)]]) simp
  then have "world_keeps {pb} w (set_block pb vs w1\<lparr>trace := t\<rparr>)" for vs t
    using world_keeps_trans [OF world_keeps_trans [OF _ world_keeps_set_block] world_keeps_basic(1)]
      calculation(2) by blast
  ultimately show ?thesis using w1(2,4) pb(1) by (simp add: run prefix_holds_def)
qed

section \<open>The advertising threads\<close>

text \<open>
  The part the two threads share: under the mutex, copy the prefix and send the advertisement
  of it to \<open>dstAddr\<close>.
\<close>

definition advertise_prefix :: "int \<Rightarrow> ptr \<Rightarrow> in6_addr \<Rightarrow> in6_addr \<Rightarrow> ('z world_scheme, unit) cm" where
  "advertise_prefix handler hardwareAddr srcAddr dstAddr =
     thenc (sys Lock_Prefix) (
     bindc (gets prefix_ptr) (\<lambda>prefix_obj.
     bindc (load_as in6_dec 16 (prefix_Prefix prefix_obj)) (\<lambda>prefix.
     bindc (load8 (prefix_PrefixLength prefix_obj)) (\<lambda>prefixLength.
     bindc (load32 (prefix_ValidLifetime prefix_obj)) (\<lambda>valid.
     bindc (load32 (prefix_PreferredLifetime prefix_obj)) (\<lambda>preferred.
     thenc (sendRouterAdv handler hardwareAddr srcAddr dstAddr prefix (ucast prefixLength) valid preferred)
       (sys Unlock_Prefix)))))))"

definition sendRouterAdv_round ::
  "int \<Rightarrow> in6_addr option \<Rightarrow> u8 list option \<Rightarrow> int \<Rightarrow> int \<Rightarrow> u32 \<Rightarrow> ('z world_scheme, unit) cm" where
  "sendRouterAdv_round connect getsockname ioctl_hw errno ndpHandler intervalSec =
     bindc (utils_getLinkLocalAddress connect getsockname errno 0) (\<lambda>(_, srcAddr).
     bindc (stack_alloc (replicate 8 (Byte 0))) (\<lambda>hardwareAddr.
     thenc (utils_getHardwareAddressByName ioctl_hw errno hardwareAddr) (
     thenc (advertise_prefix ndpHandler hardwareAddr srcAddr (htobe_inet6 ADDR_All_Nodes_Multicast)) (
     thenc (sys (Sleep intervalSec)) (
     stack_free hardwareAddr)))))"

text \<open>The replies to solicitations go out through the socket that receives them.\<close>

definition listenRouterSolicit_round ::
  "int \<Rightarrow> in6_addr option \<Rightarrow> recv_answer list \<Rightarrow> u8 list option \<Rightarrow> int \<Rightarrow> int
    \<Rightarrow> ('z world_scheme, unit) cm" where
  "listenRouterSolicit_round connect getsockname answers ioctl_hw errno ndpMulticastHandler =
     bindc (utils_getLinkLocalAddress connect getsockname errno 0) (\<lambda>(_, linkLocalAddr).
     bindc (ReceiveSrcAddrFromRouterSolicit answers) (\<lambda>clientAddr.
     bindc (stack_alloc (replicate 6 (Byte 0))) (\<lambda>lanIfHwAddr.
     thenc (utils_getHardwareAddressByName ioctl_hw errno lanIfHwAddr) (
     thenc (advertise_prefix ndpMulticastHandler lanIfHwAddr linkLocalAddr clientAddr) (
     stack_free lanIfHwAddr)))))"

text \<open>
  \<open>advertiser w name r\<close>: a process ready to advertise the prefix \<open>r\<close>: initialised, the prefix
  and the interface request in blocks of their own.
\<close>

definition advertiser :: "u8 list \<Rightarrow> dh_opt_IA_Prefix \<Rightarrow> 'z world_scheme \<Rightarrow> bool" where
  "advertiser name r w \<longleftrightarrow> heap_wf w \<and> utils_ready name w \<and> prefix_holds w r \<and>
     utils_request w \<noteq> prefix_ptr w"

text \<open>The advertisement a receiver is to read for the prefix \<open>r\<close>.\<close>

definition advert_of :: "u8 list \<Rightarrow> dh_opt_IA_Prefix \<Rightarrow> ra_message" where
  "advert_of mac r = ra_of_prefix mac (Prefix r) (ucast (PrefixLength r)) (ValidLifetime r) (PreferredLifetime r)"

lemma advertise_prefix_run:
  fixes w :: "'z world_scheme"
  assumes holds: "prefix_holds w r" and mac: "readable mac 6 w" "peek mac 6 w = map Byte bs"
    and mem: "144 \<le> avail w"
  shows "\<exists>w' packet. advertise_prefix handler mac src dst w = Inr ((), w') \<and>
    trace w' = trace w @ [Lock_Prefix, Send_Raw handler dst 255 (map Byte packet), Unlock_Prefix] \<and>
    ra_decode packet = Some (0, advert_of bs r) \<and> world_keeps {} w w' \<and> avail w' = avail w - 16"
proof -
  let ?w0 = "w\<lparr>trace := trace w @ [Lock_Prefix]\<rparr>"
  obtain pb where pb: "prefix_ptr w = Ptr pb 0" "blocks ?w0 pb = Some (map Byte (dh_opt_IA_Prefix_bytes r))"
    using holds by (auto simp: prefix_holds_def)
  have mac0: "readable mac 6 ?w0" "peek mac 6 ?w0 = map Byte bs"
    using mac by (auto simp: readable_def peek_def split: ptr.splits)
  obtain w1 packet where w1: "sendRouterAdv handler mac src dst (Prefix r) (ucast (PrefixLength r))
      (ValidLifetime r) (PreferredLifetime r) ?w0 = Inr (0, w1)"
    "trace w1 = trace ?w0 @ [Send_Raw handler dst 255 (map Byte packet)]"
    "ra_decode packet = Some (0, advert_of bs r)" "world_keeps {} ?w0 w1" "avail w1 = avail ?w0 - 16"
    using sendRouterAdv_run [OF mac0, of handler src dst "Prefix r" "ucast (PrefixLength r)"
        "ValidLifetime r" "PreferredLifetime r"] mem by (auto simp: advert_of_def)
  let ?w' = "w1\<lparr>trace := trace w1 @ [Unlock_Prefix]\<rparr>"
  have "advertise_prefix handler mac src dst w = Inr ((), ?w')"
    using w1(1) pb by (simp add: advertise_prefix_def bindc_apply thenc_apply gets_apply sys_apply prefix_access)
  moreover have "world_keeps {} w ?w'"
    by (rule world_keeps_trans [OF world_keeps_trans [OF world_keeps_basic(1) w1(4)] world_keeps_basic(1)])
  ultimately show ?thesis using w1(2,3,5)
    by (intro exI [of _ ?w'] exI [of _ packet] conjI) simp_all
qed

text \<open>The preparation common to both rounds: the source address, and the hardware address in a
  local array.\<close>

lemma hardware_address_run:
  fixes w :: "'z world_scheme"
  assumes ready: "utils_ready name w" and wf: "heap_wf w" and sa: "length sockaddr = 16" and n: "6 \<le> n"
  shows "\<exists>w1. stack_alloc (replicate n (Byte 0)) w = Inr (Ptr (next_block w) 0, w1) \<and>
    (\<exists>w2. utils_getHardwareAddressByName (Some sockaddr) errno (Ptr (next_block w) 0) w1 = Inr (0, w2) \<and>
      readable (Ptr (next_block w) 0) 6 w2 \<and>
      peek (Ptr (next_block w) 0) 6 w2 = map Byte (segment 2 6 sockaddr) \<and>
      (\<forall>b. utils_request w = Ptr b 0 \<longrightarrow> world_keeps {b} w w2) \<and> utils_ready name w2 \<and>
      trace w2 = trace w \<and> avail w2 = avail w)"
proof -
  let ?nb = "next_block w"
  let ?w1 = "w\<lparr>blocks := (blocks w)(?nb \<mapsto> replicate n (Byte 0)), next_block := Suc ?nb\<rparr>"
  obtain q rs where q: "utils_request w = Ptr q 0" "q < ?nb" "blocks w q = Some rs" "length rs = 40"
    "take (Suc (length name)) rs = map Byte (name @ [0])" "length name < 16" "utils_handler w \<noteq> -1"
    using ready by (auto simp: utils_ready_def)
  let ?hw = "map Byte (segment 2 6 sockaddr)"
  let ?rs = "patch 16 (map Byte sockaddr) (patch 16 (int_enc 4 (0 :: u32)) rs)"
  let ?w2 = "set_block ?nb (patch 0 ?hw (replicate n (Byte 0))) (set_block q ?rs ?w1)"
  have seg: "segment 18 6 ?rs = ?hw"
    using q(4) sa by (simp add: segment_def patch_def take_map drop_map)
  have al: "stack_alloc (replicate n (Byte 0)) w = Inr (Ptr ?nb 0, ?w1)" by (simp add: stack_alloc_def)
  have run: "utils_getHardwareAddressByName (Some sockaddr) errno (Ptr ?nb 0) ?w1 = Inr (0, ?w2)"
    using q sa n seg
    by (simp add: utils_getHardwareAddressByName_def cm_simps MAC_ADDRESS_LENGTH_def)
  have ln: "length ?hw = 6" using sa by simp
  have "readable (Ptr ?nb 0) 6 ?w2" "peek (Ptr ?nb 0) 6 ?w2 = ?hw"
    using n ln q(2) by (simp_all add: readable_Ptr peek_def segment_patch_same)
  moreover have "world_keeps {q} w ?w2"
    using wf q(2) by (auto simp: world_keeps_def heap_wf_def same_globals_def less_Suc_eq split: if_splits)
  moreover have "take (Suc (length name)) ?rs = take (Suc (length name)) rs"
    using q(4,6) sa by (simp add: patch_def min_def)
  then have "utils_ready name ?w2"
    using q sa by (auto simp: utils_ready_def)
  ultimately show ?thesis using al run q(1) by auto
qed

lemma prefix_holds_keeps:
  assumes "prefix_holds w r" and "world_keeps bs w w'" and "\<And>pb. prefix_ptr w = Ptr pb 0 \<Longrightarrow> pb \<notin> bs"
  shows "prefix_holds w' r"
proof -
  obtain pb where pb: "prefix_ptr w = Ptr pb 0" "pb < next_block w"
    "blocks w pb = Some (map Byte (dh_opt_IA_Prefix_bytes r))"
    using assms(1) by (auto simp: prefix_holds_def)
  have "blocks w' pb = blocks w pb" by (rule world_keeps_blocks [OF assms(2) pb(2) assms(3) [OF pb(1)]])
  then show ?thesis
    using assms(2) pb by (auto simp: prefix_holds_def world_keeps_def same_globals_def)
qed

lemma utils_ready_keeps:
  assumes "utils_ready name w" and "world_keeps bs w w'" and "\<And>q. utils_request w = Ptr q 0 \<Longrightarrow> q \<notin> bs"
  shows "utils_ready name w'"
proof -
  obtain q rs where q: "utils_request w = Ptr q 0" "q < next_block w" "blocks w q = Some rs" "length rs = 40"
    "take (Suc (length name)) rs = map Byte (name @ [0])" "length name < 16" "utils_handler w \<noteq> -1"
    using assms(1) by (auto simp: utils_ready_def)
  have "blocks w' q = Some rs" using world_keeps_blocks [OF assms(2) q(2) assms(3) [OF q(1)]] q(3) by simp
  then show ?thesis using assms(2) q by (auto simp: utils_ready_def world_keeps_def same_globals_def)
qed

text \<open>
  From the query of the hardware address to the release of the local array: what both rounds
  do once they know where to send from and to.
\<close>

lemma hardware_then_advertise:
  fixes w :: "'z world_scheme"
  assumes adv: "advertiser name r w" and sa: "length sockaddr = 16" and n: "6 \<le> n" and mem: "144 \<le> avail w"
  shows "\<exists>w' packet. bindc (stack_alloc (replicate n (Byte 0))) (\<lambda>p.
      thenc (utils_getHardwareAddressByName (Some sockaddr) errno p) (
      thenc (advertise_prefix handler p src dst) (
      thenc (if sleeps then sys (Sleep secs) else ret ()) (stack_free p)))) w = Inr ((), w') \<and>
    trace w' = trace w @ [Lock_Prefix, Send_Raw handler dst 255 (map Byte packet), Unlock_Prefix] @
      (if sleeps then [Sleep secs] else []) \<and>
    ra_decode packet = Some (0, advert_of (segment 2 6 sockaddr) r) \<and>
    advertiser name r w' \<and> same_globals w w' \<and> avail w' = avail w - 16 \<and>
    (\<forall>q. utils_request w = Ptr q 0 \<longrightarrow> world_keeps {q} w w')"
proof -
  let ?nb = "next_block w" and ?mac = "segment 2 6 sockaddr"
  obtain q where q: "utils_request w = Ptr q 0" "q < ?nb"
    using adv by (auto simp: advertiser_def utils_ready_def)
  obtain w1 w2 where w2: "stack_alloc (replicate n (Byte 0)) w = Inr (Ptr ?nb 0, w1)"
    "utils_getHardwareAddressByName (Some sockaddr) errno (Ptr ?nb 0) w1 = Inr (0, w2)"
    "readable (Ptr ?nb 0) 6 w2" "peek (Ptr ?nb 0) 6 w2 = map Byte ?mac"
    "world_keeps {q} w w2" "utils_ready name w2" "trace w2 = trace w" "avail w2 = avail w"
    using hardware_address_run [of name w sockaddr n errno] adv sa n q(1) by (auto simp: advertiser_def)
  have holds2: "prefix_holds w2 r"
    by (rule prefix_holds_keeps [OF _ w2(5)]) (use adv q(1) in \<open>auto simp: advertiser_def\<close>)
  obtain w3 packet where w3: "advertise_prefix handler (Ptr ?nb 0) src dst w2 = Inr ((), w3)"
    "trace w3 = trace w2 @ [Lock_Prefix, Send_Raw handler dst 255 (map Byte packet), Unlock_Prefix]"
    "ra_decode packet = Some (0, advert_of ?mac r)" "world_keeps {} w2 w3" "avail w3 = avail w2 - 16"
    using advertise_prefix_run [OF holds2 w2(3,4), of handler src dst] mem w2(8) by auto
  let ?w4 = "if sleeps then w3\<lparr>trace := trace w3 @ [Sleep secs]\<rparr> else w3"
  let ?w5 = "?w4\<lparr>blocks := (blocks ?w4)(?nb := None)\<rparr>"
  have keeps: "world_keeps {q} w ?w5"
    by (rule world_keeps_drop [OF world_keeps_trans [OF w2(5) world_keeps_mono [OF _ empty_subsetI]]])
      (use w3(4) in \<open>auto intro: world_keeps_trans\<close>)
  have ready: "utils_ready name ?w4"
    by (rule utils_ready_keeps [OF w2(6)]) (use w3(4) in \<open>auto intro: world_keeps_trans\<close>)
  have "utils_request ?w4 = Ptr q 0" using keeps q(1) by (simp add: world_keeps_def same_globals_def)
  then have "utils_ready name ?w5" using ready q(2) by (auto simp: utils_ready_def)
  moreover have "prefix_holds ?w5 r"
    by (rule prefix_holds_keeps [OF _ keeps]) (use adv q(1) in \<open>auto simp: advertiser_def\<close>)
  ultimately have adv': "advertiser name r ?w5"
    using adv keeps by (simp add: advertiser_def world_keeps_def same_globals_def)
  have "bindc (stack_alloc (replicate n (Byte 0))) (\<lambda>p.
      thenc (utils_getHardwareAddressByName (Some sockaddr) errno p) (
      thenc (advertise_prefix handler p src dst) (
      thenc (if sleeps then sys (Sleep secs) else ret ()) (stack_free p)))) w = Inr ((), ?w5)"
    using w2(1,2) w3(1) by (simp add: bindc_apply thenc_apply sys_apply ret_apply stack_free_def)
  then show ?thesis using w2(7,8) w3(2,3,5) adv' keeps q(1)
    by (intro exI [of _ ?w5] exI [of _ packet] conjI) (simp_all add: world_keeps_def)
qed

lemma sendRouterAdv_round_run:
  fixes w :: "'z world_scheme"
  assumes "advertiser name r w" and "length sockaddr = 16" and "144 \<le> avail w" and "0 \<le> connect"
  shows "\<exists>w' packet. sendRouterAdv_round connect (Some src) (Some sockaddr) errno handler secs w = Inr ((), w') \<and>
    trace w' = trace w @ [Lock_Prefix, Send_Raw handler all_nodes 255 (map Byte packet), Unlock_Prefix,
      Sleep secs] \<and>
    ra_decode packet = Some (0, advert_of (segment 2 6 sockaddr) r) \<and>
    advertiser name r w' \<and> same_globals w w' \<and> avail w' = avail w - 16 \<and>
    (\<forall>q. utils_request w = Ptr q 0 \<longrightarrow> world_keeps {q} w w')"
  using hardware_then_advertise [OF assms(1,2) _ assms(3), of 8 errno handler src all_nodes True secs] assms(4)
  by (simp add: sendRouterAdv_round_def utils_getLinkLocalAddress_def bindc_apply [of "gets _"]
      gets_apply bindc_apply [of "bindc _ _"] ret_apply multicast_values del: replicate_numeral_Cons)

lemma listenRouterSolicit_round_run:
  fixes w :: "'z world_scheme"
  assumes adv: "advertiser name r w" and sa: "length sockaddr = 16" and mem: "144 \<le> avail w"
    and conn: "0 \<le> connect"
    and skip: "\<forall>(d, s) \<in> set skipped. 2 \<le> length d \<and> \<not> is_router_solicit d"
    and rs: "is_router_solicit datagram"
  shows "\<exists>w' packet. listenRouterSolicit_round connect (Some src)
      (map Some skipped @ Some (datagram, client) # answers) (Some sockaddr) errno handler w = Inr ((), w') \<and>
    trace w' = trace w @ [Lock_Prefix, Send_Raw handler client 255 (map Byte packet), Unlock_Prefix] \<and>
    ra_decode packet = Some (0, advert_of (segment 2 6 sockaddr) r) \<and>
    advertiser name r w' \<and> same_globals w w' \<and> avail w' = avail w - 16 \<and>
    (\<forall>q. utils_request w = Ptr q 0 \<longrightarrow> world_keeps {q} w w')"
proof -
  have wf: "heap_wf w" using adv by (simp add: advertiser_def)
  obtain w1 where w1: "ReceiveSrcAddrFromRouterSolicit (map Some skipped @ Some (datagram, client) # answers) w =
      Inr (client, w1)" "blocks w1 = blocks w" "avail w1 = avail w" "placed w1 = placed w"
    "next_block w1 = Suc (next_block w)" "cheap.more w1 = cheap.more w"
    using receive_solicit_run [OF wf skip rs] by blast
  note globals = same_globals_more [OF w1(6)]
  have keeps: "world_keeps {} w w1"
    using w1(2-5) globals(1) by (auto simp: world_keeps_def heap_wf_def less_Suc_eq)
  have "advertiser name r w1"
    using adv keeps utils_ready_keeps [OF _ keeps] prefix_holds_keeps [OF _ keeps]
    by (simp add: advertiser_def world_keeps_def same_globals_def)
  then obtain w' packet where "bindc (stack_alloc (replicate 6 (Byte 0))) (\<lambda>p.
      thenc (utils_getHardwareAddressByName (Some sockaddr) errno p) (
      thenc (advertise_prefix handler p src client) (thenc (ret ()) (stack_free p)))) w1 = Inr ((), w')"
    "trace w' = trace w1 @ [Lock_Prefix, Send_Raw handler client 255 (map Byte packet), Unlock_Prefix]"
    "ra_decode packet = Some (0, advert_of (segment 2 6 sockaddr) r)"
    "advertiser name r w'" "same_globals w1 w'" "avail w' = avail w1 - 16"
    "\<forall>q. utils_request w1 = Ptr q 0 \<longrightarrow> world_keeps {q} w1 w'"
    using hardware_then_advertise [OF _ sa, of name r w1 6 errno handler src client False] mem w1(3)
    by (auto simp del: replicate_numeral_Cons)
  moreover have "world_keeps {q} w w'" if "utils_request w = Ptr q 0" for q
    using world_keeps_trans [OF world_keeps_mono [OF keeps empty_subsetI]] calculation(7) globals(1) that
    by (simp add: same_globals_def)
  ultimately show ?thesis using w1(1,3) globals same_globals_trans [OF globals(1)] conn
    by (intro exI [of _ w'] exI [of _ packet])
      (simp add: listenRouterSolicit_round_def utils_getLinkLocalAddress_def bindc_apply [of "gets _"]
        gets_apply bindc_apply [of "bindc _ _"] ret_apply bindc_apply [of "ReceiveSrcAddrFromRouterSolicit _"]
        thenc_def bindc_ret_left del: replicate_numeral_Cons)
qed

text \<open>Every advertisement leaks 16 bytes. Once less than 144 are left the next one writes its
  message through NULL.\<close>

lemma sendRouterAdv_oom:
  fixes w :: "'z world_scheme"
  assumes mac: "readable mac 6 w" "peek mac 6 w = map Byte bs" and mem: "64 \<le> avail w" "avail w < 144"
  shows "sendRouterAdv handler mac src dst prefix prefixLength validTime preferTime w = Inl NullDeref"
proof -
  let ?nb = "next_block w"
  let ?ps = "[Ptr (Suc (Suc (Suc ?nb))) 0, Ptr ?nb 0, Ptr (Suc ?nb) 0, Ptr (Suc (Suc ?nb)) 0]"
  let ?opts = "[SourceLinkLayer bs, PrefixInfo (ucast prefixLength) 0xC0 validTime preferTime prefix,
       RouteInfo 56 0 validTime (take 8 (be_bytes 16 prefix)), MtuInfo 1500]"
  have six: "length bs = 6" using length_peek [OF mac(1)] mac(2) by simp
  obtain v1 v2 v3 v4 where built:
    "ndp_createOptionPrefixInformation (ucast prefixLength)
      ((ndp_opt_PrefixInformation_flag_L OR ndp_opt_PrefixInformation_flag_A)
        AND ndp_opt_PrefixInformation_flag_R) validTime preferTime prefix w =
      Inr (Ptr ?nb 0, push_block v1 w)"
    "ndp_createOptionRouteInformation 56 0x00 validTime prefix (push_block v1 w) =
      Inr (Ptr (Suc ?nb) 0, push_block v2 (push_block v1 w))"
    "ndp_createOptionMtu 1500 (push_block v2 (push_block v1 w)) =
      Inr (Ptr (Suc (Suc ?nb)) 0, push_block v3 (push_block v2 (push_block v1 w)))"
    "ndp_createOptionSourceLinkLayerAddress mac (push_block v3 (push_block v2 (push_block v1 w))) =
      Inr (Ptr (Suc (Suc (Suc ?nb))) 0, push_block v4 (push_block v3 (push_block v2 (push_block v1 w))))"
    and lens: "length v1 = 32" "length v2 = 16" "length v3 = 8" "length v4 = 8"
    and holds: "list_all2 (ndp_holds (push_block v4 (push_block v3 (push_block v2 (push_block v1 w))))) ?ps ?opts"
    using ra_options_built [OF mac, of prefixLength validTime preferTime prefix] mem by auto
  have "ndp_total ?opts = 64" using six by simp
  then have "avail (push_block v4 (push_block v3 (push_block v2 (push_block v1 w)))) < 16 + ndp_total ?opts"
    using mem(2) lens by simp
  then have "ndp_createRAPacket src dst 64 1800 0 0 4 ?ps
      (push_block v4 (push_block v3 (push_block v2 (push_block v1 w)))) = Inl NullDeref"
    by (intro ndp_createRAPacket_oom [OF holds]) simp_all
  then show ?thesis using built
    by (simp add: sendRouterAdv_def bindc_apply thenc_apply)
qed

lemma advertise_prefix_oom:
  fixes w :: "'z world_scheme"
  assumes holds: "prefix_holds w r" and mac: "readable mac 6 w" "peek mac 6 w = map Byte bs"
    and mem: "64 \<le> avail w" "avail w < 144"
  shows "advertise_prefix handler mac src dst w = Inl NullDeref"
proof -
  let ?w0 = "w\<lparr>trace := trace w @ [Lock_Prefix]\<rparr>"
  obtain pb where pb: "prefix_ptr w = Ptr pb 0" "blocks ?w0 pb = Some (map Byte (dh_opt_IA_Prefix_bytes r))"
    using holds by (auto simp: prefix_holds_def)
  have mac0: "readable mac 6 ?w0" "peek mac 6 ?w0 = map Byte bs"
    using mac by (auto simp: readable_def peek_def split: ptr.splits)
  show ?thesis using pb sendRouterAdv_oom [OF mac0] mem
    by (simp add: advertise_prefix_def bindc_apply thenc_apply gets_apply sys_apply prefix_access)
qed

lemma sendRouterAdv_round_oom:
  fixes w :: "'z world_scheme"
  assumes adv: "advertiser name r w" and sa: "length sockaddr = 16"
    and mem: "64 \<le> avail w" "avail w < 144" and conn: "0 \<le> connect"
  shows "sendRouterAdv_round connect (Some src) (Some sockaddr) errno handler secs w = Inl NullDeref"
proof -
  let ?nb = "next_block w"
  obtain q where q: "utils_request w = Ptr q 0" "q < ?nb"
    using adv by (auto simp: advertiser_def utils_ready_def)
  obtain w1 w2 where w2: "stack_alloc (replicate 8 (Byte 0)) w = Inr (Ptr ?nb 0, w1)"
    "utils_getHardwareAddressByName (Some sockaddr) errno (Ptr ?nb 0) w1 = Inr (0, w2)"
    "readable (Ptr ?nb 0) 6 w2" "peek (Ptr ?nb 0) 6 w2 = map Byte (segment 2 6 sockaddr)"
    "world_keeps {q} w w2" "avail w2 = avail w"
    using hardware_address_run [of name w sockaddr 8 errno] adv sa q(1)
    by (auto simp: advertiser_def simp del: replicate_numeral_Cons)
  have "prefix_holds w2 r"
    by (rule prefix_holds_keeps [OF _ w2(5)]) (use adv q(1) in \<open>auto simp: advertiser_def\<close>)
  then have "advertise_prefix handler (Ptr ?nb 0) src dst w2 = Inl NullDeref" for dst
    using advertise_prefix_oom w2(3,4,6) mem by metis
  then show ?thesis using w2(1,2) conn
    by (simp add: sendRouterAdv_round_def utils_getLinkLocalAddress_def bindc_apply
      gets_apply ret_apply thenc_apply del: replicate_numeral_Cons)
qed

section \<open>The signal handler\<close>

definition handle :: "int \<Rightarrow> ('z world_scheme, unit) cm" where
  "handle close =
     thenc (upd (Thread_sendRouterAdv_cancel_update (\<lambda>_. True))) (
     thenc (upd (Thread_listenRouterSolicit_cancel_update (\<lambda>_. True))) (
     thenc (upd (Thread_requestDhcpPrefix_cancel_update (\<lambda>_. True))) (
     thenc (utils_Dispose close) (ret ()))))"

section \<open>The threads from start to end\<close>

text \<open>
  A thread's loop runs over the answers to its rounds. A round in which a signal arrives, which
  these threads see in their sleep or when they wait, has \<open>Some\<close> result of the \<open>close\<close> in the
  handler. When the answers are used up and the thread has not been cancelled it goes on:
  \<open>OutOfFuel\<close>.
\<close>

definition on_signal :: "int option \<Rightarrow> ('z world_scheme, unit) cm" where
  "on_signal signal = (case signal of None \<Rightarrow> ret () | Some close \<Rightarrow> handle close)"

record ra_answers =
  ra_connect :: int
  ra_getsockname :: "in6_addr option"
  ra_ioctl_hw :: "u8 list option"
  ra_errno :: int
  ra_signal :: "int option"

primrec sendRouterAdv_loop :: "ra_answers list \<Rightarrow> int \<Rightarrow> u32 \<Rightarrow> ('z world_scheme, unit) cm" where
  "sendRouterAdv_loop [] ndpHandler intervalSec =
     bindc (gets Thread_sendRouterAdv_cancel) (\<lambda>cancel.
     if cancel then ret () else raise OutOfFuel)"
| "sendRouterAdv_loop (a # answers) ndpHandler intervalSec =
     bindc (gets Thread_sendRouterAdv_cancel) (\<lambda>cancel.
     if cancel then ret ()
     else
       thenc (sendRouterAdv_round (ra_connect a) (ra_getsockname a) (ra_ioctl_hw a) (ra_errno a)
         ndpHandler intervalSec) (
       thenc (on_signal (ra_signal a)) (
       sendRouterAdv_loop answers ndpHandler intervalSec)))"

definition Thread_sendRouterAdv ::
  "int \<Rightarrow> int \<Rightarrow> c_string \<Rightarrow> u32 \<Rightarrow> ra_answers list \<Rightarrow> ('z world_scheme, unit) cm" where
  "Thread_sendRouterAdv socket setsockopt interfaceName intervalSec answers =
     (let ndpHandler = socket in
      if ndpHandler < 0 then upd (Thread_sendRouterAdv_cancel_update (\<lambda>_. True))
      else
        bindc (malloc sizeof_ifreq) (\<lambda>bindToLanDevReq.
        thenc (strcpy (ifr_name bindToLanDevReq) IFNAMSIZ interfaceName) (
        if setsockopt < 0 then
          thenc (upd (Thread_sendRouterAdv_cancel_update (\<lambda>_. True))) (
          thenc (sys (Close ndpHandler)) (
          free bindToLanDevReq))
        else
          thenc (sendRouterAdv_loop answers ndpHandler intervalSec) (
          sys (Close ndpHandler)))))"

record dhcp_answers =
  da_clock :: "(u64 \<times> u64) option"
  da_random :: "u32 \<Rightarrow> u64"
  da_sendto :: int
  da_recv :: "u8 list option"
  da_signal :: "int option"

text \<open>The value is \<open>None\<close> when the process has exited.\<close>

primrec requestDhcpPrefix_loop ::
  "dhcp_answers list \<Rightarrow> int \<Rightarrow> ptr \<Rightarrow> u64 \<Rightarrow> ('z world_scheme, unit option) cm" where
  "requestDhcpPrefix_loop [] handler buffer mtu =
     bindc (gets Thread_requestDhcpPrefix_cancel) (\<lambda>cancel.
     if cancel then ret (Some ()) else raise OutOfFuel)"
| "requestDhcpPrefix_loop (a # answers) handler buffer mtu =
     bindc (gets Thread_requestDhcpPrefix_cancel) (\<lambda>cancel.
     if cancel then ret (Some ())
     else
       bindc (requestDhcpPrefix_round (da_clock a) (da_random a) (da_sendto a) (da_recv a)
         handler buffer mtu) (\<lambda>result.
       if result = None then ret None
       else
         thenc (on_signal (da_signal a)) (
         requestDhcpPrefix_loop answers handler buffer mtu)))"

text \<open>\<open>ioctl_index\<close> and \<open>ioctl_mtu\<close> are what the kernel stores in the request, \<open>None\<close> when the
  call fails; the index is read in either case.\<close>

definition Thread_requestDhcpPrefix ::
  "int \<Rightarrow> int \<Rightarrow> u32 option \<Rightarrow> int \<Rightarrow> u32 option \<Rightarrow> c_string \<Rightarrow> dhcp_answers list
    \<Rightarrow> ('z world_scheme, unit option) cm" where
  "Thread_requestDhcpPrefix socket setsockopt ioctl_index bind ioctl_mtu wanIfName answers =
     (let handler = socket in
      if handler < 0 then thenc (upd (Thread_requestDhcpPrefix_cancel_update (\<lambda>_. True))) (ret (Some ()))
      else
        bindc (malloc sizeof_ifreq) (\<lambda>request.
        thenc (strcpy (ifr_name request) IFNAMSIZ wanIfName) (
        if setsockopt < 0 then
          thenc (sys (Close handler)) (thenc (free request) (ret (Some ())))
        else
          thenc (case ioctl_index of None \<Rightarrow> ret () | Some i \<Rightarrow> store32 (ifr_ifru request) i) (
          bindc (load32 (ifr_ifru request)) (\<lambda>ifIndex.
          if bind < 0 then thenc (sys (Close handler)) (ret (Some ()))
          else
            bindc (case ioctl_mtu of
                None \<Rightarrow> ret 1500
              | Some m \<Rightarrow> thenc (store32 (ifr_ifru request) m) (load32 (ifr_ifru request))) (\<lambda>mtu.
            thenc (free request) (
            bindc (malloc (scast mtu)) (\<lambda>buffer.
            thenc (store_raw buffer (replicate (unat (scast mtu :: u64)) (Byte 0))) (
            bindc (requestDhcpPrefix_loop answers handler buffer (scast mtu)) (\<lambda>result.
            if result = None then ret None
            else
              thenc (sys (Close handler)) (
              thenc (free buffer) (
              ret (Some ())))))))))))))"

record rs_answers =
  rs_connect :: int
  rs_getsockname :: "in6_addr option"
  rs_recvfrom :: "recv_answer list"
  rs_ioctl_hw :: "u8 list option"
  rs_errno :: int
  rs_signal :: "int option"

primrec listenRouterSolicit_loop :: "rs_answers list \<Rightarrow> int \<Rightarrow> ('z world_scheme, unit) cm" where
  "listenRouterSolicit_loop [] ndpMulticastHandler =
     bindc (gets Thread_listenRouterSolicit_cancel) (\<lambda>cancel.
     if cancel then ret () else raise OutOfFuel)"
| "listenRouterSolicit_loop (a # answers) ndpMulticastHandler =
     bindc (gets Thread_listenRouterSolicit_cancel) (\<lambda>cancel.
     if cancel then ret ()
     else
       thenc (listenRouterSolicit_round (rs_connect a) (rs_getsockname a) (rs_recvfrom a)
         (rs_ioctl_hw a) (rs_errno a) ndpMulticastHandler) (
       thenc (on_signal (rs_signal a)) (
       listenRouterSolicit_loop answers ndpMulticastHandler)))"

text \<open>
  \<open>socket\<close> and \<open>socket'\<close> are the descriptors for receiving and for sending, \<open>bindif\<close> and \<open>bindif'\<close>
  the results of binding them to the interface. The message about a failing \<open>bind\<close> has a
  conversion more than it has arguments.
\<close>

definition Thread_listenRouterSolicit ::
  "int \<Rightarrow> int \<Rightarrow> int \<Rightarrow> int \<Rightarrow> int \<Rightarrow> int \<Rightarrow> c_string \<Rightarrow> rs_answers list
    \<Rightarrow> ('z world_scheme, unit option) cm" where
  "Thread_listenRouterSolicit socket socket' bindif bindif' join bind lanIfName answers =
     (let ndpMulticastHandler = socket; ndpHandler = socket' in
      if ndpMulticastHandler < 0 then ret None
      else if ndpHandler < 0 then ret None
      else
        bindc (stack_alloc (replicate (unat sizeof_ifreq) (Byte 0))) (\<lambda>bindToLanDevReq.
        thenc (strcpy (ifr_name bindToLanDevReq) IFNAMSIZ lanIfName) (
        bindc
          (if bindif < 0 then sys (Close ndpMulticastHandler)
           else if bindif' < 0 then sys (Close ndpHandler)
           else if join < 0 then sys (Close ndpMulticastHandler)
           else if bind < 0 then raise BadVararg
           else
             thenc (listenRouterSolicit_loop answers ndpMulticastHandler) (
             thenc (sys (Close ndpMulticastHandler)) (
             sys (Close ndpHandler)))) (\<lambda>_.
        thenc (stack_free bindToLanDevReq) (ret (Some ()))))))"

section \<open>The start of the program\<close>

text \<open>
  \<open>argv\<close> as the list of the arguments; the array ends with a NULL. \<open>atoi\<close> skips white space and
  reads a sign and digits. \<open>inet_pton\<close> is the address a text stands for, if it is one.
\<close>

definition argv_at :: "u8 list list \<Rightarrow> nat \<Rightarrow> ('z cheap_scheme, c_string) cm" where
  "argv_at argv i = (if i < length argv then ret (Some (argv ! i))
     else if i = length argv then ret None else raise OutOfBounds)"

definition first_char :: "c_string \<Rightarrow> ('z cheap_scheme, u8) cm" where
  "first_char s = (case s of None \<Rightarrow> raise NullDeref | Some [] \<Rightarrow> ret 0 | Some (c # _) \<Rightarrow> ret c)"

definition is_digit :: "u8 \<Rightarrow> bool" where
  "is_digit c \<longleftrightarrow> 48 \<le> c \<and> c \<le> 57"

definition is_white :: "u8 \<Rightarrow> bool" where
  "is_white c \<longleftrightarrow> c = 32 \<or> 9 \<le> c \<and> c \<le> 13"

definition digits_value :: "u8 list \<Rightarrow> int" where
  "digits_value s = foldl (\<lambda>v c. 10 * v + (uint c - 48)) 0 (takeWhile is_digit s)"

definition atoi_value :: "u8 list \<Rightarrow> int" where
  "atoi_value s = (case dropWhile is_white s of
       [] \<Rightarrow> 0
     | c # rest \<Rightarrow> if c = 45 then - digits_value rest else if c = 43 then digits_value rest
         else digits_value (c # rest))"

text \<open>The C standard leaves \<open>atoi\<close> undefined when the value is none of \<open>int\<close>.\<close>

definition atoi :: "u8 list \<Rightarrow> ('z cheap_scheme, int) cm" where
  "atoi s = (let v = atoi_value s in
     if - 2147483648 \<le> v \<and> v \<le> 2147483647 then ret v else raise Unrepresentable)"

text \<open>\<open>None\<close> when \<open>main\<close> returns -1, otherwise whether to use DHCPv6 and the two interfaces.\<close>

definition main_arguments ::
  "(u8 list \<Rightarrow> in6_addr option) \<Rightarrow> u8 list list
    \<Rightarrow> ('z world_scheme, (bool \<times> c_string \<times> c_string) option) cm" where
  "main_arguments inet_pton argv =
     (let argc = length argv in
      if argc \<le> 1 then ret None
      else
        bindc
          (if argc \<ge> 3 then ret True
           else
             bindc (bindc (argv_at argv 1) first_char) (\<lambda>c1.
             if c1 = 100 then ret False
             else bindc (bindc (argv_at argv 2) first_char) (\<lambda>c2. ret (c2 \<noteq> 115)))) (\<lambda>ok.
        if \<not> ok then ret None
        else
          bindc (bindc (argv_at argv 1) first_char) (\<lambda>c1.
          bindc
            (if c1 = 100 then bindc (argv_at argv 3) (\<lambda>wanIfName. ret (Some (True, wanIfName)))
             else if c1 = 115 then
               bindc (argv_at argv 3) (\<lambda>text.
               bindc (case text of None \<Rightarrow> raise NullDeref
                   | Some s \<Rightarrow> ret (case inet_pton s of None \<Rightarrow> 0 | Some a \<Rightarrow> a)) (\<lambda>staticPrefix.
               bindc (gets prefix_ptr) (\<lambda>prefix.
               thenc (store_raw (prefix_Prefix prefix) (map Byte (in6_bytes staticPrefix))) (
               thenc (store32 (prefix_PreferredLifetime prefix) 24000) (
               thenc (store32 (prefix_ValidLifetime prefix) 48000) (
               bindc (argv_at argv 4) (\<lambda>digits.
               bindc (case digits of None \<Rightarrow> raise NullDeref | Some s \<Rightarrow> atoi s) (\<lambda>n.
               thenc (store8 (prefix_PrefixLength prefix) (of_int n)) (
               ret (Some (False, None)))))))))))
             else ret None) (\<lambda>mode.
          case mode of
            None \<Rightarrow> ret None
          | Some (useDhcp, wanIfName) \<Rightarrow>
              bindc (argv_at argv 2) (\<lambda>lanIfName. ret (Some (useDhcp, wanIfName, lanIfName)))))))"

text \<open>The rest of the start: the result of \<open>utils_Init\<close> is dropped, \<open>sigint\<close> and \<open>sigterm\<close> say
  whether registering the handler worked.\<close>

definition main_start ::
  "(u8 list \<Rightarrow> in6_addr option) \<Rightarrow> u8 list list \<Rightarrow> int \<Rightarrow> int \<Rightarrow> int \<Rightarrow> bool \<Rightarrow> bool
    \<Rightarrow> ('z world_scheme, (bool \<times> c_string \<times> c_string) option) cm" where
  "main_start inet_pton argv socket setsockopt errno sigint sigterm =
     bindc (main_arguments inet_pton argv) (\<lambda>mode.
     case mode of
       None \<Rightarrow> ret None
     | Some (useDhcp, wanIfName, lanIfName) \<Rightarrow>
         thenc (utils_Init socket setsockopt errno lanIfName) (
         if \<not> sigint then ret None
         else if \<not> sigterm then ret None
         else ret (Some (useDhcp, wanIfName, lanIfName))))"

text \<open>What the command lines do, over the structure \<open>_prefix\<close> in block \<open>pb\<close>.\<close>

definition static_prefix :: "in6_addr option \<Rightarrow> u8 list \<Rightarrow> dh_opt_IA_Prefix" where
  "static_prefix addr digits = \<lparr>PreferredLifetime = 24000, ValidLifetime = 48000,
     PrefixLength = of_int (atoi_value digits), Prefix = (case addr of None \<Rightarrow> 0 | Some a \<Rightarrow> a)\<rparr>"

definition starts_with :: "u8 \<Rightarrow> u8 list \<Rightarrow> bool" where
  "starts_with c s \<longleftrightarrow> (case s of [] \<Rightarrow> c = 0 | x # _ \<Rightarrow> x = c)"

definition command_line_spec ::
  "(u8 list \<Rightarrow> in6_addr option) \<Rightarrow> u8 list list \<Rightarrow> nat \<Rightarrow> 'z world_scheme
    \<Rightarrow> c_fault + (bool \<times> c_string \<times> c_string) option \<times> 'z world_scheme" where
  "command_line_spec inet_pton argv pb w = (case argv of
       program # mode # lan # rest \<Rightarrow>
         if starts_with 100 mode then
           Inr (Some (True, (if rest = [] then None else Some (hd rest)), Some lan), w)
         else if starts_with 115 mode then
           (case rest of
              prefix # digits # _ \<Rightarrow>
                if atoi_value digits < - 2147483648 \<or> 2147483647 < atoi_value digits then Inl Unrepresentable
                else Inr (Some (False, None, Some lan),
                  set_block pb (map Byte (dh_opt_IA_Prefix_bytes (static_prefix (inet_pton prefix) digits))) w)
            | _ \<Rightarrow> Inl NullDeref)
         else Inr (None, w)
     | [program, mode] \<Rightarrow> if starts_with 100 mode then Inr (None, w) else Inl NullDeref
     | _ \<Rightarrow> Inr (None, w))"

lemma first_char_eq: "first_char (Some s) w = Inr (case s of [] \<Rightarrow> 0 | c # _ \<Rightarrow> c, w)"
  by (simp add: first_char_def cm_simps split: list.split)

lemma starts_with_char: "starts_with c s \<longleftrightarrow> (case s of [] \<Rightarrow> 0 | x # _ \<Rightarrow> x) = c"
  by (auto simp: starts_with_def split: list.split)

lemma prefix_store_address:
  assumes "blocks w pb = Some (map Byte (dh_opt_IA_Prefix_bytes r))"
  shows "store_raw (Ptr pb 9) (map Byte (in6_bytes a)) w =
      Inr ((), set_block pb (map Byte (dh_opt_IA_Prefix_bytes (r\<lparr>Prefix := a\<rparr>))) w)"
  using assms by (simp add: cm_simps dh_opt_IA_Prefix_bytes_def patch_def)

lemma argv_at_nth:
  "argv_at (p # argv) 1 w = (case argv of [] \<Rightarrow> Inr (None, w) | m # _ \<Rightarrow> Inr (Some m, w))"
  "argv_at (p # m # argv) 2 w = (case argv of [] \<Rightarrow> Inr (None, w) | l # _ \<Rightarrow> Inr (Some l, w))"
  "argv_at (p # m # l # argv) 3 w = (case argv of [] \<Rightarrow> Inr (None, w) | t # _ \<Rightarrow> Inr (Some t, w))"
  "argv_at (p # m # l # t # argv) 4 w = (case argv of [] \<Rightarrow> Inr (None, w) | d # _ \<Rightarrow> Inr (Some d, w))"
  by (simp_all add: argv_at_def cm_simps numeral_2_eq_2 numeral_3_eq_3 eval_nat_numeral split: list.split)

lemma main_arguments_run:
  assumes ptr: "prefix_ptr w = Ptr pb 0" and blk: "blocks w pb = Some (map Byte (dh_opt_IA_Prefix_bytes r))"
  shows "main_arguments inet_pton argv w = command_line_spec inet_pton argv pb w"
proof -
  consider "length argv \<le> 1" | p m where "argv = [p, m]" | p m l rest where "argv = p # m # l # rest"
    by (cases argv rule: remdups_adj.cases; cases "tl (tl argv)") auto
  then show ?thesis
  proof cases
    case 1
    then show ?thesis
      by (cases argv) (simp_all add: main_arguments_def command_line_spec_def ret_apply)
  next
    case 2
    then show ?thesis
      by (simp add: main_arguments_def command_line_spec_def bindc_apply ret_apply first_char_eq
          argv_at_nth [simplified] starts_with_char) (simp add: first_char_def raise_apply)
  next
    case 3
    have static: "main_arguments inet_pton argv w = command_line_spec inet_pton argv pb w"
      if "starts_with 115 m"
      using 3 that ptr blk
      by (cases r; cases rest; cases "tl rest")
        (simp_all add: main_arguments_def command_line_spec_def bindc_apply thenc_apply ret_apply raise_apply
          gets_apply first_char_eq argv_at_nth argv_at_nth [simplified] starts_with_char prefix_access
          prefix_store_address static_prefix_def atoi_def Let_def)
    show ?thesis
    proof (cases "starts_with 115 m")
      case True
      then show ?thesis by (rule static)
    next
      case False
      then show ?thesis using 3
        by (cases rest) (simp_all add: main_arguments_def command_line_spec_def bindc_apply ret_apply
          first_char_eq argv_at_nth argv_at_nth [simplified] starts_with_char)
    qed
  qed
qed

section \<open>Properties\<close>

text \<open>A process after its start: a prefix, a receive buffer, the request of interface \<open>lo\<close>.\<close>

definition zero_prefix :: dh_opt_IA_Prefix where
  "zero_prefix = \<lparr>PreferredLifetime = 0, ValidLifetime = 0, PrefixLength = 0, Prefix = 0\<rparr>"

definition daemon_world :: "dh_opt_IA_Prefix \<Rightarrow> world" where
  "daemon_world r = sample_world [map Byte (dh_opt_IA_Prefix_bytes r), map Byte (replicate 64 0),
     ifreq_image [108, 111]] 1000 \<lparr>utils_handler := 5, utils_request := Ptr 2 0\<rparr>"

lemma daemon_world_facts:
  "advertiser [108, 111] r (daemon_world r)" "heap_wf (daemon_world r)" "prefix_holds (daemon_world r) r"
  "receive_buffer (daemon_world r) 1 64" "utils_request (daemon_world r) = Ptr 2 0"
  "prefix_ptr (daemon_world r) = Ptr 0 0" "avail (daemon_world r) = 1000" "trace (daemon_world r) = []"
  "\<not> Thread_sendRouterAdv_cancel (daemon_world r)" "utils_handler (daemon_world r) = 5"
proof -
  have img: "take (Suc (Suc (Suc 0))) (ifreq_image [108, 111]) = [Byte 108, Byte 111, Byte 0]"
    "length (ifreq_image [108, 111]) = 40"
    by (simp_all add: ifreq_image_def)
  have request: "blocks (daemon_world r) 2 = Some (ifreq_image [108, 111])" "next_block (daemon_world r) = 3"
    by (simp_all add: daemon_world_def del: replicate_numeral_Cons)
  show "heap_wf (daemon_world r)" "prefix_holds (daemon_world r) r"
    "utils_request (daemon_world r) = Ptr 2 0" "prefix_ptr (daemon_world r) = Ptr 0 0"
    "avail (daemon_world r) = 1000" "trace (daemon_world r) = []"
    "\<not> Thread_sendRouterAdv_cancel (daemon_world r)" "utils_handler (daemon_world r) = 5"
    by (simp_all add: daemon_world_def heap_wf_def prefix_holds_def sample_world_def del: replicate_numeral_Cons)
  then show "advertiser [108, 111] r (daemon_world r)"
    using img request by (simp add: advertiser_def utils_ready_def)
  show "receive_buffer (daemon_world r) 1 64"
    unfolding receive_buffer_def
    by (intro conjI exI [of _ "replicate 64 0"])
      (simp_all add: daemon_world_def sample_world_def del: replicate_numeral_Cons)
qed

lemma sample_reply_delegates: "reply_delegates sample_reply sample_delegation 1"
  unfolding reply_delegates_def
  using sample_reply_facts(1,3-7) by (intro exI [of _ sample_transId] exI [of _ sample_reply_opts]) auto

lemma delegated_sample:
  "delegated_prefix sample_delegation = \<lparr>PreferredLifetime = 0x02020202, ValidLifetime = 0x02020202,
     PrefixLength = 64, Prefix = 0x02020202020202020202020202020202\<rparr>"
  by (simp add: delegated_prefix_def sample_delegation_def segment_def from_be_def)

text \<open>From the delegation to the advertisement: one round of the DHCPv6 thread in which the
  server delegates a prefix, then one of the advertising thread. The structure \<open>_prefix\<close> holds
  the fields of the delegated IA Prefix in host order with the length 64, and what goes out
  to all nodes is read by a receiver as the advertisement of exactly that prefix, from the
  interface's hardware address.\<close>

theorem delegated_prefix_advertised:
  fixes w :: "'z world_scheme"
  assumes "advertiser name r w" and "receive_buffer w bb (unat mtu)"
    and "utils_request w \<noteq> Ptr bb 0" and "prefix_ptr w \<noteq> Ptr bb 0"
    and "reply_delegates datagram data n" and "length datagram \<le> unat mtu"
    and "220 + 16 * n \<le> avail w" and "0 \<le> sendto"
    and "length sockaddr = 16" and "0 \<le> connect"
  shows "\<exists>w' packet. thenc
      (requestDhcpPrefix_round (Some (sec, nsec)) rng sendto (Some datagram) handler (Ptr bb 0) mtu)
      (sendRouterAdv_round connect (Some src) (Some sockaddr) errno ndpHandler secs) w = Inr ((), w') \<and>
    prefix_holds w' (delegated_prefix data) \<and>
    Send_Raw ndpHandler all_nodes 255 (map Byte packet) \<in> set (trace w') \<and>
    ra_decode packet = Some (0, advert_of (segment 2 6 sockaddr) (delegated_prefix data))"
proof -
  have adv: "heap_wf w" "utils_ready name w" "utils_request w \<noteq> prefix_ptr w"
    using assms(1) by (simp_all add: advertiser_def)
  obtain pb where pb: "prefix_ptr w = Ptr pb 0" "blocks w pb = Some (map Byte (dh_opt_IA_Prefix_bytes r))"
    using assms(1) by (auto simp: advertiser_def prefix_holds_def)
  have "pb \<noteq> bb" using assms(4) pb(1) by auto
  then obtain w1 where w1: "requestDhcpPrefix_round (Some (sec, nsec)) rng sendto (Some datagram) handler
      (Ptr bb 0) mtu w = Inr (Some 0, w1)" "prefix_holds w1 (delegated_prefix data)"
    "world_keeps {bb, pb} w w1" "avail w1 = avail w - 76 - 16 * n"
    using dhcp_round_run [of w bb mtu datagram data n pb _ sendto sec nsec rng handler] assms pb adv(1)
    by auto
  have "utils_ready name w1"
    by (rule utils_ready_keeps [OF adv(2) w1(3)]) (use assms(3) adv(3) pb(1) in auto)
  then have adv1: "advertiser name (delegated_prefix data) w1"
    using w1(2,3) adv by (simp add: advertiser_def world_keeps_def same_globals_def)
  have mem1: "144 \<le> avail w1" using assms(7) w1(4) by simp
  obtain w' packet where "sendRouterAdv_round connect (Some src) (Some sockaddr) errno ndpHandler secs w1 =
      Inr ((), w')" "trace w' = trace w1 @ [Lock_Prefix, Send_Raw ndpHandler all_nodes 255 (map Byte packet),
        Unlock_Prefix, Sleep secs]"
    "ra_decode packet = Some (0, advert_of (segment 2 6 sockaddr) (delegated_prefix data))"
    "advertiser name (delegated_prefix data) w'"
    using sendRouterAdv_round_run [OF adv1 assms(9) mem1 assms(10), of src errno ndpHandler secs] by blast
  then show ?thesis using w1(1)
    by (intro exI [of _ w'] exI [of _ packet]) (simp add: thenc_apply advertiser_def)
qed

theorem delegated_prefix_advertised_witness:
  "\<exists>w' packet. thenc
      (requestDhcpPrefix_round (Some (3, 5)) (\<lambda>_. 1) 44 (Some sample_reply) 9 (Ptr 1 0) 64)
      (sendRouterAdv_round 0 (Some 7) (Some ([1, 0] @ [2, 4, 6, 8, 10, 12] @ replicate 8 0)) 0 4 200)
      (daemon_world zero_prefix) = Inr ((), w') \<and>
    ra_decode packet = Some (0, advert_of [2, 4, 6, 8, 10, 12] \<lparr>PreferredLifetime = 0x02020202,
      ValidLifetime = 0x02020202, PrefixLength = 64, Prefix = 0x02020202020202020202020202020202\<rparr>)"
proof -
  have "segment 2 6 ([1, 0] @ [2, 4, 6, 8, 10, 12] @ replicate 8 0 :: u8 list) = [2, 4, 6, 8, 10, 12]"
    by (simp add: segment_def)
  then show ?thesis
    using delegated_prefix_advertised [where w = "daemon_world zero_prefix" and name = "[108, 111]"
        and r = zero_prefix and bb = 1 and mtu = 64 and sec = 3 and nsec = 5 and rng = "\<lambda>_. 1"
        and sendto = 44 and handler = 9 and connect = 0 and src = 7 and errno = 0 and ndpHandler = 4
        and secs = 200 and sockaddr = "[1, 0] @ [2, 4, 6, 8, 10, 12] @ replicate 8 0",
        OF _ _ _ _ sample_reply_delegates]
    by (auto simp: daemon_world_facts daemon_world_facts(4) [unfolded One_nat_def] sample_reply_facts
        delegated_sample simp del: replicate_numeral_Cons)
qed

text \<open>C27: A renewal whose request cannot be sent, as the second one cannot through the socket the
  first exchange closed: the round goes on as if a reply had arrived and converts the
  lifetimes of the stored prefix a second time, so that they are those of the delegation
  with their bytes reversed.\<close>

theorem failed_renewal_swaps_lifetimes:
  fixes w :: "'z world_scheme"
  assumes "heap_wf w" and "prefix_holds w r" and "receive_buffer w bb (unat mtu)"
    and "prefix_ptr w \<noteq> Ptr bb 0"
    and "reply_delegates datagram data n" and "length datagram \<le> unat mtu"
    and "192 + 16 * n \<le> avail w" and "0 \<le> sendto" and "sendto' < 0"
  shows "\<exists>w'. thenc
      (requestDhcpPrefix_round (Some (sec, nsec)) rng sendto (Some datagram) handler (Ptr bb 0) mtu)
      (requestDhcpPrefix_round (Some (sec', nsec')) rng' sendto' recv handler (Ptr bb 0) mtu) w =
      Inr (Some 1, w') \<and>
    prefix_holds w' ((delegated_prefix data)
      \<lparr>PreferredLifetime := be32toh (PreferredLifetime (delegated_prefix data)),
       ValidLifetime := be32toh (ValidLifetime (delegated_prefix data))\<rparr>)"
proof -
  obtain pb where pb: "prefix_ptr w = Ptr pb 0" "blocks w pb = Some (map Byte (dh_opt_IA_Prefix_bytes r))"
    using assms(2) by (auto simp: prefix_holds_def)
  have "pb \<noteq> bb" using assms(4) pb(1) by auto
  then obtain w1 where w1: "requestDhcpPrefix_round (Some (sec, nsec)) rng sendto (Some datagram) handler
      (Ptr bb 0) mtu w = Inr (Some 0, w1)" "prefix_holds w1 (delegated_prefix data)"
    "world_keeps {bb, pb} w w1" "avail w1 = avail w - 76 - 16 * n"
    using dhcp_round_run [of w bb mtu datagram data n pb _ sendto sec nsec rng handler] assms pb by auto
  have wf1: "heap_wf w1" and mem1: "116 \<le> avail w1"
    using assms(1,7) w1(3,4) by (simp_all add: world_keeps_def)
  obtain w' where "requestDhcpPrefix_round (Some (sec', nsec')) rng' sendto' recv handler (Ptr bb 0) mtu w1 =
      Inr (Some 1, w')" "prefix_holds w' (prefix_settle (delegated_prefix data))"
    using dhcp_round_send_failed_run [OF wf1 w1(2) mem1 assms(9), of sec' nsec' rng' recv handler "Ptr bb 0" mtu]
    by blast
  then show ?thesis using w1(1)
    by (simp add: thenc_apply prefix_settle_def) (simp add: delegated_prefix_def)
qed

theorem failed_renewal_swaps_lifetimes_witness:
  "\<exists>w'. thenc (requestDhcpPrefix_round (Some (3, 5)) (\<lambda>_. 1) 44 (Some sample_reply) 9 (Ptr 1 0) 64)
      (requestDhcpPrefix_round (Some (4, 5)) (\<lambda>_. 2) (-1) None 9 (Ptr 1 0) 64) (daemon_world zero_prefix) =
      Inr (Some 1, w')"
  using failed_renewal_swaps_lifetimes [OF daemon_world_facts(2,3) _ _ sample_reply_delegates,
      where bb = 1 and mtu = 64 and sec = 3 and nsec = 5 and rng = "\<lambda>_. 1" and sendto = 44 and handler = 9
        and sendto' = "-1" and sec' = 4 and nsec' = 5 and rng' = "\<lambda>_. 2" and recv = None]
  by (auto simp: daemon_world_facts daemon_world_facts(4) [unfolded One_nat_def] sample_reply_facts
      simp del: replicate_numeral_Cons)

text \<open>C33: The answer to a Router Solicitation: whatever else arrives first, the round sends one
  advertisement of the prefix, to the source of the solicitation, under the mutex.\<close>

theorem solicitation_answered:
  fixes w :: "'z world_scheme"
  assumes "advertiser name r w" and "length sockaddr = 16" and "144 \<le> avail w" and "0 \<le> connect"
    and "\<forall>(d, s) \<in> set skipped. 2 \<le> length d \<and> \<not> is_router_solicit d"
    and "is_router_solicit datagram"
  shows "\<exists>w' packet. listenRouterSolicit_round connect (Some src)
      (map Some skipped @ Some (datagram, client) # answers) (Some sockaddr) errno handler w = Inr ((), w') \<and>
    trace w' = trace w @ [Lock_Prefix, Send_Raw handler client 255 (map Byte packet), Unlock_Prefix] \<and>
    ra_decode packet = Some (0, advert_of (segment 2 6 sockaddr) r) \<and> advertiser name r w'"
  using listenRouterSolicit_round_run [OF assms, of src client answers errno handler] by blast

theorem solicitation_answered_witness:
  "\<exists>w' packet. listenRouterSolicit_round 0 (Some 7)
      (map Some [([134, 0, 9], 1)] @ Some ([133, 0, 7], 3) # []) (Some (replicate 16 8)) 0 4
      (daemon_world zero_prefix) = Inr ((), w') \<and>
    trace w' = [Lock_Prefix, Send_Raw 4 3 255 (map Byte packet), Unlock_Prefix]"
  using solicitation_answered [OF daemon_world_facts(1) [of zero_prefix], where sockaddr = "replicate 16 8"
      and connect = 0 and skipped = "[([134, 0, 9], 1)]" and datagram = "[133, 0, 7]" and src = 7
      and client = 3 and answers = "[]" and errno = 0 and handler = 4]
  by (auto simp: daemon_world_facts is_router_solicit_def simp del: replicate_numeral_Cons)

text \<open>C35: The command line. \<open>d\<close> with an interface starts DHCPv6, on the interface NULL when none is
  named; \<open>s\<close> stores the static prefix with lifetimes of 24000 and 48000 seconds, the
  unspecified address when the text is no address, the length modulo 256; a length that is no
  \<open>int\<close> is undefined behaviour of \<open>atoi\<close>; a missing prefix or length, or \<open>s\<close> alone,
  dereferences NULL; anything else is refused.\<close>

theorem command_line:
  assumes "prefix_ptr w = Ptr pb 0" and "blocks w pb = Some (map Byte (dh_opt_IA_Prefix_bytes r))"
  shows "main_arguments inet_pton argv w = command_line_spec inet_pton argv pb w"
  by (rule main_arguments_run [OF assms])

theorem command_line_witness:
  "main_arguments (\<lambda>_. Some 9) [[112], [115], [108, 111], [58, 58], [54, 52]] (daemon_world zero_prefix) =
    Inr (Some (False, None, Some [108, 111]), set_block 0 (map Byte (dh_opt_IA_Prefix_bytes
      \<lparr>PreferredLifetime = 24000, ValidLifetime = 48000, PrefixLength = 64, Prefix = 9\<rparr>)) (daemon_world zero_prefix))"
proof -
  have "atoi_value [54, 52] = 64"
    by (simp add: atoi_value_def is_white_def digits_value_def is_digit_def)
  moreover have "blocks (daemon_world zero_prefix) 0 = Some (map Byte (dh_opt_IA_Prefix_bytes zero_prefix))"
    by (simp add: daemon_world_def sample_world_def del: replicate_numeral_Cons)
  ultimately show ?thesis
    using command_line [of "daemon_world zero_prefix" 0 zero_prefix "\<lambda>_. Some 9"
        "[[112], [115], [108, 111], [58, 58], [54, 52]]"]
    by (simp add: daemon_world_facts command_line_spec_def starts_with_def static_prefix_def)
qed

end
