(* ===== verification/Thread_Loops.thy ===== *)
theory Thread_Loops
  imports Daemon_Threads
begin

text \<open>
  The threads from start to end. Their loops have one shape: test the cancel flag, run a round on
  the next answers, take a signal. The locale \<open>answered_loop\<close> states it and carries what a round
  does over the whole loop; it is interpreted on the loops of the three threads. Also what the
  threads do when their setup fails.
\<close>

section \<open>Loops over answers\<close>

text \<open>What the rounds on a list of answers do to a ghost state and what they call, one by one.\<close>

fun rounds_as :: "('g \<Rightarrow> 'a \<Rightarrow> 'c \<Rightarrow> 'g \<Rightarrow> bool) \<Rightarrow> 'g \<Rightarrow> 'a list \<Rightarrow> 'c list \<Rightarrow> 'g \<Rightarrow> bool" where
  "rounds_as R g [] [] g' \<longleftrightarrow> g' = g"
| "rounds_as R g (a # as) (c # cs) g' \<longleftrightarrow> (\<exists>g1. R g a c g1 \<and> rounds_as R g1 as cs g')"
| "rounds_as R g _ _ g' \<longleftrightarrow> False"

lemma rounds_as_snoc:
  "rounds_as R g as cs g1 \<Longrightarrow> R g1 a c g2 \<Longrightarrow> rounds_as R g (as @ [a]) (cs @ [c]) g2"
  by (induction R g as cs g1 rule: rounds_as.induct) auto

text \<open>Rounds that make the calls of some object each.\<close>

lemma rounds_as_objects:
  "rounds_as (\<lambda>_ a c _. \<exists>x. c = f x \<and> Q a x) g as cs g' \<Longrightarrow> \<exists>xs. cs = map f xs \<and> list_all2 Q as xs"
proof (induction as arbitrary: g cs)
  case Nil
  then show ?case by (cases cs) simp_all
next
  case (Cons a as)
  then obtain c cs' g1 x where cs: "cs = c # cs'" "c = f x" "Q a x"
    "rounds_as (\<lambda>_ a c _. \<exists>x. c = f x \<and> Q a x) g1 as cs' g'" by (cases cs) auto
  with Cons.IH obtain xs where "cs' = map f xs" "list_all2 Q as xs" by blast
  with cs show ?case by (intro exI [of _ "x # xs"]) simp
qed

text \<open>In the states in which \<open>P\<close> holds of the ghost state and the answers left, a round returns,
  acts as \<open>R\<close> says and leaves \<open>P\<close>.\<close>

definition rounds_serve where
  "rounds_serve round exited cancel R P \<longleftrightarrow> (\<forall>g a as (w :: 'z world_scheme). P g (a # as) w \<and> \<not> cancel w \<longrightarrow>
     (\<exists>x w1 c g1. round a w = Inr (x, w1) \<and> \<not> exited x \<and> trace w1 = trace w @ c \<and> R g a c g1 \<and>
        P g1 as w1 \<and> same_globals w w1))"

lemma handle_apply: "handle close w = Inr ((), w\<lparr>Thread_sendRouterAdv_cancel := True,
    Thread_listenRouterSolicit_cancel := True, Thread_requestDhcpPrefix_cancel := True,
    trace := trace w @ [Close (utils_handler w)]\<rparr>)"
  by (simp add: handle_def utils_Dispose_def cm_simps)

locale answered_loop =
  fixes loop :: "'a list \<Rightarrow> ('z world_scheme, 'r) cm"
    and round :: "'a \<Rightarrow> ('z world_scheme, 'x) cm"
    and signal :: "'a \<Rightarrow> int option"
    and cancel :: "'z world_scheme \<Rightarrow> bool"
    and exited :: "'x \<Rightarrow> bool"
    and finished :: 'r
  assumes loop_nil: "loop [] w = (if cancel w then Inr (finished, w) else Inl OutOfFuel)"
    and loop_cancelled: "cancel w \<Longrightarrow> loop (a # as) w = Inr (finished, w)"
    and loop_round: "\<not> cancel w \<Longrightarrow> round a w = Inr (x, w1) \<Longrightarrow> \<not> exited x \<Longrightarrow>
       loop (a # as) w = thenc (on_signal (signal a)) (loop as) w1"
    and cancel_global: "same_globals w w' \<Longrightarrow> cancel w' = cancel w"
    and cancel_handled: "handle close w = Inr ((), w') \<Longrightarrow> cancel w'"
begin

lemma cancelled: "cancel w \<Longrightarrow> loop as w = Inr (finished, w)"
  by (cases as) (simp_all add: loop_nil loop_cancelled)

text \<open>Rounds without a signal.\<close>

lemma rounds_run:
  assumes step: "rounds_serve round exited cancel R P"
    and "P g (rounds @ later) w" and "\<not> cancel w" and "\<forall>a \<in> set rounds. signal a = None"
  shows "\<exists>w1 cs g1. loop (rounds @ rest) w = loop rest w1 \<and> trace w1 = trace w @ concat cs \<and>
    rounds_as R g rounds cs g1 \<and> P g1 later w1 \<and> same_globals w w1"
  using assms(2-4)
proof (induction rounds arbitrary: g w)
  case Nil
  then show ?case by (intro exI [of _ w] exI [of _ "[]"] exI [of _ g]) simp
next
  case (Cons a rounds)
  obtain x w1 c g1 where one: "round a w = Inr (x, w1)" "\<not> exited x" "trace w1 = trace w @ c"
    "R g a c g1" "P g1 (rounds @ later) w1" "same_globals w w1"
    using step Cons.prems(1,2) unfolding rounds_serve_def by (metis append_Cons)
  have c1: "\<not> cancel w1" using cancel_global [OF one(6)] Cons.prems(2) by simp
  have "loop ((a # rounds) @ rest) w = loop (rounds @ rest) w1"
    using loop_round [OF Cons.prems(2) one(1,2), of "rounds @ rest"] Cons.prems(3)
    by (simp add: on_signal_def thenc_apply ret_apply)
  moreover obtain w2 cs g2 where "loop (rounds @ rest) w1 = loop rest w2"
    "trace w2 = trace w1 @ concat cs" "rounds_as R g1 rounds cs g2" "P g2 later w2" "same_globals w1 w2"
    using Cons.IH [OF one(5) c1] Cons.prems(3) by auto
  ultimately show ?case using one(3,4,6) same_globals_trans
    by (intro exI [of _ w2] exI [of _ "c # cs"] exI [of _ g2]) auto
qed

text \<open>As long as no signal comes the loop goes on; with the first one it ends.\<close>

lemma goes_on:
  assumes step: "rounds_serve round exited cancel R P"
    and "P g rounds w" and "\<not> cancel w" and "\<forall>a \<in> set rounds. signal a = None"
  shows "loop rounds w = Inl OutOfFuel"
  using rounds_run [OF step, of g rounds "[]" w "[]"] assms(2-4) cancel_global loop_nil by fastforce

lemma ends_with_signal:
  assumes step: "rounds_serve round exited cancel R P"
    and "P g (rounds @ [final]) w" and "\<not> cancel w" and "\<forall>a \<in> set rounds. signal a = None"
    and "signal final = Some close"
  shows "\<exists>w1 cs g1. loop (rounds @ final # rest) w = thenc (handle close) (ret finished) w1 \<and>
    trace w1 = trace w @ concat cs \<and> rounds_as R g (rounds @ [final]) cs g1 \<and> P g1 [] w1 \<and> same_globals w w1"
proof -
  obtain w1 cs g1 where w1: "loop (rounds @ final # rest) w = loop (final # rest) w1"
    "trace w1 = trace w @ concat cs" "rounds_as R g rounds cs g1" "P g1 [final] w1" "same_globals w w1"
    using rounds_run [OF step assms(2-4), of "final # rest"] by blast
  have c1: "\<not> cancel w1" using cancel_global [OF w1(5)] assms(3) by simp
  obtain x w2 c g2 where w2: "round final w1 = Inr (x, w2)" "\<not> exited x" "trace w2 = trace w1 @ c"
    "R g1 final c g2" "P g2 [] w2" "same_globals w1 w2"
    using step w1(4) c1 unfolding rounds_serve_def by blast
  obtain w3 where w3: "handle close w2 = Inr ((), w3)" by (simp add: handle_apply)
  have "loop rest w3 = Inr (finished, w3)" by (rule cancelled [OF cancel_handled [OF w3]])
  then have "loop (final # rest) w1 = thenc (handle close) (ret finished) w2"
    using loop_round [OF c1 w2(1,2), of rest] w3 by (simp add: assms(5) on_signal_def thenc_apply ret_apply)
  with w1 w2 rounds_as_snoc [OF w1(3), of final c g2] show ?thesis
    by (intro exI [of _ w2] exI [of _ "cs @ [c]"] exI [of _ g2]) (auto intro: same_globals_trans)
qed

end

interpretation ra_loop: answered_loop "\<lambda>answers. sendRouterAdv_loop answers handler secs"
  "\<lambda>a. sendRouterAdv_round (ra_connect a) (ra_getsockname a) (ra_ioctl_hw a) (ra_errno a) handler secs"
  ra_signal Thread_sendRouterAdv_cancel "\<lambda>_. False" "()" for handler secs
  by unfold_locales (auto simp: cm_simps same_globals_def handle_apply)

interpretation rs_loop: answered_loop "\<lambda>answers. listenRouterSolicit_loop answers handler"
  "\<lambda>a. listenRouterSolicit_round (rs_connect a) (rs_getsockname a) (rs_recvfrom a) (rs_ioctl_hw a)
     (rs_errno a) handler"
  rs_signal Thread_listenRouterSolicit_cancel "\<lambda>_. False" "()" for handler
  by unfold_locales (auto simp: cm_simps same_globals_def handle_apply)

interpretation dhcp_loop: answered_loop "\<lambda>answers. requestDhcpPrefix_loop answers handler buffer mtu"
  "\<lambda>a. requestDhcpPrefix_round (da_clock a) (da_random a) (da_sendto a) (da_recv a) handler buffer mtu"
  da_signal Thread_requestDhcpPrefix_cancel "\<lambda>result. result = None" "Some ()" for handler buffer mtu
  by unfold_locales (auto simp: cm_simps same_globals_def handle_apply)

section \<open>Running the threads\<close>

text \<open>Answers with which an advertising round succeeds.\<close>

definition ra_ok :: "ra_answers \<Rightarrow> bool" where
  "ra_ok a \<longleftrightarrow> 0 \<le> ra_connect a \<and> ra_getsockname a \<noteq> None \<and>
     (\<exists>sockaddr. ra_ioctl_hw a = Some sockaddr \<and> length sockaddr = 16)"

definition ra_hardware :: "ra_answers \<Rightarrow> u8 list" where
  "ra_hardware a = segment 2 6 (the (ra_ioctl_hw a))"

text \<open>What one round adds to the trace.\<close>

definition ra_calls :: "int \<Rightarrow> u32 \<Rightarrow> u8 list \<Rightarrow> sys_call list" where
  "ra_calls handler secs packet =
     [Lock_Prefix, Send_Raw handler all_nodes 255 (map Byte packet), Unlock_Prefix, Sleep secs]"

lemma advertiser_keeps:
  assumes "advertiser name r w" and "world_keeps bs w w'"
    and "\<And>b. b \<in> bs \<Longrightarrow> utils_request w \<noteq> Ptr b 0 \<and> prefix_ptr w \<noteq> Ptr b 0"
  shows "advertiser name r w'"
proof -
  have "utils_ready name w'" "prefix_holds w' r"
    using utils_ready_keeps [OF _ assms(2)] prefix_holds_keeps [OF _ assms(2)] assms(1,3)
    by (auto simp: advertiser_def)
  then show ?thesis using assms(1,2) by (simp add: advertiser_def world_keeps_def same_globals_def)
qed

lemma sendRouterAdv_round_ok:
  fixes w :: "'z world_scheme"
  assumes "advertiser name r w" and "ra_ok a" and "144 \<le> avail w"
  shows "\<exists>w' packet. sendRouterAdv_round (ra_connect a) (ra_getsockname a) (ra_ioctl_hw a) (ra_errno a)
      handler secs w = Inr ((), w') \<and> trace w' = trace w @ ra_calls handler secs packet \<and>
    ra_decode packet = Some (0, advert_of (ra_hardware a) r) \<and>
    advertiser name r w' \<and> same_globals w w' \<and> avail w' = avail w - 16"
proof -
  obtain src sockaddr where a: "0 \<le> ra_connect a" "ra_getsockname a = Some src"
    "ra_ioctl_hw a = Some sockaddr" "length sockaddr = 16"
    using assms(2) by (auto simp: ra_ok_def)
  show ?thesis
    using sendRouterAdv_round_run [OF assms(1) a(4) assms(3) a(1), of src "ra_errno a" handler secs]
    by (simp add: a(2,3) ra_calls_def ra_hardware_def) blast
qed

text \<open>Ready to run advertising rounds on these answers.\<close>

definition ra_ready :: "u8 list \<Rightarrow> dh_opt_IA_Prefix \<Rightarrow> ra_answers list \<Rightarrow> 'z world_scheme \<Rightarrow> bool" where
  "ra_ready name r answers w \<longleftrightarrow> advertiser name r w \<and> list_all ra_ok answers \<and>
     (answers \<noteq> [] \<longrightarrow> 128 + 16 * length answers \<le> avail w)"

definition ra_advertises :: "int \<Rightarrow> u32 \<Rightarrow> dh_opt_IA_Prefix \<Rightarrow> unit \<Rightarrow> ra_answers \<Rightarrow> sys_call list \<Rightarrow> unit \<Rightarrow> bool" where
  "ra_advertises handler secs r = (\<lambda>_ a calls _. \<exists>packet. calls = ra_calls handler secs packet \<and>
     ra_decode packet = Some (0, advert_of (ra_hardware a) r))"

lemma ra_step:
  "rounds_serve (\<lambda>a. sendRouterAdv_round (ra_connect a) (ra_getsockname a) (ra_ioctl_hw a) (ra_errno a) handler secs)
     (\<lambda>_. False) Thread_sendRouterAdv_cancel (ra_advertises handler secs r) (\<lambda>_. ra_ready name r)"
  unfolding rounds_serve_def
proof (intro allI impI)
  fix g a as and w :: "'z world_scheme"
  assume ready: "ra_ready name r (a # as) w \<and> \<not> Thread_sendRouterAdv_cancel w"
  then have "advertiser name r w" "ra_ok a" "144 \<le> avail w" by (simp_all add: ra_ready_def)
  from sendRouterAdv_round_ok [OF this, of handler secs] obtain w1 packet where
    "sendRouterAdv_round (ra_connect a) (ra_getsockname a) (ra_ioctl_hw a) (ra_errno a) handler secs w = Inr ((), w1)"
    "trace w1 = trace w @ ra_calls handler secs packet" "ra_decode packet = Some (0, advert_of (ra_hardware a) r)"
    "advertiser name r w1" "same_globals w w1" "avail w1 = avail w - 16" by blast
  then show "\<exists>x w1 c g1. sendRouterAdv_round (ra_connect a) (ra_getsockname a) (ra_ioctl_hw a) (ra_errno a)
      handler secs w = Inr (x, w1) \<and> \<not> False \<and> trace w1 = trace w @ c \<and>
    ra_advertises handler secs r g a c g1 \<and> ra_ready name r as w1 \<and> same_globals w w1"
    using ready by (auto simp: ra_ready_def ra_advertises_def)
qed

lemma sendRouterAdv_loop_run:
  fixes w :: "'z world_scheme"
  assumes "ra_ready name r (rounds @ [final]) w"
    and "\<forall>a \<in> set rounds. ra_signal a = None" and "ra_signal final = Some close"
    and "\<not> Thread_sendRouterAdv_cancel w"
  shows "\<exists>w' packets. sendRouterAdv_loop (rounds @ final # later) handler secs w = Inr ((), w') \<and>
    trace w' = trace w @ concat (map (ra_calls handler secs) packets) @ [Close (utils_handler w)] \<and>
    list_all2 (\<lambda>a packet. ra_decode packet = Some (0, advert_of (ra_hardware a) r)) (rounds @ [final]) packets"
proof -
  obtain w1 cs where w1: "sendRouterAdv_loop (rounds @ final # later) handler secs w =
      thenc (handle close) (ret ()) w1" "trace w1 = trace w @ concat cs"
    "rounds_as (ra_advertises handler secs r) () (rounds @ [final]) cs ()" "same_globals w w1"
    using ra_loop.ends_with_signal [where P = "\<lambda>_ :: unit. ra_ready name r", OF ra_step assms(1,4,2,3)] by simp blast
  obtain packets where "cs = map (ra_calls handler secs) packets"
    "list_all2 (\<lambda>a packet. ra_decode packet = Some (0, advert_of (ra_hardware a) r)) (rounds @ [final]) packets"
    using rounds_as_objects [OF w1(3) [unfolded ra_advertises_def]] by blast
  then show ?thesis using w1(1,2,4)
    by (simp add: thenc_apply ret_apply handle_apply same_globals_def) blast
qed

lemma sendRouterAdv_loop_crash:
  fixes w :: "'z world_scheme"
  assumes "advertiser name r w" and "\<forall>a \<in> set rounds. ra_ok a \<and> ra_signal a = None"
    and "64 \<le> avail w" and "avail w < 128 + 16 * length rounds" and "\<not> Thread_sendRouterAdv_cancel w"
  shows "sendRouterAdv_loop rounds handler secs w = Inl NullDeref \<or> avail w < 144 \<and> rounds = []"
  using assms
proof (induction rounds arbitrary: w)
  case Nil
  then show ?case by simp
next
  case (Cons a rounds)
  obtain src sockaddr where a: "0 \<le> ra_connect a" "ra_getsockname a = Some src"
    "ra_ioctl_hw a = Some sockaddr" "length sockaddr = 16"
    using Cons.prems(2) by (auto simp: ra_ok_def)
  show ?case
  proof (cases "avail w < 144")
    case True
    then show ?thesis
      using sendRouterAdv_round_oom [OF Cons.prems(1) a(4) Cons.prems(3) True a(1)] Cons.prems(5) a(2,3)
      by (simp add: bindc_apply thenc_apply gets_apply)
  next
    case False
    obtain w1 packet where w1: "sendRouterAdv_round (ra_connect a) (ra_getsockname a) (ra_ioctl_hw a)
        (ra_errno a) handler secs w = Inr ((), w1)" "advertiser name r w1" "same_globals w w1"
      "avail w1 = avail w - 16"
      using sendRouterAdv_round_ok [of name r w a handler secs] Cons.prems False by auto
    have "rounds \<noteq> []" using Cons.prems(4) False by auto
    then have "sendRouterAdv_loop rounds handler secs w1 = Inl NullDeref"
      using Cons.IH [OF w1(2)] Cons.prems w1(3,4) False by (auto simp: same_globals_def)
    then show ?thesis using w1(1) Cons.prems(2,5)
      by (simp add: bindc_apply thenc_apply gets_apply ret_apply on_signal_def)
  qed
qed

text \<open>The request of an interface on the heap, and a field the kernel stores in it.\<close>

lemma ifreq_made:
  fixes w :: "'z world_scheme"
  assumes "length ifname < 16" and "40 \<le> avail w"
  shows "malloc sizeof_ifreq w = Inr (Ptr (next_block w) 0, push_block (replicate 40 Undef) w)"
    and "strcpy (ifr_name (Ptr (next_block w) 0)) IFNAMSIZ (Some ifname) (push_block (replicate 40 Undef) w) =
      Inr ((), push_block (ifreq_image ifname) w)"
proof -
  have "patch 0 (map Byte (ifname @ [0])) (replicate 40 Undef) = ifreq_image ifname"
    using assms(1) by (simp add: patch_def ifreq_image_def del: replicate_numeral_Cons)
  then show "strcpy (ifr_name (Ptr (next_block w) 0)) IFNAMSIZ (Some ifname) (push_block (replicate 40 Undef) w) =
      Inr ((), push_block (ifreq_image ifname) w)"
    using assms(1) by (simp add: strcpy_def IFNAMSIZ_def store_raw_simps length_ifreq_image
        del: replicate_numeral_Cons)
qed (use assms(2) in \<open>simp add: malloc_apply sizeof_ifreq_def del: replicate_numeral_Cons\<close>)

lemma ifreq_field:
  fixes w :: "'z world_scheme"
  assumes "length req = 40"
  shows "\<exists>req'. length req' = 40 \<and>
    store32 (ifr_ifru (Ptr (next_block w) 0)) i (push_block req w) = Inr ((), push_block req' w) \<and>
    load32 (ifr_ifru (Ptr (next_block w) 0)) (push_block req' w) = Inr (i, push_block req' w)"
  using assms segment_patch_same [of 16 "int_enc 4 i" req 4]
  by (intro exI [of _ "patch 16 (int_enc 4 i) req"])
    (simp add: store_as_apply load_as_apply store_raw_simps load_raw_simps int_enc_def)

lemma Thread_sendRouterAdv_setup:
  fixes w :: "'z world_scheme"
  assumes "0 \<le> socket" and "0 \<le> setsockopt" and "length ifname < 16" and "40 \<le> avail w"
  shows "\<exists>w1. Thread_sendRouterAdv socket setsockopt (Some ifname) secs answers w =
      thenc (sendRouterAdv_loop answers socket secs) (sys (Close socket)) w1 \<and>
    world_keeps {} w w1 \<and> trace w1 = trace w \<and> avail w1 = avail w - 40"
  using assms(1,2) ifreq_made [OF assms(3,4)] length_ifreq_image [OF assms(3)]
  by (intro exI [of _ "push_block (ifreq_image ifname) w"])
    (simp add: Thread_sendRouterAdv_def Let_def bindc_apply thenc_apply world_keeps_basic del: replicate_numeral_Cons)

section \<open>Answering solicitations\<close>

text \<open>The source of the first Router Solicitation, when what comes before it are datagrams of two
  octets or more.\<close>

fun first_solicit :: "recv_answer list \<Rightarrow> in6_addr option" where
  "first_solicit [] = None"
| "first_solicit (None # answers) = None"
| "first_solicit (Some (datagram, source) # answers) =
     (if is_router_solicit datagram then Some source
      else if length datagram < 2 then None else first_solicit answers)"

lemma first_solicit_split:
  assumes "first_solicit answers = Some client"
  shows "\<exists>skipped datagram rest. answers = map Some skipped @ Some (datagram, client) # rest \<and>
    is_router_solicit datagram \<and> (\<forall>(d, s) \<in> set skipped. 2 \<le> length d \<and> \<not> is_router_solicit d)"
  using assms
proof (induction answers rule: first_solicit.induct)
  case (3 datagram source answers)
  show ?case
  proof (cases "is_router_solicit datagram")
    case True
    then show ?thesis using 3(2) by (intro exI [of _ "[]"] exI [of _ datagram] exI [of _ answers]) simp
  next
    case False
    then obtain skipped d rest where "answers = map Some skipped @ Some (d, client) # rest"
      "is_router_solicit d" "\<forall>(d, s) \<in> set skipped. 2 \<le> length d \<and> \<not> is_router_solicit d"
      "2 \<le> length datagram"
      using 3 by (auto split: if_splits)
    then show ?thesis using False
      by (intro exI [of _ "(datagram, source) # skipped"] exI [of _ d] exI [of _ rest]) simp
  qed
qed simp_all

definition rs_ok :: "rs_answers \<Rightarrow> bool" where
  "rs_ok a \<longleftrightarrow> 0 \<le> rs_connect a \<and> rs_getsockname a \<noteq> None \<and> first_solicit (rs_recvfrom a) \<noteq> None \<and>
     (\<exists>sockaddr. rs_ioctl_hw a = Some sockaddr \<and> length sockaddr = 16)"

definition rs_calls :: "int \<Rightarrow> in6_addr \<times> u8 list \<Rightarrow> sys_call list" where
  "rs_calls handler = (\<lambda>(client, packet).
     [Lock_Prefix, Send_Raw handler client 255 (map Byte packet), Unlock_Prefix])"

text \<open>The answer to a solicitation: to its source, the advertisement of the prefix.\<close>

definition rs_answered :: "dh_opt_IA_Prefix \<Rightarrow> rs_answers \<Rightarrow> in6_addr \<times> u8 list \<Rightarrow> bool" where
  "rs_answered r a = (\<lambda>(client, packet). first_solicit (rs_recvfrom a) = Some client \<and>
     ra_decode packet = Some (0, advert_of (segment 2 6 (the (rs_ioctl_hw a))) r))"

definition rs_ready :: "u8 list \<Rightarrow> dh_opt_IA_Prefix \<Rightarrow> rs_answers list \<Rightarrow> 'z world_scheme \<Rightarrow> bool" where
  "rs_ready name r answers w \<longleftrightarrow> advertiser name r w \<and> list_all rs_ok answers \<and>
     (answers \<noteq> [] \<longrightarrow> 128 + 16 * length answers \<le> avail w)"

lemma rs_step:
  "rounds_serve (\<lambda>a. listenRouterSolicit_round (rs_connect a) (rs_getsockname a) (rs_recvfrom a) (rs_ioctl_hw a)
       (rs_errno a) handler) (\<lambda>_. False) Thread_listenRouterSolicit_cancel
     (\<lambda>_ a c _. \<exists>x. c = rs_calls handler x \<and> rs_answered r a x) (\<lambda>_. rs_ready name r)"
  unfolding rounds_serve_def
proof (intro allI impI)
  fix g :: 'g and a as and w :: "'z world_scheme"
  assume ready: "rs_ready name r (a # as) w \<and> \<not> Thread_listenRouterSolicit_cancel w"
  then obtain src sockaddr client where a: "0 \<le> rs_connect a" "rs_getsockname a = Some src"
    "rs_ioctl_hw a = Some sockaddr" "length sockaddr = 16" "first_solicit (rs_recvfrom a) = Some client"
    by (auto simp: rs_ready_def rs_ok_def)
  obtain skipped datagram rest where rs: "rs_recvfrom a = map Some skipped @ Some (datagram, client) # rest"
    "is_router_solicit datagram" "\<forall>(d, s) \<in> set skipped. 2 \<le> length d \<and> \<not> is_router_solicit d"
    using first_solicit_split [OF a(5)] by blast
  have w: "advertiser name r w" "144 \<le> avail w" using ready by (simp_all add: rs_ready_def)
  obtain w1 packet where "listenRouterSolicit_round (rs_connect a) (rs_getsockname a) (rs_recvfrom a) (rs_ioctl_hw a)
      (rs_errno a) handler w = Inr ((), w1)" "trace w1 = trace w @ rs_calls handler (client, packet)"
    "rs_answered r a (client, packet)" "advertiser name r w1" "same_globals w w1" "avail w1 = avail w - 16"
    using listenRouterSolicit_round_run [OF w(1) a(4) w(2) a(1) rs(3,2), of src client rest "rs_errno a" handler]
    by (auto simp: a(2,3,5) rs_calls_def rs_answered_def simp flip: rs(1))
  then show "\<exists>x w1 c (g1 :: 'g). listenRouterSolicit_round (rs_connect a) (rs_getsockname a) (rs_recvfrom a)
      (rs_ioctl_hw a) (rs_errno a) handler w = Inr (x, w1) \<and> \<not> False \<and> trace w1 = trace w @ c \<and>
    (\<exists>x. c = rs_calls handler x \<and> rs_answered r a x) \<and> rs_ready name r as w1 \<and> same_globals w w1"
    using ready by (auto simp: rs_ready_def)
qed

lemma Thread_listenRouterSolicit_setup:
  fixes w :: "'z world_scheme"
  assumes "0 \<le> socket" and "0 \<le> socket'" and "0 \<le> bindif" and "0 \<le> bindif'" and "0 \<le> join" and "0 \<le> bind"
    and "length ifname < 16"
  shows "\<exists>w1. Thread_listenRouterSolicit socket socket' bindif bindif' join bind (Some ifname) answers w =
      thenc (listenRouterSolicit_loop answers socket) (thenc (sys (Close socket)) (thenc (sys (Close socket'))
        (thenc (stack_free (Ptr (next_block w) 0)) (ret (Some ()))))) w1 \<and>
    world_keeps {} w w1 \<and> trace w1 = trace w \<and> avail w1 = avail w"
proof -
  let ?w0 = "w\<lparr>blocks := (blocks w)(next_block w \<mapsto> replicate 40 (Byte 0)), next_block := Suc (next_block w)\<rparr>"
  let ?vs = "patch 0 (map Byte (ifname @ [0])) (replicate 40 (Byte 0))"
  let ?w1 = "set_block (next_block w) ?vs ?w0"
  have "stack_alloc (replicate (unat sizeof_ifreq) (Byte 0)) w = Inr (Ptr (next_block w) 0, ?w0)"
    by (simp add: stack_alloc_def sizeof_ifreq_def del: replicate_numeral_Cons)
  moreover have "strcpy (ifr_name (Ptr (next_block w) 0)) IFNAMSIZ (Some ifname) ?w0 = Inr ((), ?w1)"
    using assms(7) by (simp add: strcpy_def IFNAMSIZ_def store_raw_simps del: replicate_numeral_Cons)
  ultimately have "Thread_listenRouterSolicit socket socket' bindif bindif' join bind (Some ifname) answers w =
      thenc (listenRouterSolicit_loop answers socket) (thenc (sys (Close socket)) (thenc (sys (Close socket'))
        (thenc (stack_free (Ptr (next_block w) 0)) (ret (Some ()))))) ?w1"
    using assms(1-6)
    by (simp add: Thread_listenRouterSolicit_def Let_def bindc_apply thenc_apply split: sum.split)
  moreover have "world_keeps {} w ?w1"
    by (auto simp: world_keeps_def heap_wf_def same_globals_def less_Suc_eq simp del: replicate_numeral_Cons)
  ultimately show ?thesis by (intro exI [of _ ?w1]) simp
qed

section \<open>Requesting prefixes\<close>

text \<open>A round in which the server delegates a prefix or the request cannot be sent, the memory it
  takes at most, and what it does to the prefix.\<close>

definition da_ok :: "u64 \<Rightarrow> dhcp_answers \<Rightarrow> bool" where
  "da_ok mtu a \<longleftrightarrow> da_clock a \<noteq> None \<and> (0 \<le> da_sendto a \<longrightarrow> (\<exists>datagram data n.
     da_recv a = Some datagram \<and> reply_delegates datagram data n \<and> length datagram \<le> unat mtu))"

definition da_cost :: "dhcp_answers \<Rightarrow> nat" where
  "da_cost a = 76 + 4 * (case da_recv a of None \<Rightarrow> 0 | Some datagram \<Rightarrow> length datagram)"

definition da_transId :: "dhcp_answers \<Rightarrow> dh_pkt_TransactionId" where
  "da_transId a = (let (sec, nsec) = the (da_clock a) in exchange_transId sec nsec (da_random a))"

definition dhcp_round_as ::
  "int \<Rightarrow> dh_opt_IA_Prefix \<Rightarrow> dhcp_answers \<Rightarrow> sys_call list \<Rightarrow> dh_opt_IA_Prefix \<Rightarrow> bool" where
  "dhcp_round_as handler p a calls p' \<longleftrightarrow>
     (if da_sendto a < 0
      then p' = prefix_settle p \<and> (\<exists>out. calls = [Lock_Prefix, Printed out, Close handler, Unlock_Prefix,
             Sleep (PreferredLifetime p')])
      else (\<forall>data n. reply_delegates (the (da_recv a)) data n \<longrightarrow> p' = delegated_prefix data) \<and>
        (\<exists>out out'. calls = [Lock_Prefix, Printed out,
          Send_Udp handler all_dhcp_agents 547 (map Byte (solicit_bytes (da_transId a))),
          Printed out', Close handler, Unlock_Prefix, Sleep (PreferredLifetime p')]))"

definition dhcp_ready ::
  "nat \<Rightarrow> u64 \<Rightarrow> dh_opt_IA_Prefix \<Rightarrow> dhcp_answers list \<Rightarrow> 'z world_scheme \<Rightarrow> bool" where
  "dhcp_ready bb mtu p answers w \<longleftrightarrow> heap_wf w \<and> prefix_holds w p \<and> receive_buffer w bb (unat mtu) \<and>
     bb < next_block w \<and> prefix_ptr w \<noteq> Ptr bb 0 \<and> list_all (da_ok mtu) answers \<and>
     (answers \<noteq> [] \<longrightarrow> 40 + sum_list (map da_cost answers) \<le> avail w)"

lemma reply_delegates_count: "reply_delegates datagram data n \<Longrightarrow> 4 * n \<le> length datagram"
proof -
  assume "reply_delegates datagram data n"
  then obtain transId opts rest where "map Byte datagram = dh_wire_packet 7 transId opts"
    "dh_find DHCPv6_OPTION_IA_PD opts = map Byte data # rest" "n = Suc (length rest)"
    by (auto simp: reply_delegates_def)
  moreover have "length (dh_find c opts) \<le> length opts" for c by (simp add: dh_find_def)
  then have "n \<le> length opts" using calculation by (metis length_Cons)
  moreover have "length datagram = 4 + dh_size opts"
    using arg_cong [OF calculation(1), of length]
    by (simp add: dh_wire_packet_def length_dh_wire_options dh_pkt_TransactionId_bytes_def)
  moreover have "4 * length opts \<le> dh_size opts" by (induction opts) auto
  ultimately show ?thesis by simp
qed

lemma dh_opt_IA_Prefix_of_bytes: "dh_opt_IA_Prefix_of (dh_opt_IA_Prefix_bytes r) = r"
  by (cases r) (simp add: dh_opt_IA_Prefix_of_def dh_opt_IA_Prefix_bytes_def segment_def nth_append)

lemma dh_opt_IA_Prefix_bytes_eq: "dh_opt_IA_Prefix_bytes p = dh_opt_IA_Prefix_bytes q \<longleftrightarrow> p = q"
  by (metis dh_opt_IA_Prefix_of_bytes)

text \<open>One round, in a state that is ready for it.\<close>

definition dhcp_serves ::
  "int \<Rightarrow> nat \<Rightarrow> u64 \<Rightarrow> dh_opt_IA_Prefix \<Rightarrow> dhcp_answers \<Rightarrow> 'z world_scheme \<Rightarrow> bool" where
  "dhcp_serves handler bb mtu p a w \<longleftrightarrow> (\<exists>result w1 c p1.
     requestDhcpPrefix_round (da_clock a) (da_random a) (da_sendto a) (da_recv a) handler (Ptr bb 0) mtu w =
       Inr (Some result, w1) \<and> trace w1 = trace w @ c \<and> dhcp_round_as handler p a c p1 \<and>
     prefix_holds w1 p1 \<and> receive_buffer w1 bb (unat mtu) \<and> prefix_ptr w1 = prefix_ptr w \<and> heap_wf w1 \<and>
     next_block w \<le> next_block w1 \<and> same_globals w w1 \<and> avail w \<le> avail w1 + da_cost a)"

lemma dhcp_serves_failed:
  fixes w :: "'z world_scheme"
  assumes w: "heap_wf w" "prefix_holds w p" "receive_buffer w bb (unat mtu)" "bb < next_block w"
    "prefix_ptr w \<noteq> Ptr bb 0" and ok: "da_ok mtu a" "da_sendto a < 0" and mem: "40 + da_cost a \<le> avail w"
  shows "dhcp_serves handler bb mtu p a w"
proof -
  obtain sec nsec where clock: "da_clock a = Some (sec, nsec)" using ok(1) by (auto simp: da_ok_def)
  obtain pb where pb: "prefix_ptr w = Ptr pb 0" "pb \<noteq> bb" using w(2,5) by (auto simp: prefix_holds_def)
  have "116 \<le> avail w" using mem by (simp add: da_cost_def)
  then obtain w1 out where w1: "requestDhcpPrefix_round (Some (sec, nsec)) (da_random a) (da_sendto a) (da_recv a)
      handler (Ptr bb 0) mtu w = Inr (Some 1, w1)" "prefix_holds w1 (prefix_settle p)"
    "trace w1 = trace w @ [Lock_Prefix, Printed out, Close handler, Unlock_Prefix,
      Sleep (be32toh (PreferredLifetime p))]" "avail w1 = avail w - 76" "world_keeps {pb} w w1"
    using dhcp_round_send_failed_run [OF w(1,2) _ ok(2), of sec nsec "da_random a" "da_recv a" handler "Ptr bb 0" mtu]
      pb(1) by auto
  have "receive_buffer w1 bb (unat mtu)" using receive_buffer_keeps [OF w(3) w1(5) w(4)] pb(2) by simp
  moreover have "prefix_ptr w1 = prefix_ptr w" "heap_wf w1" "next_block w \<le> next_block w1" "same_globals w w1"
    using w1(5) w(1) by (simp_all add: world_keeps_def same_globals_def)
  ultimately show ?thesis using w1 ok(2) unfolding dhcp_serves_def clock
    by (intro exI [of _ 1] exI [of _ w1] exI [of _ "[Lock_Prefix, Printed out, Close handler, Unlock_Prefix,
        Sleep (be32toh (PreferredLifetime p))]"] exI [of _ "prefix_settle p"])
      (auto simp: dhcp_round_as_def prefix_settle_def da_cost_def)
qed

lemma prefix_holds_inj: "prefix_holds w p \<Longrightarrow> prefix_holds w q \<Longrightarrow> p = q"
  using inj_map_eq_map [of Byte] by (auto simp: prefix_holds_def dh_opt_IA_Prefix_bytes_eq inj_def)

lemma dhcp_serves_delegated:
  fixes w :: "'z world_scheme"
  assumes w: "heap_wf w" "prefix_holds w p" "receive_buffer w bb (unat mtu)" "bb < next_block w"
    "prefix_ptr w \<noteq> Ptr bb 0" and ok: "da_ok mtu a" "0 \<le> da_sendto a" and mem: "40 + da_cost a \<le> avail w"
  shows "dhcp_serves handler bb mtu p a w"
proof -
  obtain sec nsec where clock: "da_clock a = Some (sec, nsec)" using ok(1) by (auto simp: da_ok_def)
  obtain pb where pb: "prefix_ptr w = Ptr pb 0" "blocks w pb = Some (map Byte (dh_opt_IA_Prefix_bytes p))" "pb \<noteq> bb"
    using w(2,5) by (auto simp: prefix_holds_def)
  obtain datagram data n where d: "da_recv a = Some datagram" "reply_delegates datagram data n"
    "length datagram \<le> unat mtu" using ok by (auto simp: da_ok_def)
  let ?calls = "\<lambda>out out'. [Lock_Prefix, Printed out,
      Send_Udp handler all_dhcp_agents 547 (map Byte (solicit_bytes (exchange_transId sec nsec (da_random a)))),
      Printed out', Close handler, Unlock_Prefix, Sleep (PreferredLifetime (delegated_prefix data))]"
  let ?code = "requestDhcpPrefix_round (Some (sec, nsec)) (da_random a) (da_sendto a) (Some datagram) handler (Ptr bb 0) mtu w"
  have mem': "116 + 16 * n' \<le> avail w" if "4 * n' \<le> length datagram" for n'
    using mem d(1) that by (simp add: da_cost_def)
  note run = dhcp_round_run [OF w(1,3) _ d(3) pb(1,2) _ pb(3) _ ok(2), of _ _ sec nsec "da_random a" handler]
  have n: "4 * n \<le> length datagram" by (rule reply_delegates_count [OF d(2)])
  obtain w1 out out' where w1: "?code = Inr (Some 0, w1)" "prefix_holds w1 (delegated_prefix data)"
    "trace w1 = trace w @ ?calls out out'" "world_keeps {bb, pb} w w1" "avail w1 = avail w - 76 - 16 * n"
    "receive_buffer w1 bb (unat mtu)"
    using run [OF d(2) _ mem' [OF n]] by auto
  have unique: "delegated_prefix data = delegated_prefix data'" if "reply_delegates datagram data' n'" for data' n'
  proof -
    have "prefix_holds w1 (delegated_prefix data')"
      using run [OF that _ mem' [OF reply_delegates_count [OF that]]] w1(1) by auto
    then show ?thesis by (rule prefix_holds_inj [OF w1(2)])
  qed
  have "dhcp_round_as handler p a (?calls out out') (delegated_prefix data)"
    using ok(2) unique by (auto simp: dhcp_round_as_def da_transId_def clock d(1))
  moreover have "prefix_ptr w1 = prefix_ptr w" "heap_wf w1" "next_block w \<le> next_block w1" "same_globals w w1"
    using w1(4) w(1) by (simp_all add: world_keeps_def same_globals_def)
  ultimately show ?thesis using w1 d(1) n unfolding dhcp_serves_def clock
    by (intro exI [of _ 0] exI [of _ w1] exI [of _ "?calls out out'"] exI [of _ "delegated_prefix data"])
      (auto simp: da_cost_def)
qed

lemma dhcp_step:
  "rounds_serve (\<lambda>a. requestDhcpPrefix_round (da_clock a) (da_random a) (da_sendto a) (da_recv a) handler (Ptr bb 0) mtu)
     (\<lambda>result. result = None) Thread_requestDhcpPrefix_cancel (dhcp_round_as handler) (dhcp_ready bb mtu)"
  unfolding rounds_serve_def
proof (intro allI impI)
  fix p a as and w :: "'z world_scheme"
  assume ready: "dhcp_ready bb mtu p (a # as) w \<and> \<not> Thread_requestDhcpPrefix_cancel w"
  then have w: "heap_wf w" "prefix_holds w p" "receive_buffer w bb (unat mtu)" "bb < next_block w"
    "prefix_ptr w \<noteq> Ptr bb 0" and ok: "da_ok mtu a" "list_all (da_ok mtu) as"
    and mem: "40 + da_cost a + sum_list (map da_cost as) \<le> avail w"
    by (simp_all add: dhcp_ready_def)
  have "dhcp_serves handler bb mtu p a w"
    using dhcp_serves_failed dhcp_serves_delegated w ok(1) mem by (metis linorder_not_less add_leD1)
  then obtain result w1 c p1 where w1: "requestDhcpPrefix_round (da_clock a) (da_random a) (da_sendto a) (da_recv a)
      handler (Ptr bb 0) mtu w = Inr (Some result, w1)" "trace w1 = trace w @ c" "dhcp_round_as handler p a c p1"
    "prefix_holds w1 p1" "receive_buffer w1 bb (unat mtu)" "prefix_ptr w1 = prefix_ptr w" "heap_wf w1"
    "next_block w \<le> next_block w1" "same_globals w w1" "avail w \<le> avail w1 + da_cost a"
    unfolding dhcp_serves_def by blast
  have "dhcp_ready bb mtu p1 as w1"
    using w1(4-10) w ok(2) mem by (simp add: dhcp_ready_def)
  then show "\<exists>x w1 c g1. requestDhcpPrefix_round (da_clock a) (da_random a) (da_sendto a) (da_recv a) handler
      (Ptr bb 0) mtu w = Inr (x, w1) \<and> x \<noteq> None \<and> trace w1 = trace w @ c \<and> dhcp_round_as handler p a c g1 \<and>
    dhcp_ready bb mtu g1 as w1 \<and> same_globals w w1"
    using w1(1-3,9) by auto
qed

text \<open>The setup: the request is freed again, the buffer is a block of its own, filled with zeros.\<close>

definition thread_mtu :: "u32 option \<Rightarrow> u64" where
  "thread_mtu ioctl_mtu = scast (case ioctl_mtu of None \<Rightarrow> 1500 | Some m \<Rightarrow> m)"

lemma Thread_requestDhcpPrefix_setup:
  fixes w :: "'z world_scheme"
  assumes "0 \<le> socket" and "0 \<le> setsockopt" and "0 \<le> bind" and "length ifname < 16"
    and mem: "40 \<le> avail w" "unat (thread_mtu ioctl_mtu) \<le> avail w"
  shows "\<exists>w1. Thread_requestDhcpPrefix socket setsockopt (Some index) bind ioctl_mtu (Some ifname) answers w =
      bindc (requestDhcpPrefix_loop answers socket (Ptr (Suc (next_block w)) 0) (thread_mtu ioctl_mtu)) (\<lambda>result.
        if result = None then ret None
        else thenc (sys (Close socket)) (thenc (free (Ptr (Suc (next_block w)) 0)) (ret (Some ())))) w1 \<and>
    world_keeps {} w w1 \<and> trace w1 = trace w \<and> avail w1 = avail w - unat (thread_mtu ioctl_mtu) \<and>
    next_block w1 = next_block w + 2 \<and>
    blocks w1 (Suc (next_block w)) = Some (map Byte (replicate (unat (thread_mtu ioctl_mtu)) 0))"
proof -
  let ?nb = "next_block w" and ?n = "unat (thread_mtu ioctl_mtu)"
  obtain ixs where ixs: "length ixs = 40"
    "store32 (ifr_ifru (Ptr ?nb 0)) index (push_block (ifreq_image ifname) w) = Inr ((), push_block ixs w)"
    "load32 (ifr_ifru (Ptr ?nb 0)) (push_block ixs w) = Inr (index, push_block ixs w)"
    using ifreq_field [OF length_ifreq_image [OF assms(4)]] by blast
  obtain mtus where len: "length mtus = 40" and mtu: "(case ioctl_mtu of None \<Rightarrow> ret 1500
      | Some m \<Rightarrow> thenc (store32 (ifr_ifru (Ptr ?nb 0)) m) (load32 (ifr_ifru (Ptr ?nb 0)))) (push_block ixs w) =
    Inr (case ioctl_mtu of None \<Rightarrow> 1500 | Some m \<Rightarrow> m, push_block mtus w)"
    using ixs(1) ifreq_field [OF ixs(1), of w "the ioctl_mtu"]
    by (cases ioctl_mtu) (auto simp: ret_apply thenc_apply)
  let ?w2 = "release ?nb 40 (push_block mtus w)"
  let ?w1 = "set_block (Suc ?nb) (map Byte (replicate ?n 0)) (push_block (replicate ?n Undef) ?w2)"
  have "free (Ptr ?nb 0) (push_block mtus w) = Inr ((), ?w2)" using len by (simp add: free_run)
  moreover have "malloc (thread_mtu ioctl_mtu) ?w2 = Inr (Ptr (Suc ?nb) 0, push_block (replicate ?n Undef) ?w2)"
    using mem len by (simp add: malloc_apply)
  moreover have "store_raw (Ptr (Suc ?nb) 0) (replicate ?n (Byte 0)) (push_block (replicate ?n Undef) ?w2) = Inr ((), ?w1)"
    by (simp add: store_raw_simps patch_def)
  ultimately have "Thread_requestDhcpPrefix socket setsockopt (Some index) bind ioctl_mtu (Some ifname) answers w =
      bindc (requestDhcpPrefix_loop answers socket (Ptr (Suc ?nb) 0) (thread_mtu ioctl_mtu)) (\<lambda>result.
        if result = None then ret None
        else thenc (sys (Close socket)) (thenc (free (Ptr (Suc ?nb) 0)) (ret (Some ())))) ?w1"
    using assms(1-3) ixs(2,3) mtu ifreq_made [OF assms(4) mem(1)]
    by (simp add: Thread_requestDhcpPrefix_def Let_def bindc_apply thenc_apply thread_mtu_def
        del: replicate_numeral_Cons)
  moreover have "world_keeps {} w (push_block (map Byte (replicate ?n 0)) ?w2)"
    by (rule world_keeps_trans [OF world_keeps_release [OF world_keeps_basic(2)] world_keeps_basic(2)]) simp
  then have "world_keeps {} w ?w1" using set_block_push_block_same [of "map Byte (replicate ?n 0)" "replicate ?n Undef" ?w2] by simp
  ultimately show ?thesis using mem len by (intro exI [of _ ?w1]) simp
qed

text \<open>Its end: the signal in its last round, then the socket and the buffer.\<close>

lemma dhcp_thread_ends:
  assumes "dhcp_ready bb mtu p [] w"
  shows "\<exists>w'. bindc (thenc (handle close) (ret (Some ()))) (\<lambda>result. if result = None then ret None
      else thenc (sys (Close socket)) (thenc (free (Ptr bb 0)) (ret (Some ())))) w = Inr (Some (), w') \<and>
    trace w' = trace w @ [Close (utils_handler w), Close socket] \<and> prefix_holds w' p"
proof -
  obtain buf where buf: "blocks w bb = Some (map Byte buf)"
    using assms by (auto simp: dhcp_ready_def receive_buffer_def)
  obtain w1 where w1: "handle close w = Inr ((), w1)" "trace w1 = trace w @ [Close (utils_handler w)]"
    "blocks w1 = blocks w" "next_block w1 = next_block w" "prefix_ptr w1 = prefix_ptr w"
    by (simp add: handle_apply)
  let ?w2 = "w1\<lparr>trace := trace w1 @ [Close socket]\<rparr>"
  let ?w' = "release bb (length buf) ?w2"
  have "free (Ptr bb 0) ?w2 = Inr ((), ?w')" using free_run [of ?w2 bb "map Byte buf"] buf w1(3) by simp
  then have "bindc (thenc (handle close) (ret (Some ()))) (\<lambda>result. if result = None then ret None
      else thenc (sys (Close socket)) (thenc (free (Ptr bb 0)) (ret (Some ())))) w = Inr (Some (), ?w')"
    by (simp only: w1(1) bindc_apply thenc_apply sys_apply ret_apply sum.case prod.case option.distinct if_False)
  moreover obtain pb where "prefix_ptr w = Ptr pb 0" "pb < next_block w"
    "blocks w pb = Some (map Byte (dh_opt_IA_Prefix_bytes p))" "pb \<noteq> bb"
    using assms unfolding dhcp_ready_def prefix_holds_def by blast
  then have "prefix_holds ?w' p" unfolding prefix_holds_def by (intro exI [of _ pb]) (simp add: w1(3-5))
  ultimately show ?thesis using w1(2) by (intro exI [of _ ?w']) simp
qed

text \<open>The DHCPv6 thread over any rounds in which the server delegates or sending fails, up to a signal.\<close>

lemma Thread_requestDhcpPrefix_run:
  fixes w :: "'z world_scheme"
  assumes w: "heap_wf w" "prefix_holds w r" "\<not> Thread_requestDhcpPrefix_cancel w"
    "\<forall>b. unat (placed w b) + unat (thread_mtu ioctl_mtu) < 18446744073709551616"
    and calls: "0 \<le> socket" "0 \<le> setsockopt" "0 \<le> bind" "length ifname < 16"
    and ok: "\<forall>a \<in> set (rounds @ [final]). da_ok (thread_mtu ioctl_mtu) a"
    and signals: "\<forall>a \<in> set rounds. da_signal a = None" "da_signal final = Some close"
    and mem: "40 + unat (thread_mtu ioctl_mtu) + sum_list (map da_cost (rounds @ [final])) \<le> avail w"
  shows "\<exists>w' cs p'. Thread_requestDhcpPrefix socket setsockopt (Some index) bind ioctl_mtu (Some ifname)
      (rounds @ final # later) w = Inr (Some (), w') \<and>
    trace w' = trace w @ concat cs @ [Close (utils_handler w), Close socket] \<and>
    rounds_as (dhcp_round_as socket) r (rounds @ [final]) cs p' \<and> prefix_holds w' p'"
proof -
  let ?mtu = "thread_mtu ioctl_mtu" and ?bb = "Suc (next_block w)"
  let ?fin = "\<lambda>result. if result = None then ret None
    else thenc (sys (Close socket)) (thenc (free (Ptr ?bb 0)) (ret (Some ())))"
  have "40 \<le> avail w" "unat ?mtu \<le> avail w" using mem by simp_all
  from Thread_requestDhcpPrefix_setup [OF calls this, of index "rounds @ final # later"]
  obtain w1 where w1: "Thread_requestDhcpPrefix socket setsockopt (Some index) bind ioctl_mtu (Some ifname)
      (rounds @ final # later) w = bindc (requestDhcpPrefix_loop (rounds @ final # later) socket (Ptr ?bb 0) ?mtu) ?fin w1"
    "world_keeps {} w w1" "trace w1 = trace w" "avail w1 = avail w - unat ?mtu" "next_block w1 = next_block w + 2"
    "blocks w1 ?bb = Some (map Byte (replicate (unat ?mtu) 0))" by blast
  have globals: "same_globals w w1" "heap_wf w1" "placed w1 = placed w"
    using w1(2) w(1) by (simp_all add: world_keeps_def)
  have "prefix_holds w1 r" by (rule prefix_holds_keeps [OF w(2) w1(2)]) simp
  moreover have "receive_buffer w1 ?bb (unat ?mtu)"
    unfolding receive_buffer_def w1(6) using w(4) globals(3)
    by (intro conjI exI [of _ "replicate (unat ?mtu) 0"]) simp_all
  moreover have "prefix_ptr w1 \<noteq> Ptr ?bb 0"
    using w(2) globals(1) by (auto simp: prefix_holds_def same_globals_def)
  ultimately have ready: "dhcp_ready ?bb ?mtu r (rounds @ [final]) w1"
    using globals(2) w1(4,5) ok mem by (simp add: dhcp_ready_def list_all_iff)
  have c1: "\<not> Thread_requestDhcpPrefix_cancel w1" using w(3) globals(1) by (simp add: same_globals_def)
  obtain w2 cs p' where w2: "requestDhcpPrefix_loop (rounds @ final # later) socket (Ptr ?bb 0) ?mtu w1 =
      thenc (handle close) (ret (Some ())) w2" "trace w2 = trace w1 @ concat cs"
    "rounds_as (dhcp_round_as socket) r (rounds @ [final]) cs p'" "dhcp_ready ?bb ?mtu p' [] w2" "same_globals w1 w2"
    using dhcp_loop.ends_with_signal [OF dhcp_step ready c1 signals, of later] by blast
  obtain w3 where "bindc (thenc (handle close) (ret (Some ()))) ?fin w2 = Inr (Some (), w3)"
    "trace w3 = trace w2 @ [Close (utils_handler w2), Close socket]" "prefix_holds w3 p'"
    using dhcp_thread_ends [OF w2(4)] by blast
  moreover from this(1) have "Thread_requestDhcpPrefix socket setsockopt (Some index) bind ioctl_mtu (Some ifname)
      (rounds @ final # later) w = Inr (Some (), w3)"
    by (simp only: w1(1) w2(1) bindc_apply)
  ultimately show ?thesis using w2(2,3,5) w1(3) globals(1)
    by (intro exI [of _ w3] exI [of _ cs] exI [of _ p']) (simp add: same_globals_def)
qed

text \<open>The calls of a thread without what it prints, the rule of POSIX that nothing is sent through a
  descriptor after it was closed (\<open>sendto\<close> fails with \<open>EBADF\<close>, and the trace has the sends that
  succeeded), and what rounds that do not send do.\<close>

definition quiet :: "sys_call list \<Rightarrow> sys_call list" where
  "quiet = filter (\<lambda>c. case c of Printed out \<Rightarrow> False | _ \<Rightarrow> True)"

fun sends_through :: "int \<Rightarrow> sys_call \<Rightarrow> bool" where
  "sends_through h (Send_Udp fd dst port payload) \<longleftrightarrow> fd = h"
| "sends_through h (Send_Raw fd dst proto payload) \<longleftrightarrow> fd = h"
| "sends_through h _ \<longleftrightarrow> False"

fun sends_open :: "int \<Rightarrow> sys_call list \<Rightarrow> bool" where
  "sends_open h [] \<longleftrightarrow> True"
| "sends_open h (c # cs) \<longleftrightarrow> (if c = Close h then list_all (\<lambda>c. \<not> sends_through h c) cs else sends_open h cs)"

definition renewal_calls :: "int \<Rightarrow> dh_opt_IA_Prefix \<Rightarrow> sys_call list" where
  "renewal_calls h p = [Lock_Prefix, Close h, Unlock_Prefix, Sleep (PreferredLifetime p)]"

lemma quiet_simps [simp]:
  "quiet [] = []" "quiet (Printed out # cs) = quiet cs" "quiet (Close h # cs) = Close h # quiet cs"
  "quiet (Send_Udp h dst port payload # cs) = Send_Udp h dst port payload # quiet cs"
  "quiet (Sleep secs # cs) = Sleep secs # quiet cs" "quiet (Lock_Prefix # cs) = Lock_Prefix # quiet cs"
  "quiet (Unlock_Prefix # cs) = Unlock_Prefix # quiet cs" "quiet (cs @ cs') = quiet cs @ quiet cs'"
  by (simp_all add: quiet_def)

lemma unsent_round:
  assumes "dhcp_round_as handler p a c p'" and "list_all (\<lambda>c. \<not> sends_through handler c) c"
  shows "p' = prefix_settle p \<and> quiet c = renewal_calls handler p'"
  using assms by (auto simp: dhcp_round_as_def renewal_calls_def split: if_splits)

lemma unsent_rounds:
  assumes "rounds_as (dhcp_round_as handler) p as cs p'" and "list_all (\<lambda>c. \<not> sends_through handler c) (concat cs)"
  shows "p' = (prefix_settle ^^ length as) p \<and>
    quiet (concat cs) = concat (map (\<lambda>k. renewal_calls handler ((prefix_settle ^^ Suc k) p)) [0..<length as])"
  using assms
proof (induction as arbitrary: p cs)
  case Nil
  then show ?case by (cases cs) simp_all
next
  case (Cons a as)
  then obtain c cs' p1 where cs: "cs = c # cs'" "dhcp_round_as handler p a c p1"
    "rounds_as (dhcp_round_as handler) p1 as cs' p'"
    by (cases cs) auto
  have one: "p1 = prefix_settle p" "quiet c = renewal_calls handler (prefix_settle p)"
    using unsent_round [OF cs(2)] Cons.prems(2) cs(1) by auto
  have "[0..<length (a # as)] = 0 # map Suc [0..<length as]"
    by (simp add: upt_conv_Cons map_Suc_upt del: upt_Suc)
  then show ?case using Cons.IH [OF cs(3)] Cons.prems(2) cs(1) one
    by (simp add: funpow_swap1 o_def del: upt_Suc)
qed

text \<open>The rounds that do not send are those whose \<open>sendto\<close> fails.\<close>

lemma unsent_failed:
  assumes "rounds_as (dhcp_round_as handler) p as cs p'"
  shows "list_all (\<lambda>c. \<not> sends_through handler c) (concat cs) \<longleftrightarrow> (\<forall>a \<in> set as. da_sendto a < 0)"
  using assms
proof (induction as arbitrary: p cs)
  case Nil
  then show ?case by (cases cs) simp_all
next
  case (Cons a as)
  then obtain c cs' p1 where cs: "cs = c # cs'" "dhcp_round_as handler p a c p1"
    "rounds_as (dhcp_round_as handler) p1 as cs' p'"
    by (cases cs) auto
  moreover have "list_all (\<lambda>c. \<not> sends_through handler c) c \<longleftrightarrow> da_sendto a < 0"
    using cs(2) by (cases "da_sendto a < 0") (auto simp: dhcp_round_as_def)
  ultimately show ?case using Cons.IH [OF cs(3)] by simp
qed

definition swap_lifetimes :: "dh_opt_IA_Prefix \<Rightarrow> dh_opt_IA_Prefix" where
  "swap_lifetimes r = r\<lparr>PreferredLifetime := be32toh (PreferredLifetime r), ValidLifetime := be32toh (ValidLifetime r)\<rparr>"

lemma settle_power:
  assumes "PrefixLength r = 64"
  shows "(prefix_settle ^^ k) r = (if even k then r else swap_lifetimes r)"
proof (induction k)
  case (Suc k)
  have one: "prefix_settle r = swap_lifetimes r"
    using assms by (cases r) (simp add: prefix_settle_def swap_lifetimes_def)
  have "prefix_settle (swap_lifetimes r) = r\<lparr>PrefixLength := 64\<rparr>" unfolding one [symmetric] by (rule prefix_settle_twice)
  also have "\<dots> = r" using assms by (cases r) simp
  finally have "prefix_settle (swap_lifetimes r) = r" .
  with one have "prefix_settle (if even k then r else swap_lifetimes r) = (if odd k then r else swap_lifetimes r)" by simp
  with Suc show ?case by simp
qed simp

text \<open>The prefix after the \<open>k\<close>-th renewal that did not send, counted from 0.\<close>

definition renewed :: "nat \<Rightarrow> dh_opt_IA_Prefix \<Rightarrow> dh_opt_IA_Prefix" where
  "renewed k r = (if even k then swap_lifetimes r else r)"

lemma settle_renewed: "PrefixLength r = 64 \<Longrightarrow> (prefix_settle ^^ Suc k) r = renewed k r"
  unfolding settle_power by (simp add: renewed_def)

section \<open>Failing setups\<close>

text \<open>What a thread that gives up leaves: the calls it made, memory it does not return, and no flag set.\<close>

definition gives_up :: "'z world_scheme \<Rightarrow> sys_call list \<Rightarrow> nat \<Rightarrow> (c_fault + 'r \<times> 'z world_scheme) \<Rightarrow> bool" where
  "gives_up w calls lost result \<longleftrightarrow> (\<exists>r w'. result = Inr (r, w') \<and> trace w' = trace w @ calls \<and>
     avail w' + lost = avail w \<and> same_globals w w')"

lemma sendRouterAdv_setup_fails:
  fixes w :: "'z world_scheme"
  assumes "length ifname < 16" and "40 \<le> avail w" and "0 \<le> socket" and "bad < 0"
  shows "Thread_sendRouterAdv bad setsockopt name secs answers w = Inr ((), w\<lparr>Thread_sendRouterAdv_cancel := True\<rparr>)"
    and "\<exists>w'. Thread_sendRouterAdv socket bad (Some ifname) secs answers w = Inr ((), w') \<and>
      Thread_sendRouterAdv_cancel w' \<and> trace w' = trace w @ [Close socket] \<and> avail w' = avail w"
proof -
  let ?w1 = "(push_block (ifreq_image ifname) w)\<lparr>Thread_sendRouterAdv_cancel := True, trace := trace w @ [Close socket]\<rparr>"
  have "free (Ptr (next_block w) 0) ?w1 = Inr ((), release (next_block w) 40 ?w1)"
    using assms(1) free_run [of ?w1 "next_block w" "ifreq_image ifname"] by (simp add: length_ifreq_image)
  then show "\<exists>w'. Thread_sendRouterAdv socket bad (Some ifname) secs answers w = Inr ((), w') \<and>
      Thread_sendRouterAdv_cancel w' \<and> trace w' = trace w @ [Close socket] \<and> avail w' = avail w"
    using assms ifreq_made [OF assms(1,2)]
    by (intro exI [of _ "release (next_block w) 40 ?w1"])
      (simp add: Thread_sendRouterAdv_def Let_def bindc_apply thenc_apply upd_apply sys_apply
        length_ifreq_image del: replicate_numeral_Cons)
qed (use assms(4) in \<open>simp add: Thread_sendRouterAdv_def upd_apply\<close>)

lemma requestDhcpPrefix_setup_fails:
  fixes w :: "'z world_scheme"
  assumes "length ifname < 16" and "40 \<le> avail w" and "0 \<le> socket" and "bad < 0" and "0 \<le> good"
  shows "Thread_requestDhcpPrefix bad setsockopt ix bind mtu name answers w =
      Inr (Some (), w\<lparr>Thread_requestDhcpPrefix_cancel := True\<rparr>)"
    and "gives_up w [Close socket] 0 (Thread_requestDhcpPrefix socket bad ix bind mtu (Some ifname) answers w)"
    and "gives_up w [Close socket] 40 (Thread_requestDhcpPrefix socket good (Some index) bad mtu (Some ifname) answers w)"
proof -
  let ?w1 = "(push_block (ifreq_image ifname) w)\<lparr>trace := trace w @ [Close socket]\<rparr>"
  have "free (Ptr (next_block w) 0) ?w1 = Inr ((), release (next_block w) 40 ?w1)"
    using assms(1) free_run [of ?w1 "next_block w" "ifreq_image ifname"] by (simp add: length_ifreq_image)
  then have "Thread_requestDhcpPrefix socket bad ix bind mtu (Some ifname) answers w =
      Inr (Some (), release (next_block w) 40 ?w1)"
    using assms ifreq_made [OF assms(1,2)]
    by (simp add: Thread_requestDhcpPrefix_def Let_def bindc_apply thenc_apply sys_apply ret_apply
        del: replicate_numeral_Cons)
  then show "gives_up w [Close socket] 0 (Thread_requestDhcpPrefix socket bad ix bind mtu (Some ifname) answers w)"
    using assms(1,2) by (simp add: gives_up_def same_globals_def length_ifreq_image)
  obtain vs where vs: "length vs = 40"
    "store32 (ifr_ifru (Ptr (next_block w) 0)) index (push_block (ifreq_image ifname) w) = Inr ((), push_block vs w)"
    "load32 (ifr_ifru (Ptr (next_block w) 0)) (push_block vs w) = Inr (index, push_block vs w)"
    using ifreq_field [OF length_ifreq_image [OF assms(1)]] by blast
  have "Thread_requestDhcpPrefix socket good (Some index) bad mtu (Some ifname) answers w =
      Inr (Some (), (push_block vs w)\<lparr>trace := trace w @ [Close socket]\<rparr>)"
    using assms vs(2,3) ifreq_made [OF assms(1,2)]
    by (simp add: Thread_requestDhcpPrefix_def Let_def bindc_apply thenc_apply sys_apply ret_apply
        del: replicate_numeral_Cons)
  then show "gives_up w [Close socket] 40 (Thread_requestDhcpPrefix socket good (Some index) bad mtu (Some ifname) answers w)"
    using vs(1) assms(2) by (simp add: gives_up_def same_globals_def)
qed (use assms(4) in \<open>simp add: Thread_requestDhcpPrefix_def upd_apply thenc_apply ret_apply\<close>)

lemma listenRouterSolicit_setup_fails:
  fixes w :: "'z world_scheme"
  assumes "length ifname < 16" and "0 \<le> socket" and "0 \<le> socket'" and "bad < 0" and "0 \<le> good"
  shows "Thread_listenRouterSolicit bad s bindif bindif' join bind name answers w = Inr (None, w)"
    and "Thread_listenRouterSolicit socket bad bindif bindif' join bind name answers w = Inr (None, w)"
    and "gives_up w [Close socket] 0 (Thread_listenRouterSolicit socket socket' bad bindif' join bind (Some ifname) answers w)"
    and "gives_up w [Close socket'] 0 (Thread_listenRouterSolicit socket socket' good bad join bind (Some ifname) answers w)"
    and "gives_up w [Close socket] 0 (Thread_listenRouterSolicit socket socket' good good bad bind (Some ifname) answers w)"
    and "Thread_listenRouterSolicit socket socket' good good good bad (Some ifname) answers w = Inl BadVararg"
proof -
  let ?w0 = "w\<lparr>blocks := (blocks w)(next_block w \<mapsto> replicate 40 (Byte 0)), next_block := Suc (next_block w)\<rparr>"
  let ?w1 = "set_block (next_block w) (patch 0 (map Byte (ifname @ [0])) (replicate 40 (Byte 0))) ?w0"
  have prepared: "stack_alloc (replicate (unat sizeof_ifreq) (Byte 0)) w = Inr (Ptr (next_block w) 0, ?w0)"
    "strcpy (ifr_name (Ptr (next_block w) 0)) IFNAMSIZ (Some ifname) ?w0 = Inr ((), ?w1)"
    using assms(1) by (simp_all add: stack_alloc_def sizeof_ifreq_def strcpy_def IFNAMSIZ_def
        store_raw_simps del: replicate_numeral_Cons)
  note run = Thread_listenRouterSolicit_def Let_def bindc_apply thenc_apply sys_apply ret_apply raise_apply
    stack_free_def gives_up_def same_globals_def
  show "gives_up w [Close socket] 0 (Thread_listenRouterSolicit socket socket' bad bindif' join bind (Some ifname) answers w)"
    "gives_up w [Close socket'] 0 (Thread_listenRouterSolicit socket socket' good bad join bind (Some ifname) answers w)"
    "gives_up w [Close socket] 0 (Thread_listenRouterSolicit socket socket' good good bad bind (Some ifname) answers w)"
    "Thread_listenRouterSolicit socket socket' good good good bad (Some ifname) answers w = Inl BadVararg"
    using prepared assms(2-5) by (simp_all add: run del: replicate_numeral_Cons)
qed (use assms(2,4) in \<open>simp_all add: Thread_listenRouterSolicit_def ret_apply\<close>)

text \<open>The advertising thread over any rounds up to a signal.\<close>

lemma Thread_sendRouterAdv_run:
  fixes w :: "'z world_scheme"
  assumes "advertiser name r w" and "\<not> Thread_sendRouterAdv_cancel w"
    and "0 \<le> socket" and "0 \<le> setsockopt" and "length ifname < 16"
    and "\<forall>a \<in> set (rounds @ [final]). ra_ok a"
    and "\<forall>a \<in> set rounds. ra_signal a = None" and "ra_signal final = Some close"
    and "184 + 16 * length rounds \<le> avail w"
  shows "\<exists>w' packets. Thread_sendRouterAdv socket setsockopt (Some ifname) secs (rounds @ final # later) w =
      Inr ((), w') \<and>
    trace w' = trace w @ concat (map (ra_calls socket secs) packets) @
      [Close (utils_handler w), Close socket] \<and>
    list_all2 (\<lambda>a packet. ra_decode packet = Some (0, advert_of (ra_hardware a) r)) (rounds @ [final]) packets"
proof -
  have mem: "40 \<le> avail w" using assms(9) by simp
  obtain w1 where w1: "Thread_sendRouterAdv socket setsockopt (Some ifname) secs (rounds @ final # later) w =
      thenc (sendRouterAdv_loop (rounds @ final # later) socket secs) (sys (Close socket)) w1"
    "world_keeps {} w w1" "trace w1 = trace w" "avail w1 = avail w - 40"
    using Thread_sendRouterAdv_setup [OF assms(3-5) mem] by blast
  have mem1: "144 + 16 * length rounds \<le> avail w1" using assms(9) w1(4) by simp
  have w1': "advertiser name r w1" "\<not> Thread_sendRouterAdv_cancel w1" "utils_handler w1 = utils_handler w"
    using advertiser_keeps [OF assms(1) w1(2)] w1(2) assms(2) by (simp_all add: world_keeps_def same_globals_def)
  have "ra_ready name r (rounds @ [final]) w1"
    using w1'(1) assms(6) mem1 by (simp add: ra_ready_def list_all_iff)
  then obtain w2 packets where "sendRouterAdv_loop (rounds @ final # later) socket secs w1 = Inr ((), w2)"
    "trace w2 = trace w1 @ concat (map (ra_calls socket secs) packets) @ [Close (utils_handler w1)]"
    "list_all2 (\<lambda>a packet. ra_decode packet = Some (0, advert_of (ra_hardware a) r)) (rounds @ [final]) packets"
    using sendRouterAdv_loop_run [OF _ assms(7,8) w1'(2), of name r later socket secs] w1'(3) by metis
  then show ?thesis using w1(1,3) w1'(3)
    by (intro exI [of _ "w2\<lparr>trace := trace w2 @ [Close socket]\<rparr>"] exI [of _ packets])
      (simp add: thenc_apply sys_apply)
qed

text \<open>The start of \<open>main\<close> with a static prefix: the threads find it stored, and the module for the
  interface queries initialised.\<close>

lemma main_start_static:
  fixes w :: "'z world_scheme"
  assumes w: "heap_wf w" "prefix_holds w r" "utils_handler w = -1" "utils_request w = Null"
    and argv: "starts_with 115 mode" "- 2147483648 \<le> atoi_value digits" "atoi_value digits \<le> 2147483647"
    and calls: "0 \<le> socket" "0 \<le> setsockopt" "length lan < 16" and mem: "40 \<le> avail w"
  shows "\<exists>w1. main_start inet_pton [program, mode, lan, prefix, digits] socket setsockopt errno True True w =
      Inr (Some (False, None, Some lan), w1) \<and>
    advertiser lan (static_prefix (inet_pton prefix) digits) w1 \<and> utils_handler w1 = socket \<and>
    trace w1 = trace w \<and> avail w1 = avail w - 40 \<and>
    (Thread_sendRouterAdv_cancel w1 \<longleftrightarrow> Thread_sendRouterAdv_cancel w)"
proof -
  let ?p = "static_prefix (inet_pton prefix) digits"
  obtain pb where pb: "prefix_ptr w = Ptr pb 0" "pb < next_block w"
    "blocks w pb = Some (map Byte (dh_opt_IA_Prefix_bytes r))"
    using w(2) by (auto simp: prefix_holds_def)
  let ?v = "set_block pb (map Byte (dh_opt_IA_Prefix_bytes ?p)) w"
  let ?w1 = "push_block (ifreq_image lan) (?v\<lparr>utils_handler := socket, utils_request := Ptr (next_block w) 0\<rparr>)"
  have "\<not> starts_with 100 mode" using argv(1) by (auto simp: starts_with_def split: list.splits)
  then have "main_arguments inet_pton [program, mode, lan, prefix, digits] w = Inr (Some (False, None, Some lan), ?v)"
    using main_arguments_run [OF pb(1,3)] argv by (simp add: command_line_spec_def)
  moreover have "utils_Init socket setsockopt errno (Some lan) ?v = Inr (0, ?w1)"
    using utils_Init_run [of ?v lan socket setsockopt errno] w(3,4) calls(2,3) mem by (simp add: Let_def)
  ultimately have "main_start inet_pton [program, mode, lan, prefix, digits] socket setsockopt errno True True w =
      Inr (Some (False, None, Some lan), ?w1)"
    by (simp add: main_start_def bindc_apply thenc_apply ret_apply)
  moreover have "advertiser lan ?p ?w1"
    using w(1) pb calls(1,3)
    by (auto simp: advertiser_def utils_ready_def prefix_holds_def heap_wf_def length_ifreq_image)
      (simp_all add: ifreq_image_def)
  ultimately show ?thesis using calls(3) mem by (intro exI [of _ ?w1]) (simp add: length_ifreq_image)
qed

section \<open>Properties\<close>

text \<open>C8: The DHCPv6 thread from start to end, when its first exchange succeeds and it is ended by a
  signal. That exchange closes the socket of the thread. So if nothing can be sent through a
  closed descriptor, and no other thread has made a socket that got its number, the thread
  sends one Solicit whatever the number of its renewals: every later \<open>sendto\<close> is one that fails,
  each renewal makes exactly the calls of one that could not send, and the stored prefix is the one delegated first with the bytes
  of both lifetimes reversed once per renewal. The socket is closed by the first exchange, by
  every renewal, and at the end.\<close>

theorem dhcp_thread:
  fixes w :: "'z world_scheme"
  assumes "heap_wf w" and "prefix_holds w r" and "\<not> Thread_requestDhcpPrefix_cancel w"
    and "\<forall>b. unat (placed w b) + unat (thread_mtu mtu) < 18446744073709551616"
    and "0 \<le> socket" and "0 \<le> setsockopt" and "0 \<le> bind" and "length ifname < 16"
    and "da_clock first \<noteq> None" and "0 \<le> da_sendto first" and "da_recv first = Some datagram"
    and "reply_delegates datagram data n" and "length datagram \<le> unat (thread_mtu mtu)"
    and "\<forall>a \<in> set (renewals @ [final]). da_ok (thread_mtu mtu) a"
    and "\<forall>a \<in> set (first # renewals). da_signal a = None" and "da_signal final = Some close"
    and "40 + unat (thread_mtu mtu) + sum_list (map da_cost (first # renewals @ [final])) \<le> avail w"
  shows "\<exists>w' calls. Thread_requestDhcpPrefix socket setsockopt (Some index) bind mtu (Some ifname)
      (first # renewals @ final # later) w = Inr (Some (), w') \<and>
    trace w' = trace w @ calls @ [Close (utils_handler w), Close socket] \<and>
    (sends_open socket calls \<longleftrightarrow> (\<forall>a \<in> set (renewals @ [final]). da_sendto a < 0)) \<and>
    (sends_open socket calls \<longrightarrow>
      quiet calls =
        [Lock_Prefix, Send_Udp socket all_dhcp_agents 547 (map Byte (solicit_bytes (da_transId first))),
         Close socket, Unlock_Prefix, Sleep (PreferredLifetime (delegated_prefix data))] @
        concat (map (\<lambda>k. renewal_calls socket (renewed k (delegated_prefix data))) [0..<Suc (length renewals)]) \<and>
      prefix_holds w' (renewed (length renewals) (delegated_prefix data)))"
proof -
  let ?d = "delegated_prefix data"
  have "\<forall>a \<in> set ((first # renewals) @ [final]). da_ok (thread_mtu mtu) a"
    using assms(9-14) by (auto simp: da_ok_def)
  moreover have "40 + unat (thread_mtu mtu) + sum_list (map da_cost ((first # renewals) @ [final])) \<le> avail w"
    using assms(17) by simp
  ultimately obtain w' cs p' where run: "Thread_requestDhcpPrefix socket setsockopt (Some index) bind mtu (Some ifname)
      ((first # renewals) @ final # later) w = Inr (Some (), w')"
    "trace w' = trace w @ concat cs @ [Close (utils_handler w), Close socket]"
    "rounds_as (dhcp_round_as socket) r ((first # renewals) @ [final]) cs p'" "prefix_holds w' p'"
    using Thread_requestDhcpPrefix_run [OF assms(1-8) _ assms(15,16)] by blast
  then obtain c cs' p1 where cs: "cs = c # cs'" "dhcp_round_as socket r first c p1"
    "rounds_as (dhcp_round_as socket) p1 (renewals @ [final]) cs' p'" by (cases cs) auto
  have "p1 = ?d" using cs(2) assms(10-12) by (auto simp: dhcp_round_as_def)
  obtain out out' where c: "c = [Lock_Prefix, Printed out,
      Send_Udp socket all_dhcp_agents 547 (map Byte (solicit_bytes (da_transId first))), Printed out',
      Close socket, Unlock_Prefix, Sleep (PreferredLifetime ?d)]"
    using cs(2) assms(10) \<open>p1 = ?d\<close> by (auto simp: dhcp_round_as_def)
  have "quiet (concat cs) = quiet c @
      concat (map (\<lambda>k. renewal_calls socket (renewed k ?d)) [0..<Suc (length renewals)]) \<and>
    p' = renewed (length renewals) ?d" if "sends_open socket (concat cs)"
  proof -
    have "list_all (\<lambda>c. \<not> sends_through socket c) (concat cs')" using that by (simp add: cs(1) c)
    moreover have "PrefixLength ?d = 64" by (simp add: delegated_prefix_def)
    ultimately show ?thesis
      using unsent_rounds [OF cs(3)] by (simp add: cs(1) \<open>p1 = ?d\<close> settle_renewed del: funpow.simps upt_Suc)
  qed
  moreover have "sends_open socket (concat cs) \<longleftrightarrow> (\<forall>a \<in> set (renewals @ [final]). da_sendto a < 0)"
    using unsent_failed [OF cs(3)] by (simp add: cs(1) c)
  ultimately show ?thesis using run(1,2,4)
    by (intro exI [of _ w'] exI [of _ "concat cs"]) (auto simp: c simp del: upt_Suc)
qed

definition sample_da_answers :: "int \<Rightarrow> u8 list option \<Rightarrow> int option \<Rightarrow> dhcp_answers" where
  "sample_da_answers sendto recv signal = \<lparr>da_clock = Some (3, 5), da_random = \<lambda>_. 1,
     da_sendto = sendto, da_recv = recv, da_signal = signal\<rparr>"

lemma sample_da_answers_facts:
  "da_clock (sample_da_answers s d e) = Some (3, 5)" "da_sendto (sample_da_answers s d e) = s"
  "da_recv (sample_da_answers s d e) = d" "da_signal (sample_da_answers s d e) = e"
  by (simp_all add: sample_da_answers_def)

theorem dhcp_thread_witness:
  "\<exists>w' calls. Thread_requestDhcpPrefix 9 0 (Some 2) 0 (Some 64) (Some [108, 111])
      [sample_da_answers 44 (Some sample_reply) None, sample_da_answers (-1) None None,
       sample_da_answers (-1) None (Some 0)] (daemon_world zero_prefix) = Inr (Some (), w') \<and>
    trace w' = calls @ [Close 5, Close 9] \<and>
    sends_open 9 calls \<and> length (quiet calls) = 13 \<and> prefix_holds w' (delegated_prefix sample_delegation)"
proof -
  let ?first = "sample_da_answers 44 (Some sample_reply) None" and ?again = "sample_da_answers (-1) None"
  let ?w = "daemon_world zero_prefix" and ?d = "delegated_prefix sample_delegation"
  have "\<exists>w' calls. Thread_requestDhcpPrefix 9 0 (Some 2) 0 (Some 64) (Some [108, 111])
      (?first # [?again None] @ ?again (Some 0) # []) ?w = Inr (Some (), w') \<and>
    trace w' = trace ?w @ calls @ [Close (utils_handler ?w), Close 9] \<and>
    (sends_open 9 calls \<longleftrightarrow> (\<forall>a \<in> set ([?again None] @ [?again (Some 0)]). da_sendto a < 0)) \<and>
    (sends_open 9 calls \<longrightarrow>
      quiet calls =
        [Lock_Prefix, Send_Udp 9 all_dhcp_agents 547 (map Byte (solicit_bytes (da_transId ?first))),
         Close 9, Unlock_Prefix, Sleep (PreferredLifetime ?d)] @
        concat (map (\<lambda>k. renewal_calls 9 (renewed k ?d)) [0..<Suc (length [?again None])]) \<and>
      prefix_holds w' (renewed (length [?again None]) ?d))"
    by (rule dhcp_thread [OF daemon_world_facts(2,3) _ _ _ _ _ _ _ _ _ sample_reply_delegates])
      (simp_all add: sample_da_answers_facts daemon_world_facts sample_reply_facts thread_mtu_def da_cost_def da_ok_def
        daemon_world_def [of zero_prefix] sample_world_def del: replicate_numeral_Cons)
  then show ?thesis by (auto simp: daemon_world_facts sample_da_answers_facts renewal_calls_def renewed_def)
qed

text \<open>C34: The setups that fail. The advertising thread closes its socket, returns its memory and is
  marked as cancelled. The DHCPv6 thread is marked only when it gets no socket; when the
  socket cannot be bound to the interface it closes it, and when the bind to the port fails it
  loses the 40 bytes of its request as well, but in both cases the flag stays clear. The
  thread for solicitations ends the process when it gets no sockets, closes only one of
  them in the other cases and sets no flag; its message about a failing bind misses an
  argument.\<close>

theorem thread_setup_failures:
  fixes w :: "'z world_scheme"
  assumes "length ifname < 16" and "40 \<le> avail w" and "0 \<le> socket" and "0 \<le> socket'"
    and "bad < 0" and "0 \<le> good"
  shows "(\<exists>w'. Thread_sendRouterAdv socket bad (Some ifname) secs ras w = Inr ((), w') \<and>
      Thread_sendRouterAdv_cancel w' \<and> trace w' = trace w @ [Close socket] \<and> avail w' = avail w) \<and>
    Thread_sendRouterAdv bad good (Some ifname) secs ras w = Inr ((), w\<lparr>Thread_sendRouterAdv_cancel := True\<rparr>) \<and>
    Thread_requestDhcpPrefix bad good index good mtu (Some ifname) das w =
      Inr (Some (), w\<lparr>Thread_requestDhcpPrefix_cancel := True\<rparr>) \<and>
    gives_up w [Close socket] 0 (Thread_requestDhcpPrefix socket bad index good mtu (Some ifname) das w) \<and>
    gives_up w [Close socket] 40 (Thread_requestDhcpPrefix socket good (Some i) bad mtu (Some ifname) das w) \<and>
    Thread_listenRouterSolicit bad socket' good good good good (Some ifname) rss w = Inr (None, w) \<and>
    Thread_listenRouterSolicit socket bad good good good good (Some ifname) rss w = Inr (None, w) \<and>
    gives_up w [Close socket] 0 (Thread_listenRouterSolicit socket socket' bad good good good (Some ifname) rss w) \<and>
    gives_up w [Close socket'] 0 (Thread_listenRouterSolicit socket socket' good bad good good (Some ifname) rss w) \<and>
    gives_up w [Close socket] 0 (Thread_listenRouterSolicit socket socket' good good bad good (Some ifname) rss w) \<and>
    Thread_listenRouterSolicit socket socket' good good good bad (Some ifname) rss w = Inl BadVararg"
  by (intro conjI sendRouterAdv_setup_fails [OF assms(1,2,3,5)] requestDhcpPrefix_setup_fails [OF assms(1,2,3,5,6)]
      listenRouterSolicit_setup_fails [OF assms(1,3,4,5,6)])

theorem thread_setup_failures_witness:
  "gives_up (daemon_world zero_prefix) [Close 4] 40
      (Thread_requestDhcpPrefix 4 0 (Some 2) (-1) None (Some [108, 111]) [] (daemon_world zero_prefix)) \<and>
    Thread_listenRouterSolicit 4 6 0 0 0 (-1) (Some [108, 111]) [] (daemon_world zero_prefix) = Inl BadVararg"
  using thread_setup_failures [of "[108, 111]" "daemon_world zero_prefix" 4 6 "-1" 0 200 "[]" "Some 2" None "[]" 2 "[]"]
  by (simp add: daemon_world_facts)

text \<open>C10: The thread that answers solicitations, from start to end: one advertisement of the prefix per
  round, to the source of the first Router Solicitation it receives, under the mutex, until a
  signal arrives; then it closes both its sockets. The one for sending is never used.\<close>

theorem router_solicit_thread:
  fixes w :: "'z world_scheme"
  assumes "advertiser name r w" and "\<not> Thread_listenRouterSolicit_cancel w"
    and "0 \<le> socket" and "0 \<le> socket'" and "0 \<le> bindif" and "0 \<le> bindif'" and "0 \<le> join" and "0 \<le> bind"
    and "length ifname < 16" and "\<forall>a \<in> set (rounds @ [final]). rs_ok a"
    and "\<forall>a \<in> set rounds. rs_signal a = None" and "rs_signal final = Some close"
    and "144 + 16 * length rounds \<le> avail w"
  shows "\<exists>w' answers. Thread_listenRouterSolicit socket socket' bindif bindif' join bind (Some ifname)
      (rounds @ final # later) w = Inr (Some (), w') \<and>
    trace w' = trace w @ concat (map (rs_calls socket) answers) @
      [Close (utils_handler w), Close socket, Close socket'] \<and>
    list_all2 (rs_answered r) (rounds @ [final]) answers"
proof -
  let ?fin = "thenc (sys (Close socket)) (thenc (sys (Close socket')) (thenc (stack_free (Ptr (next_block w) 0)) (ret (Some ()))))"
  obtain w1 where w1: "Thread_listenRouterSolicit socket socket' bindif bindif' join bind (Some ifname)
      (rounds @ final # later) w = thenc (listenRouterSolicit_loop (rounds @ final # later) socket) ?fin w1"
    "world_keeps {} w w1" "trace w1 = trace w" "avail w1 = avail w"
    using Thread_listenRouterSolicit_setup [OF assms(3-9)] by blast
  have ready: "rs_ready name r (rounds @ [final]) w1" "\<not> Thread_listenRouterSolicit_cancel w1"
    "utils_handler w1 = utils_handler w"
    using advertiser_keeps [OF assms(1) w1(2)] w1(2,4) assms(2,10,13)
    by (simp_all add: rs_ready_def list_all_iff world_keeps_def same_globals_def)
  obtain w2 cs where w2: "listenRouterSolicit_loop (rounds @ final # later) socket w1 =
      thenc (handle close) (ret ()) w2" "trace w2 = trace w1 @ concat cs" "same_globals w1 w2"
    "rounds_as (\<lambda>_ a c _. \<exists>x. c = rs_calls socket x \<and> rs_answered r a x) () (rounds @ [final]) cs ()"
    using rs_loop.ends_with_signal [where P = "\<lambda>_ :: unit. rs_ready name r", OF rs_step ready(1,2) assms(11,12)]
    by simp blast
  obtain answers where "cs = map (rs_calls socket) answers" "list_all2 (rs_answered r) (rounds @ [final]) answers"
    using rounds_as_objects [OF w2(4)] by blast
  then show ?thesis using w1(1,3) w2(1-3) ready(3)
    by (simp add: thenc_apply ret_apply handle_apply sys_apply stack_free_def same_globals_def) blast
qed

definition sample_rs_answers :: "u8 list \<Rightarrow> in6_addr \<Rightarrow> int option \<Rightarrow> rs_answers" where
  "sample_rs_answers datagram source signal = \<lparr>rs_connect = 0, rs_getsockname = Some 7,
     rs_recvfrom = [Some ([134, 0, 9], 1), Some (datagram, source)],
     rs_ioctl_hw = Some ([1, 0] @ [2, 4, 6, 8, 10, 12] @ replicate 8 0), rs_errno = 0, rs_signal = signal\<rparr>"

lemma sample_rs_answers_facts:
  "rs_ok (sample_rs_answers [133, 0, 7] c s)" "rs_signal (sample_rs_answers d c s) = s"
  "first_solicit (rs_recvfrom (sample_rs_answers [133, 0, 7] c s)) = Some c"
  by (simp_all add: sample_rs_answers_def rs_ok_def is_router_solicit_def)

theorem router_solicit_thread_witness:
  "\<exists>w' x y. Thread_listenRouterSolicit 4 6 0 0 0 0 (Some [108, 111])
      [sample_rs_answers [133, 0, 7] 3 None, sample_rs_answers [133, 0, 7] 8 (Some 0)] (daemon_world zero_prefix) =
      Inr (Some (), w') \<and>
    trace w' = rs_calls 4 (3, x) @ rs_calls 4 (8, y) @ [Close 5, Close 4, Close 6]"
proof -
  let ?a = "sample_rs_answers [133, 0, 7] 3 None" and ?b = "sample_rs_answers [133, 0, 7] 8 (Some 0)"
  have "\<exists>w' answers. Thread_listenRouterSolicit 4 6 0 0 0 0 (Some [108, 111]) ([?a] @ ?b # [])
      (daemon_world zero_prefix) = Inr (Some (), w') \<and>
    trace w' = trace (daemon_world zero_prefix) @ concat (map (rs_calls 4) answers) @
      [Close (utils_handler (daemon_world zero_prefix)), Close 4, Close 6] \<and>
    list_all2 (rs_answered zero_prefix) ([?a] @ [?b]) answers"
    by (rule router_solicit_thread [OF daemon_world_facts(1)])
      (simp_all add: sample_rs_answers_facts daemon_world_facts daemon_world_def sample_world_def)
  then show ?thesis
    by (auto simp: list_all2_Cons1 rs_answered_def sample_rs_answers_facts daemon_world_facts) blast
qed

text \<open>C7: The advertising thread from start to end: it sends one advertisement of the prefix per
  round, each under the mutex and followed by the sleep, until a signal arrives, and then
  closes its socket. The handler closes the process-wide socket.\<close>

theorem router_adv_thread:
  fixes w :: "'z world_scheme"
  assumes "advertiser name r w" and "\<not> Thread_sendRouterAdv_cancel w"
    and "0 \<le> socket" and "0 \<le> setsockopt" and "length ifname < 16"
    and "\<forall>a \<in> set (rounds @ [final]). ra_ok a"
    and "\<forall>a \<in> set rounds. ra_signal a = None" and "ra_signal final = Some close"
    and "184 + 16 * length rounds \<le> avail w"
  shows "\<exists>w' packets. Thread_sendRouterAdv socket setsockopt (Some ifname) secs (rounds @ final # later) w =
      Inr ((), w') \<and>
    trace w' = trace w @ concat (map (ra_calls socket secs) packets) @
      [Close (utils_handler w), Close socket] \<and>
    list_all2 (\<lambda>a packet. ra_decode packet = Some (0, advert_of (ra_hardware a) r)) (rounds @ [final]) packets"
  by (rule Thread_sendRouterAdv_run [OF assms])

lemma octet_widened: "ucast (word_of_int n :: u8) = (word_of_int (n mod 256) :: u32)"
  by transfer (simp add: take_bit_eq_mod mod_mod_cancel)

definition sample_ra_answers :: "int option \<Rightarrow> ra_answers" where
  "sample_ra_answers signal = \<lparr>ra_connect = 0, ra_getsockname = Some 7,
     ra_ioctl_hw = Some ([1, 0] @ [2, 4, 6, 8, 10, 12] @ replicate 8 0), ra_errno = 0, ra_signal = signal\<rparr>"

lemma sample_ra_answers_facts:
  "ra_ok (sample_ra_answers s)" "ra_signal (sample_ra_answers s) = s"
  "ra_hardware (sample_ra_answers s) = [2, 4, 6, 8, 10, 12]"
  by (simp_all add: sample_ra_answers_def ra_ok_def ra_hardware_def segment_def)

theorem router_adv_thread_witness:
  "\<exists>w' packets. Thread_sendRouterAdv 4 0 (Some [108, 111]) 200
      [sample_ra_answers None, sample_ra_answers (Some 0)] (daemon_world zero_prefix) = Inr ((), w') \<and>
    trace w' = concat (map (ra_calls 4 200) packets) @ [Close 5, Close 4] \<and> length packets = 2"
proof -
  have "\<exists>w' packets. Thread_sendRouterAdv 4 0 (Some [108, 111]) 200
      ([sample_ra_answers None] @ sample_ra_answers (Some 0) # []) (daemon_world zero_prefix) = Inr ((), w') \<and>
    trace w' = trace (daemon_world zero_prefix) @ concat (map (ra_calls 4 200) packets) @
      [Close (utils_handler (daemon_world zero_prefix)), Close 4] \<and>
    list_all2 (\<lambda>a packet. ra_decode packet = Some (0, advert_of (ra_hardware a) zero_prefix))
      ([sample_ra_answers None] @ [sample_ra_answers (Some 0)]) packets"
    by (rule router_adv_thread [OF daemon_world_facts(1,9)])
      (simp_all add: sample_ra_answers_facts daemon_world_facts)
  then obtain w' packets where "Thread_sendRouterAdv 4 0 (Some [108, 111]) 200
      [sample_ra_answers None, sample_ra_answers (Some 0)] (daemon_world zero_prefix) = Inr ((), w')"
    "trace w' = concat (map (ra_calls 4 200) packets) @ [Close 5, Close 4]"
    "list_all2 (\<lambda>a packet. ra_decode packet = Some (0, advert_of (ra_hardware a) zero_prefix))
      ([sample_ra_answers None] @ [sample_ra_answers (Some 0)]) packets"
    by (auto simp: daemon_world_facts simp del: list_all2_Cons1)
  then show ?thesis using list_all2_lengthD by fastforce
qed

text \<open>C9: The daemon with a static prefix, from its command line to the network. Started with \<open>s\<close>, an
  interface, a prefix and a length that fits \<open>int\<close>, and when the calls of the setup succeed,
  \<open>main\<close> gets to the threads, and the advertising thread then sends, once per interval of 200 seconds until a signal arrives,
  advertisements that a host reads as the address of the command line with the length modulo
  256 and lifetimes of 48000 and 24000 seconds.\<close>

theorem static_daemon_advertises:
  fixes w :: "'z world_scheme"
  assumes "heap_wf w" and "prefix_holds w r" and "utils_handler w = -1" and "utils_request w = Null"
    and "\<not> Thread_sendRouterAdv_cancel w"
    and "starts_with 115 mode" and "- 2147483648 \<le> atoi_value digits" and "atoi_value digits \<le> 2147483647"
    and "0 \<le> utils" and "0 \<le> setsockopt" and "0 \<le> socket" and "0 \<le> setsockopt'" and "length lan < 16"
    and "inet_pton prefix = Some addr"
    and "\<forall>a \<in> set (rounds @ [final]). ra_ok a"
    and "\<forall>a \<in> set rounds. ra_signal a = None" and "ra_signal final = Some close"
    and "224 + 16 * length rounds \<le> avail w"
  shows "\<exists>w1 w' packets.
    main_start inet_pton [program, mode, lan, prefix, digits] utils setsockopt errno True True w =
      Inr (Some (False, None, Some lan), w1) \<and>
    Thread_sendRouterAdv socket setsockopt' (Some lan) 200 (rounds @ final # later) w1 = Inr ((), w') \<and>
    trace w' = trace w @ concat (map (ra_calls socket 200) packets) @ [Close utils, Close socket] \<and>
    list_all2 (\<lambda>a packet. ra_decode packet =
        Some (0, ra_of_prefix (ra_hardware a) addr (of_int (atoi_value digits mod 256)) 48000 24000))
      (rounds @ [final]) packets"
proof -
  have "40 \<le> avail w" using assms(18) by simp
  from main_start_static [OF assms(1-4,6-10,13) this] obtain w1 where w1:
    "main_start inet_pton [program, mode, lan, prefix, digits] utils setsockopt errno True True w =
      Inr (Some (False, None, Some lan), w1)"
    "advertiser lan (static_prefix (inet_pton prefix) digits) w1" "utils_handler w1 = utils" "trace w1 = trace w"
    "avail w1 = avail w - 40" "\<not> Thread_sendRouterAdv_cancel w1"
    using assms(5) by blast
  have "184 + 16 * length rounds \<le> avail w1" using assms(18) w1(5) by simp
  from Thread_sendRouterAdv_run [OF w1(2,6) assms(11,12,13,15,16,17) this, of 200 later] obtain w' packets where
    "Thread_sendRouterAdv socket setsockopt' (Some lan) 200 (rounds @ final # later) w1 = Inr ((), w')"
    "trace w' = trace w1 @ concat (map (ra_calls socket 200) packets) @ [Close (utils_handler w1), Close socket]"
    "list_all2 (\<lambda>a packet. ra_decode packet =
        Some (0, advert_of (ra_hardware a) (static_prefix (inet_pton prefix) digits))) (rounds @ [final]) packets"
    by blast
  then show ?thesis using w1(1,3,4) assms(14)
    by (intro exI [of _ w1] exI [of _ w'] exI [of _ packets]) (simp add: advert_of_def static_prefix_def octet_widened)
qed

text \<open>A process before its start, with a prefix of zeros.\<close>

definition start_world :: world where
  "start_world = sample_world [map Byte (dh_opt_IA_Prefix_bytes zero_prefix)] 1000"

theorem static_daemon_advertises_witness:
  "\<exists>w1 w' x y.
    main_start (\<lambda>_. Some 9) [[112], [115], [108, 111], [58, 58], [54, 52]] 5 0 0 True True start_world =
      Inr (Some (False, None, Some [108, 111]), w1) \<and>
    Thread_sendRouterAdv 4 0 (Some [108, 111]) 200
      [sample_ra_answers None, sample_ra_answers (Some 0)] w1 = Inr ((), w') \<and>
    trace w' = ra_calls 4 200 x @ ra_calls 4 200 y @ [Close 5, Close 4] \<and>
    ra_decode x = Some (0, ra_of_prefix [2, 4, 6, 8, 10, 12] 9 64 48000 24000) \<and> ra_decode y = ra_decode x"
proof -
  have digits: "atoi_value [54, 52] = 64" by (simp add: atoi_value_def is_white_def digits_value_def is_digit_def)
  have world: "heap_wf start_world" "prefix_holds start_world zero_prefix" "trace start_world = []"
    "\<not> Thread_sendRouterAdv_cancel start_world"
    by (simp_all add: start_world_def heap_wf_def prefix_holds_def sample_world_def)
  have "\<exists>w1 w' packets.
    main_start (\<lambda>_. Some 9) [[112], [115], [108, 111], [58, 58], [54, 52]] 5 0 0 True True start_world =
      Inr (Some (False, None, Some [108, 111]), w1) \<and>
    Thread_sendRouterAdv 4 0 (Some [108, 111]) 200
      ([sample_ra_answers None] @ sample_ra_answers (Some 0) # []) w1 = Inr ((), w') \<and>
    trace w' = trace start_world @ concat (map (ra_calls 4 200) packets) @ [Close 5, Close 4] \<and>
    list_all2 (\<lambda>a packet. ra_decode packet =
        Some (0, ra_of_prefix (ra_hardware a) 9 (of_int (atoi_value [54, 52] mod 256)) 48000 24000))
      ([sample_ra_answers None] @ [sample_ra_answers (Some 0)]) packets"
    by (rule static_daemon_advertises [OF world(1,2)])
      (use world(4) in \<open>simp_all add: digits sample_ra_answers_facts starts_with_def start_world_def\<close>)
  then obtain w1 w' packets where run:
    "main_start (\<lambda>_. Some 9) [[112], [115], [108, 111], [58, 58], [54, 52]] 5 0 0 True True start_world =
      Inr (Some (False, None, Some [108, 111]), w1)"
    "Thread_sendRouterAdv 4 0 (Some [108, 111]) 200
      ([sample_ra_answers None] @ sample_ra_answers (Some 0) # []) w1 = Inr ((), w')"
    "trace w' = trace start_world @ concat (map (ra_calls 4 200) packets) @ [Close 5, Close 4]"
    "list_all2 (\<lambda>a packet. ra_decode packet =
        Some (0, ra_of_prefix (ra_hardware a) 9 (of_int (atoi_value [54, 52] mod 256)) 48000 24000))
      ([sample_ra_answers None] @ [sample_ra_answers (Some 0)]) packets" by blast
  from run(4) obtain x y where "packets = [x, y]"
    "ra_decode x = Some (0, ra_of_prefix [2, 4, 6, 8, 10, 12] 9 64 48000 24000)" "ra_decode y = ra_decode x"
    by (auto simp: digits sample_ra_answers_facts list_all2_Cons1)
  then show ?thesis using run(1-3)
    by (intro exI [of _ w1] exI [of _ w'] exI [of _ x] exI [of _ y]) (simp add: world(3))
qed

text \<open>C28: The advertising thread leaks the 16 bytes of a route option in every round. However much
  memory there is, a thread that is never cancelled and whose system calls all succeed ends
  in a write through NULL once the leak has used it up.\<close>

theorem router_adv_leak:
  fixes w :: "'z world_scheme"
  assumes "advertiser name r w" and "\<not> Thread_sendRouterAdv_cancel w"
    and "0 \<le> socket" and "0 \<le> setsockopt" and "length ifname < 16" and "104 \<le> avail w"
    and "\<forall>a \<in> set answers. ra_ok a \<and> ra_signal a = None" and "avail w < 168 + 16 * length answers"
    and "answers \<noteq> []"
  shows "Thread_sendRouterAdv socket setsockopt (Some ifname) secs answers w = Inl NullDeref"
proof -
  have mem: "40 \<le> avail w" using assms(6) by simp
  obtain w1 where w1: "Thread_sendRouterAdv socket setsockopt (Some ifname) secs answers w =
      thenc (sendRouterAdv_loop answers socket secs) (sys (Close socket)) w1"
    "world_keeps {} w w1" "avail w1 = avail w - 40"
    using Thread_sendRouterAdv_setup [OF assms(3-5) mem] by blast
  have w1': "advertiser name r w1" "\<not> Thread_sendRouterAdv_cancel w1"
    using advertiser_keeps [OF assms(1) w1(2)] w1(2) assms(2) by (simp_all add: world_keeps_def same_globals_def)
  have "64 \<le> avail w1" "avail w1 < 128 + 16 * length answers" using assms(6,8) w1(3) by simp_all
  then have "sendRouterAdv_loop answers socket secs w1 = Inl NullDeref"
    using sendRouterAdv_loop_crash [OF w1'(1) assms(7)] w1'(2) assms(9) by blast
  then show ?thesis using w1(1) by (simp add: thenc_apply)
qed

theorem router_adv_leak_witness:
  "Thread_sendRouterAdv 4 0 (Some [108, 111]) 200 (replicate 60 (sample_ra_answers None))
    (daemon_world zero_prefix) = Inl NullDeref"
  by (rule router_adv_leak [OF daemon_world_facts(1,9)])
    (simp_all add: sample_ra_answers_facts daemon_world_facts del: replicate_numeral_Cons)

end
