(* ===== verification/Dhcp_Wire.thy ===== *)
theory Dhcp_Wire
  imports Daemon_Threads
begin

text \<open>
  The abstract specification of DHCPv6 messages on the wire (RFC 8415 sections 8, 11 and 21):
  DUIDs, options with the options inside them, messages, their octets, and a receiver. It is
  written from the standard and independent of the code. What the client's code leaves in
  memory and sends is the encoding of the intended value; what a server encodes is what the
  exchange stores.
\<close>

section \<open>DUIDs\<close>

datatype duid =
    DUID_LLT u16 u32 "u8 list"
  | DUID_EN u32 "u8 list"
  | DUID_LL u16 "u8 list"
  | DUID_UUID "u8 list"
  | DUID_Other u16 "u8 list"

primrec duid_encode :: "duid \<Rightarrow> u8 list" where
  "duid_encode (DUID_LLT hardware time address) =
     be_bytes 2 (1::u16) @ be_bytes 2 hardware @ be_bytes 4 time @ address"
| "duid_encode (DUID_EN enterprise identifier) = be_bytes 2 (2::u16) @ be_bytes 4 enterprise @ identifier"
| "duid_encode (DUID_LL hardware address) = be_bytes 2 (3::u16) @ be_bytes 2 hardware @ address"
| "duid_encode (DUID_UUID uuid) = be_bytes 2 (4::u16) @ uuid"
| "duid_encode (DUID_Other ty octets) = be_bytes 2 ty @ octets"

definition duid_decode :: "u8 list \<Rightarrow> duid option" where
  "duid_decode bs = (let ty = from_be (take 2 bs) :: u16; body = drop 2 bs in
     if length bs < 2 then None
     else if ty = 1 then
       (if length body < 6 then None
        else Some (DUID_LLT (from_be (take 2 body)) (from_be (segment 2 4 body)) (drop 6 body)))
     else if ty = 2 then
       (if length body < 4 then None else Some (DUID_EN (from_be (take 4 body)) (drop 4 body)))
     else if ty = 3 then
       (if length body < 2 then None else Some (DUID_LL (from_be (take 2 body)) (drop 2 body)))
     else if ty = 4 then (if length body = 16 then Some (DUID_UUID body) else None)
     else Some (DUID_Other ty body))"

fun duid_wf :: "duid \<Rightarrow> bool" where
  "duid_wf (DUID_UUID uuid) \<longleftrightarrow> length uuid = 16"
| "duid_wf (DUID_Other ty octets) \<longleftrightarrow> ty \<notin> {1, 2, 3, 4}"
| "duid_wf _ \<longleftrightarrow> True"

lemma from_be_be_bytes2 [simp]: "from_be (be_bytes 2 (v::u16)) = v"
  by (simp add: from_be_def be_bytes_def)

lemma duid_decode_encode: "duid_wf d \<Longrightarrow> duid_decode (duid_encode d) = Some d"
  by (cases d) (simp_all add: duid_decode_def Let_def segment_def)

section \<open>Options\<close>

datatype dhcp_option =
    Dhcp_ClientId duid
  | Dhcp_ServerId duid
  | Dhcp_ElapsedTime u16
  | Dhcp_Status u16 "u8 list"
  | Dhcp_RapidCommit
  | Dhcp_IA_PD u32 u32 u32 "dhcp_option list"
  | Dhcp_IAPrefix u32 u32 u8 in6_addr "dhcp_option list"
  | Dhcp_Other u16 "u8 list"

primrec dhcp_code :: "dhcp_option \<Rightarrow> u16" where
  "dhcp_code (Dhcp_ClientId d) = 1"
| "dhcp_code (Dhcp_ServerId d) = 2"
| "dhcp_code (Dhcp_ElapsedTime t) = 8"
| "dhcp_code (Dhcp_Status code message) = 13"
| "dhcp_code Dhcp_RapidCommit = 14"
| "dhcp_code (Dhcp_IA_PD iaid t1 t2 opts) = 25"
| "dhcp_code (Dhcp_IAPrefix preferred valid len prefix opts) = 26"
| "dhcp_code (Dhcp_Other code octets) = code"

definition dhcp_wrap :: "u16 \<Rightarrow> u8 list \<Rightarrow> u8 list" where
  "dhcp_wrap code body = be_bytes 2 code @ be_bytes 2 (of_nat (length body) :: u16) @ body"

primrec dhcp_encode :: "dhcp_option \<Rightarrow> u8 list" where
  "dhcp_encode (Dhcp_ClientId d) = dhcp_wrap 1 (duid_encode d)"
| "dhcp_encode (Dhcp_ServerId d) = dhcp_wrap 2 (duid_encode d)"
| "dhcp_encode (Dhcp_ElapsedTime t) = dhcp_wrap 8 (be_bytes 2 t)"
| "dhcp_encode (Dhcp_Status code message) = dhcp_wrap 13 (be_bytes 2 code @ message)"
| "dhcp_encode Dhcp_RapidCommit = dhcp_wrap 14 []"
| "dhcp_encode (Dhcp_IA_PD iaid t1 t2 opts) =
     dhcp_wrap 25 (be_bytes 4 iaid @ be_bytes 4 t1 @ be_bytes 4 t2 @ concat (map dhcp_encode opts))"
| "dhcp_encode (Dhcp_IAPrefix preferred valid len prefix opts) =
     dhcp_wrap 26 (be_bytes 4 preferred @ be_bytes 4 valid @ [len] @ be_bytes 16 prefix @
       concat (map dhcp_encode opts))"
| "dhcp_encode (Dhcp_Other code octets) = dhcp_wrap code octets"

definition dhcp_body :: "dhcp_option \<Rightarrow> u8 list" where
  "dhcp_body opt = drop 4 (dhcp_encode opt)"

text \<open>Every option is its code, its length and its body; a body that fits its length field.\<close>

lemma dhcp_encode_wrap: "dhcp_encode opt = dhcp_wrap (dhcp_code opt) (dhcp_body opt)"
  by (cases opt) (simp_all add: dhcp_body_def dhcp_wrap_def)

fun dhcp_wf :: "dhcp_option \<Rightarrow> bool" where
  "dhcp_wf (Dhcp_ClientId d) \<longleftrightarrow> duid_wf d \<and> length (duid_encode d) < 65536"
| "dhcp_wf (Dhcp_ServerId d) \<longleftrightarrow> duid_wf d \<and> length (duid_encode d) < 65536"
| "dhcp_wf (Dhcp_Status code message) \<longleftrightarrow> length message < 65534"
| "dhcp_wf (Dhcp_IA_PD iaid t1 t2 opts) \<longleftrightarrow> (\<forall>opt \<in> set opts. dhcp_wf opt) \<and>
     length (concat (map dhcp_encode opts)) < 65524"
| "dhcp_wf (Dhcp_IAPrefix preferred valid len prefix opts) \<longleftrightarrow> (\<forall>opt \<in> set opts. dhcp_wf opt) \<and>
     length (concat (map dhcp_encode opts)) < 65511"
| "dhcp_wf (Dhcp_Other code octets) \<longleftrightarrow> code \<notin> {1, 2, 8, 13, 14, 25, 26} \<and> length octets < 65536"
| "dhcp_wf _ \<longleftrightarrow> True"

lemma dhcp_body_length: "dhcp_wf opt \<Longrightarrow> length (dhcp_body opt) < 65536"
  by (cases opt) (simp_all add: dhcp_body_def dhcp_wrap_def)

section \<open>The receiver\<close>

function dhcp_decode :: "u8 list \<Rightarrow> dhcp_option list option"
  and dhcp_interpret :: "u16 \<Rightarrow> u8 list \<Rightarrow> dhcp_option option" where
  "dhcp_decode bs =
     (if bs = [] then Some []
      else if length bs < 4 then None
      else
        let code = from_be (take 2 bs) :: u16; n = unat (from_be (segment 2 2 bs) :: u16); rest = drop 4 bs in
        if length rest < n then None
        else case dhcp_interpret code (take n rest) of
            None \<Rightarrow> None
          | Some opt \<Rightarrow> map_option (Cons opt) (dhcp_decode (drop n rest)))"
| "dhcp_interpret code body =
     (if code = 1 then map_option Dhcp_ClientId (duid_decode body)
      else if code = 2 then map_option Dhcp_ServerId (duid_decode body)
      else if code = 8 then (if length body = 2 then Some (Dhcp_ElapsedTime (from_be body)) else None)
      else if code = 13 then
        (if length body < 2 then None else Some (Dhcp_Status (from_be (take 2 body)) (drop 2 body)))
      else if code = 14 then (if body = [] then Some Dhcp_RapidCommit else None)
      else if code = 25 then
        (if length body < 12 then None
         else map_option (Dhcp_IA_PD (from_be (take 4 body)) (from_be (segment 4 4 body))
                (from_be (segment 8 4 body))) (dhcp_decode (drop 12 body)))
      else if code = 26 then
        (if length body < 25 then None
         else map_option (Dhcp_IAPrefix (from_be (take 4 body)) (from_be (segment 4 4 body)) (body ! 8)
                (from_be (segment 9 16 body))) (dhcp_decode (drop 25 body)))
      else Some (Dhcp_Other code body))"
  by pat_completeness auto
termination
  by (relation "measure (\<lambda>x. case x of Inl bs \<Rightarrow> length bs | Inr (code, body) \<Rightarrow> length body)") auto

declare dhcp_decode.simps [simp del] dhcp_interpret.simps [simp del]

lemma dhcp_decode_nil [simp]: "dhcp_decode [] = Some []"
  by (simp add: dhcp_decode.simps)

lemma dhcp_decode_wrap:
  assumes "length body < 65536"
  shows "dhcp_decode (dhcp_wrap code body @ rest) = (case dhcp_interpret code body of
     None \<Rightarrow> None | Some opt \<Rightarrow> map_option (Cons opt) (dhcp_decode rest))"
proof -
  let ?n = "of_nat (length body) :: u16"
  have n: "unat ?n = length body" using assms by (simp add: unat_of_nat)
  have "dhcp_wrap code body @ rest \<noteq> []" "\<not> length (dhcp_wrap code body @ rest) < 4"
    "take 2 (dhcp_wrap code body @ rest) = be_bytes 2 code"
    "segment 2 2 (dhcp_wrap code body @ rest) = be_bytes 2 ?n"
    "drop 4 (dhcp_wrap code body @ rest) = body @ rest"
    by (simp_all add: dhcp_wrap_def segment_def flip: length_greater_0_conv)
  moreover have "\<not> length (body @ rest) < length body" "take (length body) (body @ rest) = body"
    "drop (length body) (body @ rest) = rest" by simp_all
  ultimately show ?thesis
    by (simp only: dhcp_decode.simps [of "dhcp_wrap code body @ rest"] Let_def if_False from_be_be_bytes2 n)
qed

lemma dhcp_interpret_nested:
  assumes "dhcp_decode (concat (map dhcp_encode opts)) = Some opts"
  shows "dhcp_interpret 25 (be_bytes 4 iaid @ be_bytes 4 t1 @ be_bytes 4 t2 @ concat (map dhcp_encode opts)) =
      Some (Dhcp_IA_PD iaid t1 t2 opts)"
    and "dhcp_interpret 26 (be_bytes 4 preferred @ be_bytes 4 valid @ [len] @ be_bytes 16 prefix @
        concat (map dhcp_encode opts)) = Some (Dhcp_IAPrefix preferred valid len prefix opts)"
  by (subst dhcp_interpret.simps, simp add: segment_def assms nth_append)+

lemma dhcp_decode_inner:
  assumes "\<And>inner rest. inner \<in> set opts \<Longrightarrow> dhcp_wf inner \<Longrightarrow>
       dhcp_decode (dhcp_encode inner @ rest) = map_option (Cons inner) (dhcp_decode rest)"
    and "\<forall>inner \<in> set opts. dhcp_wf inner"
  shows "dhcp_decode (concat (map dhcp_encode opts)) = Some opts"
  by (rule decode_concat [where encode = dhcp_encode]) (simp_all add: assms)

lemma dhcp_decode_one:
  "dhcp_wf opt \<Longrightarrow> dhcp_decode (dhcp_encode opt @ rest) = map_option (Cons opt) (dhcp_decode rest)"
proof (induction opt arbitrary: rest)
  case (Dhcp_IA_PD iaid t1 t2 opts)
  then have "dhcp_decode (concat (map dhcp_encode opts)) = Some opts"
    by (intro dhcp_decode_inner) simp_all
  with Dhcp_IA_PD.prems show ?case by (simp add: dhcp_decode_wrap dhcp_interpret_nested)
next
  case (Dhcp_IAPrefix preferred valid len prefix opts)
  then have "dhcp_decode (concat (map dhcp_encode opts)) = Some opts"
    by (intro dhcp_decode_inner) simp_all
  with Dhcp_IAPrefix.prems show ?case
    by (simp add: dhcp_decode_wrap dhcp_interpret_nested [unfolded append_Cons append_Nil])
qed (simp_all add: dhcp_decode_wrap dhcp_interpret.simps duid_decode_encode)

interpretation dhcp_codec: option_codec dhcp_encode dhcp_decode dhcp_wf
  by unfold_locales (simp_all add: dhcp_decode_one)

section \<open>Messages\<close>

record dhcp_message =
  msg_type :: u8
  msg_transaction :: dh_pkt_TransactionId
  msg_options :: "dhcp_option list"

text \<open>A message as the \<open>dh_pkt\<close> it is in memory.\<close>

definition dhcp_message_encode :: "dhcp_message \<Rightarrow> u8 list" where
  "dhcp_message_encode m = dh_pkt_bytes \<lparr>MsgType = msg_type m, TransactionId = msg_transaction m,
     Options = concat (map dhcp_encode (msg_options m))\<rparr>"

definition dhcp_message_decode :: "u8 list \<Rightarrow> dhcp_message option" where
  "dhcp_message_decode bs =
     (if length bs < 4 then None
      else map_option (\<lambda>opts. \<lparr>msg_type = bs ! 0, msg_transaction =
             \<lparr>TransactionId_0 = bs ! 1, TransactionId_1 = bs ! 2, TransactionId_2 = bs ! 3\<rparr>,
             msg_options = opts\<rparr>) (dhcp_decode (drop 4 bs)))"

lemma dhcp_message_decode_encode:
  "list_all dhcp_wf (msg_options m) \<Longrightarrow> dhcp_message_decode (dhcp_message_encode m) = Some m"
  by (simp add: dhcp_message_decode_def dhcp_message_encode_def dh_pkt_bytes_def
      dh_pkt_TransactionId_bytes_def dhcp_codec.decode_encode)

text \<open>What the packet builder and the parser of the code work on.\<close>

definition dhcp_raw :: "dhcp_option \<Rightarrow> dh_option" where
  "dhcp_raw opt = (dhcp_code opt, map Byte (dhcp_body opt))"

lemma dhcp_raw_wire: "dh_wire_option (dhcp_raw opt) = map Byte (dhcp_encode opt)"
  by (simp add: dhcp_raw_def dhcp_encode_wrap [of opt] dhcp_wrap_def)

lemma dhcp_message_wire:
  "map Byte (dhcp_message_encode m) =
     dh_wire_packet (msg_type m) (msg_transaction m) (map dhcp_raw (msg_options m))"
  by (simp add: dhcp_message_encode_def dh_pkt_bytes_def dh_wire_packet_def map_concat o_def dhcp_raw_wire)

lemma dhcp_raw_sized: "list_all dhcp_wf opts \<Longrightarrow> dh_sized (map dhcp_raw opts)"
  by (auto simp: dh_sized_def dhcp_raw_def list_all_iff dhcp_body_length)

section \<open>The Solicit message\<close>

text \<open>The enterprise number 4107 with four octets of identifier, no elapsed time, one
  identity association for prefixes without hints, and the wish for a Reply at once.\<close>

definition solicit_message :: "dh_pkt_TransactionId \<Rightarrow> dhcp_message" where
  "solicit_message transId = \<lparr>msg_type = 1, msg_transaction = transId, msg_options =
     [Dhcp_ClientId (DUID_EN 4107 [0x0d, 0x00, 0x07, 0x21]), Dhcp_ElapsedTime 0,
      Dhcp_IA_PD 0xd0007021 0 0 [], Dhcp_RapidCommit]\<rparr>"

lemma solicit_decodes: "dhcp_message_decode (solicit_bytes transId) = Some (solicit_message transId)"
proof -
  have "solicit_bytes transId = dhcp_message_encode (solicit_message transId)"
    by (simp add: solicit_bytes_def solicit_message_def dhcp_message_encode_def dh_pkt_bytes_def
        dhcp_wrap_def dh_option_codes)
  moreover have "list_all dhcp_wf (msg_options (solicit_message transId))"
    by (simp add: solicit_message_def)
  ultimately show ?thesis by (simp add: dhcp_message_decode_encode)
qed

section \<open>What the exchange takes from a reply\<close>

text \<open>The options inside the first prefix delegation.\<close>

fun first_IA_PD :: "dhcp_option list \<Rightarrow> dhcp_option list option" where
  "first_IA_PD [] = None"
| "first_IA_PD (Dhcp_IA_PD iaid t1 t2 inner # opts) = Some inner"
| "first_IA_PD (opt # opts) = first_IA_PD opts"

lemma first_IA_PD_found:
  assumes "first_IA_PD opts = Some inner" and "list_all dhcp_wf opts"
  shows "\<exists>fields rest. length fields = 12 \<and> dh_find DHCPv6_OPTION_IA_PD (map dhcp_raw opts) =
    map Byte (fields @ concat (map dhcp_encode inner)) # rest"
  using assms
proof (induction opts rule: first_IA_PD.induct)
  case (2 iaid t1 t2 inner' opts)
  then show ?case
    by (intro exI [of _ "be_bytes 4 iaid @ be_bytes 4 t1 @ be_bytes 4 t2"])
      (simp add: dh_find_def dhcp_raw_def dhcp_body_def dhcp_wrap_def dh_option_codes)
qed (auto simp: dh_find_def dhcp_raw_def dh_option_codes)

lemma dh_find_length: "length (dh_find c opts) \<le> length opts"
  by (simp add: dh_find_def)

text \<open>The code takes the body of the first option there for the fields of an IA Prefix, whatever
  its code: what it makes of 25 octets or more.\<close>

definition prefix_of_body :: "u8 list \<Rightarrow> dh_opt_IA_Prefix" where
  "prefix_of_body body = \<lparr>PreferredLifetime = from_be (take 4 body), ValidLifetime = from_be (segment 4 4 body),
     PrefixLength = 64, Prefix = from_be (segment 9 16 body)\<rparr>"

text \<open>A Reply of the server and the first option of its first delegation.\<close>

definition reply_carries :: "dhcp_message \<Rightarrow> dhcp_option \<Rightarrow> bool" where
  "reply_carries m opt \<longleftrightarrow> msg_type m = 7 \<and> list_all dhcp_wf (msg_options m) \<and>
     (case first_IA_PD (msg_options m) of Some (first # _) \<Rightarrow> first = opt | _ \<Rightarrow> False)"

lemma message_delegates:
  assumes m: "reply_carries m opt" and body: "25 \<le> length (dhcp_body opt)"
  shows "\<exists>data n. reply_delegates (dhcp_message_encode m) data n \<and> n \<le> length (msg_options m) \<and>
    delegated_prefix data = prefix_of_body (dhcp_body opt)"
proof -
  let ?opts = "map dhcp_raw (msg_options m)"
  obtain others where ok: "msg_type m = 7" "list_all dhcp_wf (msg_options m)"
    "first_IA_PD (msg_options m) = Some (opt # others)"
    using m by (auto simp: reply_carries_def split: option.splits list.splits)
  obtain fields rest where found: "length fields = 12" "dh_find DHCPv6_OPTION_IA_PD ?opts =
      map Byte (fields @ concat (map dhcp_encode (opt # others))) # rest"
    using first_IA_PD_found [OF ok(3,2)] by blast
  let ?data = "fields @ concat (map dhcp_encode (opt # others))"
  have "delegated_prefix ?data = prefix_of_body (dhcp_body opt)"
    using found(1) body
    by (simp add: delegated_prefix_def prefix_of_body_def segment_def dhcp_encode_wrap [of opt] dhcp_wrap_def)
  moreover have "41 \<le> length ?data"
    using found(1) body by (simp add: dhcp_encode_wrap [of opt] dhcp_wrap_def)
  moreover have "?opts \<noteq> []" using ok(3) by auto
  moreover have "Suc (length rest) \<le> length (msg_options m)"
    using dh_find_length [of DHCPv6_OPTION_IA_PD ?opts] found(2) by simp
  ultimately show ?thesis
    using found(2) dhcp_message_wire [of m] dhcp_raw_sized [OF ok(2)] ok(1)
    by (intro exI [of _ ?data] exI [of _ "Suc (length rest)"]) (auto simp: reply_delegates_def)
qed

section \<open>From the server to the hosts\<close>

text \<open>One round of the DHCPv6 thread and one of the advertising thread, between a server that
  sends a Reply and the hosts on the network.\<close>

lemma body_reaches_hosts:
  fixes w :: "'z world_scheme"
  assumes adv: "advertiser name r w" and buf: "receive_buffer w bb (unat mtu)"
    and apart: "utils_request w \<noteq> Ptr bb 0" "prefix_ptr w \<noteq> Ptr bb 0"
    and reply: "reply_carries m opt" "length (dhcp_message_encode m) \<le> unat mtu" "25 \<le> length (dhcp_body opt)"
    and mem: "220 + 16 * length (msg_options m) \<le> avail w" and send: "0 \<le> sendto"
    and mac: "length sockaddr = 16" and conn: "0 \<le> connect"
  shows "\<exists>w' packet. thenc
      (requestDhcpPrefix_round (Some (sec, nsec)) rng sendto (Some (dhcp_message_encode m)) handler (Ptr bb 0) mtu)
      (sendRouterAdv_round connect (Some src) (Some sockaddr) errno ndpHandler secs) w = Inr ((), w') \<and>
    Send_Udp handler all_dhcp_agents 547 (map Byte (solicit_bytes (exchange_transId sec nsec rng))) \<in> set (trace w') \<and>
    Send_Raw ndpHandler all_nodes 255 (map Byte packet) \<in> set (trace w') \<and>
    ra_decode packet = Some (0, advert_of (segment 2 6 sockaddr) (prefix_of_body (dhcp_body opt)))"
proof -
  obtain data n where data: "reply_delegates (dhcp_message_encode m) data n" "n \<le> length (msg_options m)"
    "delegated_prefix data = prefix_of_body (dhcp_body opt)"
    using message_delegates [OF reply(1,3)] by blast
  have ok: "heap_wf w" "utils_ready name w" "utils_request w \<noteq> prefix_ptr w"
    using adv by (simp_all add: advertiser_def)
  obtain pb where pb: "prefix_ptr w = Ptr pb 0" "blocks w pb = Some (map Byte (dh_opt_IA_Prefix_bytes r))"
    using adv by (auto simp: advertiser_def prefix_holds_def)
  have "pb \<noteq> bb" using apart(2) pb(1) by auto
  then obtain w1 out out' where w1: "requestDhcpPrefix_round (Some (sec, nsec)) rng sendto
      (Some (dhcp_message_encode m)) handler (Ptr bb 0) mtu w = Inr (Some 0, w1)"
    "prefix_holds w1 (prefix_of_body (dhcp_body opt))"
    "trace w1 = trace w @ [Lock_Prefix, Printed out,
      Send_Udp handler all_dhcp_agents 547 (map Byte (solicit_bytes (exchange_transId sec nsec rng))),
      Printed out', Close handler, Unlock_Prefix, Sleep (PreferredLifetime (delegated_prefix data))]"
    "world_keeps {bb, pb} w w1" "avail w1 = avail w - 76 - 16 * n"
    using dhcp_round_run [of w bb mtu "dhcp_message_encode m" data n pb _ sendto sec nsec rng handler]
      ok(1) buf reply(2) data pb mem send by auto
  have "utils_ready name w1"
    by (rule utils_ready_keeps [OF ok(2) w1(4)]) (use apart ok(3) pb(1) in auto)
  then have adv1: "advertiser name (prefix_of_body (dhcp_body opt)) w1"
    using w1(2,4) ok by (simp add: advertiser_def world_keeps_def same_globals_def)
  have mem1: "144 \<le> avail w1" using mem data(2) w1(5) by simp
  obtain w' packet where "sendRouterAdv_round connect (Some src) (Some sockaddr) errno ndpHandler secs w1 =
      Inr ((), w')" "trace w' = trace w1 @ [Lock_Prefix, Send_Raw ndpHandler all_nodes 255 (map Byte packet),
        Unlock_Prefix, Sleep secs]"
    "ra_decode packet = Some (0, advert_of (segment 2 6 sockaddr) (prefix_of_body (dhcp_body opt)))"
    using sendRouterAdv_round_run [OF adv1 mac mem1 conn, of src errno ndpHandler secs] by blast
  then show ?thesis using w1(1,3)
    by (intro exI [of _ w'] exI [of _ packet]) (simp add: thenc_apply)
qed

text \<open>C2: The daemon between its two protocols. What it sends to the servers is read, by a receiver
  that follows RFC 8415, as the Solicit message with its DUID, elapsed time, identity
  association and Rapid Commit; when the server's Reply delegates a prefix, what it then sends
  to the hosts is read, by a receiver that follows RFC 4861, as the advertisement of that
  prefix with the server's lifetimes.\<close>

theorem server_prefix_reaches_hosts:
  fixes w :: "'z world_scheme"
  assumes "advertiser name r w" and "receive_buffer w bb (unat mtu)"
    and "utils_request w \<noteq> Ptr bb 0" and "prefix_ptr w \<noteq> Ptr bb 0"
    and "reply_carries m (Dhcp_IAPrefix preferred valid len prefix inner)"
    and "length (dhcp_message_encode m) \<le> unat mtu"
    and "220 + 16 * length (msg_options m) \<le> avail w" and "0 \<le> sendto"
    and "length sockaddr = 16" and "0 \<le> connect"
  shows "\<exists>w' request packet. thenc
      (requestDhcpPrefix_round (Some (sec, nsec)) rng sendto (Some (dhcp_message_encode m)) handler (Ptr bb 0) mtu)
      (sendRouterAdv_round connect (Some src) (Some sockaddr) errno ndpHandler secs) w = Inr ((), w') \<and>
    Send_Udp handler all_dhcp_agents 547 (map Byte request) \<in> set (trace w') \<and>
    dhcp_message_decode request = Some (solicit_message (exchange_transId sec nsec rng)) \<and>
    Send_Raw ndpHandler all_nodes 255 (map Byte packet) \<in> set (trace w') \<and>
    ra_decode packet = Some (0, advert_of (segment 2 6 sockaddr)
      \<lparr>PreferredLifetime = preferred, ValidLifetime = valid, PrefixLength = 64, Prefix = prefix\<rparr>)"
proof -
  let ?body = "dhcp_body (Dhcp_IAPrefix preferred valid len prefix inner)"
  have "25 \<le> length ?body" "prefix_of_body ?body =
      \<lparr>PreferredLifetime = preferred, ValidLifetime = valid, PrefixLength = 64, Prefix = prefix\<rparr>"
    by (simp_all add: dhcp_body_def dhcp_wrap_def prefix_of_body_def segment_def)
  then show ?thesis
    using body_reaches_hosts [OF assms(1-6) _ assms(7-10), of sec nsec rng handler src errno ndpHandler secs]
      solicit_decodes [of "exchange_transId sec nsec rng"] by metis
qed

text \<open>An answer with one identity association around one option.\<close>

definition sample_answer :: "dhcp_option \<Rightarrow> dhcp_message" where
  "sample_answer opt = \<lparr>msg_type = 7, msg_transaction = sample_transId,
     msg_options = [Dhcp_IA_PD 0xd0007021 0 0 [opt]]\<rparr>"

lemma sample_buffer: "receive_buffer (daemon_world r) 1 (unat (64 :: u64))"
  using daemon_world_facts(4) by simp

lemma sample_mac: "segment 2 6 ([1, 0] @ [2, 4, 6, 8, 10, 12] @ replicate 8 0 :: u8 list) = [2, 4, 6, 8, 10, 12]"
  by (simp add: segment_def)

theorem server_prefix_reaches_hosts_witness:
  "\<exists>w' request packet. thenc
      (requestDhcpPrefix_round (Some (3, 5)) (\<lambda>_. 1) 44 (Some (dhcp_message_encode (sample_answer
        (Dhcp_IAPrefix 600 900 56 0x20010DB8000000000000000000000000 [])))) 9 (Ptr 1 0) 64)
      (sendRouterAdv_round 0 (Some 7) (Some ([1, 0] @ [2, 4, 6, 8, 10, 12] @ replicate 8 0)) 0 4 200)
      (daemon_world zero_prefix) = Inr ((), w') \<and>
    dhcp_message_decode request = Some (solicit_message (exchange_transId 3 5 (\<lambda>_. 1))) \<and>
    ra_decode packet = Some (0, advert_of [2, 4, 6, 8, 10, 12] \<lparr>PreferredLifetime = 600,
      ValidLifetime = 900, PrefixLength = 64, Prefix = 0x20010DB8000000000000000000000000\<rparr>)"
proof -
  let ?m = "sample_answer (Dhcp_IAPrefix 600 900 56 0x20010DB8000000000000000000000000 [])"
  have "reply_carries ?m (Dhcp_IAPrefix 600 900 56 0x20010DB8000000000000000000000000 [])"
    "length (dhcp_message_encode ?m) \<le> unat (64 :: u64)"
    by (simp_all add: sample_answer_def reply_carries_def dhcp_message_encode_def dhcp_wrap_def
        dh_pkt_bytes_def dh_pkt_TransactionId_bytes_def)
  from server_prefix_reaches_hosts [OF daemon_world_facts(1) sample_buffer _ _ this, of zero_prefix 44
      "[1, 0] @ [2, 4, 6, 8, 10, 12] @ replicate 8 0" 0 3 5 "\<lambda>_. 1" 9 7 0 4 200]
  show ?thesis
    by (auto simp: daemon_world_facts daemon_world_facts(4) [unfolded One_nat_def] sample_answer_def
        sample_mac [unfolded append_Cons append_Nil] simp del: replicate_numeral_Cons)
qed

text \<open>C25: A server that has no prefix says so in a Status Code option in the delegation. Its text,
  when it has 23 octets or more, is taken for a prefix and advertised to the hosts: they are told
  to use the octets 7 to 22 of the text as their prefix.\<close>

theorem status_text_advertised:
  fixes w :: "'z world_scheme"
  assumes "advertiser name r w" and "receive_buffer w bb (unat mtu)"
    and "utils_request w \<noteq> Ptr bb 0" and "prefix_ptr w \<noteq> Ptr bb 0"
    and "reply_carries m (Dhcp_Status code message)" and "23 \<le> length message"
    and "length (dhcp_message_encode m) \<le> unat mtu"
    and "220 + 16 * length (msg_options m) \<le> avail w" and "0 \<le> sendto"
    and "length sockaddr = 16" and "0 \<le> connect"
  shows "\<exists>w' packet. thenc
      (requestDhcpPrefix_round (Some (sec, nsec)) rng sendto (Some (dhcp_message_encode m)) handler (Ptr bb 0) mtu)
      (sendRouterAdv_round connect (Some src) (Some sockaddr) errno ndpHandler secs) w = Inr ((), w') \<and>
    Send_Raw ndpHandler all_nodes 255 (map Byte packet) \<in> set (trace w') \<and>
    ra_decode packet = Some (0, advert_of (segment 2 6 sockaddr)
      \<lparr>PreferredLifetime = from_be (be_bytes 2 code @ take 2 message), ValidLifetime = from_be (segment 2 4 message),
       PrefixLength = 64, Prefix = from_be (segment 7 16 message)\<rparr>)"
proof -
  let ?body = "dhcp_body (Dhcp_Status code message)"
  have body: "?body = dh_opt_StatusCode_bytes \<lparr>StatusCode = htobe16 code, StatusMessage = message\<rparr>"
    by (simp add: dhcp_body_def dhcp_wrap_def wire_simps)
  have "25 \<le> length ?body" using assms(6) by (simp add: body wire_simps)
  moreover have "prefix_of_body ?body =
      \<lparr>PreferredLifetime = from_be (be_bytes 2 code @ take 2 message), ValidLifetime = from_be (segment 2 4 message),
       PrefixLength = 64, Prefix = from_be (segment 7 16 message)\<rparr>"
    by (simp add: body wire_simps prefix_of_body_def segment_def)
  ultimately show ?thesis
    using body_reaches_hosts [OF assms(1-5,7) _ assms(8-11), of sec nsec rng handler src errno ndpHandler secs]
    by metis
qed

text \<open>23 times the letter \<open>a\<close>.\<close>

theorem status_text_advertised_witness:
  "\<exists>w' packet. thenc
      (requestDhcpPrefix_round (Some (3, 5)) (\<lambda>_. 1) 44 (Some (dhcp_message_encode (sample_answer
        (Dhcp_Status 6 (replicate 23 0x61))))) 9 (Ptr 1 0) 64)
      (sendRouterAdv_round 0 (Some 7) (Some ([1, 0] @ [2, 4, 6, 8, 10, 12] @ replicate 8 0)) 0 4 200)
      (daemon_world zero_prefix) = Inr ((), w') \<and>
    ra_decode packet = Some (0, advert_of [2, 4, 6, 8, 10, 12] \<lparr>PreferredLifetime = 0x00066161,
      ValidLifetime = 0x61616161, PrefixLength = 64, Prefix = 0x61616161616161616161616161616161\<rparr>)"
proof -
  let ?m = "sample_answer (Dhcp_Status 6 (replicate 23 0x61))"
  have "reply_carries ?m (Dhcp_Status 6 (replicate 23 0x61))" "23 \<le> length (replicate 23 (0x61 :: u8))"
    "length (dhcp_message_encode ?m) \<le> unat (64 :: u64)"
    by (simp_all add: sample_answer_def reply_carries_def dhcp_message_encode_def dhcp_wrap_def
        dh_pkt_bytes_def dh_pkt_TransactionId_bytes_def del: replicate_numeral_Cons)
  note run = status_text_advertised [OF daemon_world_facts(1) sample_buffer _ _ this, of zero_prefix 44
      "[1, 0] @ [2, 4, 6, 8, 10, 12] @ replicate 8 0" 0 3 5 "\<lambda>_. 1" 9 7 0 4 200]
  have "from_be (be_bytes 2 (6 :: u16) @ take 2 (replicate 23 0x61)) = (0x00066161 :: u32)"
    "from_be (segment 2 4 (replicate 23 0x61)) = (0x61616161 :: u32)"
    "from_be (segment 7 16 (replicate 23 0x61)) = (0x61616161616161616161616161616161 :: in6_addr)"
    by code_simp+
  with run show ?thesis
    by (auto simp: daemon_world_facts daemon_world_facts(4) [unfolded One_nat_def] sample_answer_def
        sample_mac [unfolded append_Cons append_Nil] simp del: replicate_numeral_Cons)
qed

end
