(* ===== verification/Prefix_Sharing.thy ===== *)
theory Prefix_Sharing
  imports Daemon_Threads
begin

text \<open>
  The daemon as a whole: \<open>main\<close> and the three threads of \<open>Src/test.c\<close> as a transition system
  over what they share, the structure \<open>_prefix\<close>, its mutex and the cancel flags. A position
  stands before one access to the shared state, so every access is a step of its own and the
  threads interleave between any two. What a thread does between two accesses is atomic here,
  but for the exchange: sending and the blocking receipt of \<open>requestAndReceiveDhcp\<close> are two
  positions. What the program reports to the outside is the event of the step.

  The exchange closes the socket of its thread, which goes on to use it. A socket made later may
  get its descriptor (\<open>Descriptors\<close>), but all of those are raw ones for ICMPv6, which take the
  port of a destination for a protocol number and refuse 547: no request is sent any more.
\<close>

section \<open>State\<close>

datatype thread = RA | RS | DHCP

lemma all_threads: "(\<forall>t. P t) \<longleftrightarrow> P RA \<and> P RS \<and> P DHCP"
  by (metis thread.exhaust)

text \<open>The threads are enumerated, so that what the invariants say of all of them computes.\<close>

instantiation thread :: enum
begin

definition "enum_thread = [RA, RS, DHCP]"
definition "enum_all_thread P \<longleftrightarrow> P RA \<and> P RS \<and> P DHCP"
definition "enum_ex_thread P \<longleftrightarrow> P RA \<or> P RS \<or> P DHCP"

instance
proof
  show "UNIV = set (enum_class.enum :: thread list)" by (simp add: enum_thread_def set_eq_iff all_threads)
  show "distinct (enum_class.enum :: thread list)" by (simp add: enum_thread_def)
  show "enum_class.enum_all P = Ball UNIV P" for P :: "thread \<Rightarrow> bool"
    by (simp add: enum_all_thread_def all_threads)
  show "enum_class.enum_ex P = Bex UNIV P" for P :: "thread \<Rightarrow> bool"
    using all_threads [of "\<lambda>t. \<not> P t"] by (auto simp: enum_ex_thread_def)
qed

end

text \<open>
  Where a thread that advertises stands, with its locals: the destination, and the fields of
  the prefix it has copied so far.
\<close>

datatype sender_at =
    S_Unborn
  | S_Setup
  | S_Test                                       \<comment> \<open>before the condition of the loop\<close>
  | S_Receive                                    \<comment> \<open>waiting for a solicitation\<close>
  | S_Lock in6_addr
  | S_Prefix in6_addr
  | S_Length in6_addr in6_addr
  | S_Valid in6_addr in6_addr u8
  | S_Preferred in6_addr in6_addr u8 u32
  | S_Send in6_addr dh_opt_IA_Prefix
  | S_Unlock
  | S_Sleep
  | S_Exited

datatype requester_at =
    D_Unborn | D_Setup | D_Test | D_Lock | D_Send | D_Receive | D_Preferred | D_Valid | D_Length
  | D_Unlock | D_Sleep | D_Exited

datatype main_at = M_Spawn_DHCP | M_Wait | M_Spawn_RA | M_Spawn_RS | M_Loop

record daemon =
  shared :: dh_opt_IA_Prefix
  mutex :: "thread option"
  cancel :: "thread \<Rightarrow> bool"
  sender :: "thread \<Rightarrow> sender_at"
  requester :: requester_at
  request_open :: bool                           \<comment> \<open>the socket of the DHCPv6 thread\<close>
  incoming :: bool                               \<comment> \<open>its \<open>recvfrom\<close> has something to return\<close>
  main :: main_at
  ended :: bool                                  \<comment> \<open>\<open>main\<close> has returned, or the process was killed\<close>

datatype actor = Main | Thread thread | Kernel

datatype event =
    Internal
  | Solicited                                    \<comment> \<open>a Solicit is sent\<close>
  | Replied dh_opt_IA_Prefix                     \<comment> \<open>the 25 bytes an exchange stores\<close>
  | Send_Failed
  | Sent in6_addr dh_opt_IA_Prefix               \<comment> \<open>\<open>sendmsg\<close> is called: destination, values advertised\<close>
  | Signal
  | Arrived

definition daemon_start :: "bool \<Rightarrow> dh_opt_IA_Prefix \<Rightarrow> daemon" where
  "daemon_start useDhcp config = \<lparr>shared = config, mutex = None, cancel = (\<lambda>_. False),
     sender = (\<lambda>_. S_Unborn), requester = D_Unborn,
     request_open = False, incoming = False,
     main = (if useDhcp then M_Spawn_DHCP else M_Spawn_RA), ended = False\<rparr>"

section \<open>Steps\<close>

text \<open>\<open>main\<close> after the start: the busy wait for the first prefix, the creation of the threads, and
  the wait for a cancel flag. The signal handler sets all flags.\<close>

inductive main_step :: "event \<Rightarrow> daemon \<Rightarrow> daemon \<Rightarrow> bool" where
  spawn_dhcp: "main d = M_Spawn_DHCP \<Longrightarrow>
    main_step Internal d (d\<lparr>requester := D_Setup, main := M_Wait\<rparr>)"
| wait_spin: "main d = M_Wait \<Longrightarrow> PrefixLength (shared d) = 0 \<Longrightarrow> main_step Internal d d"
| wait_over: "main d = M_Wait \<Longrightarrow> PrefixLength (shared d) \<noteq> 0 \<Longrightarrow>
    main_step Internal d (d\<lparr>main := M_Spawn_RA\<rparr>)"
| spawn_ra: "main d = M_Spawn_RA \<Longrightarrow>
    main_step Internal d (d\<lparr>sender := (sender d)(RA := S_Setup), main := M_Spawn_RS\<rparr>)"
| spawn_rs: "main d = M_Spawn_RS \<Longrightarrow>
    main_step Internal d (d\<lparr>sender := (sender d)(RS := S_Setup), main := M_Loop\<rparr>)"
| main_sleep: "main d = M_Loop \<Longrightarrow> \<not> cancel d RS \<Longrightarrow> \<not> cancel d RA \<Longrightarrow> main_step Internal d d"
| main_return: "main d = M_Loop \<Longrightarrow> cancel d RS \<or> cancel d RA \<Longrightarrow>
    main_step Internal d (d\<lparr>ended := True\<rparr>)"

text \<open>
  The advertising threads. A failing setup ends the thread; the RA thread then sets its flag.
  Where the code exits or can fault, in the setup, before it waits for the mutex, when it
  receives and when it sends, the process may end.
\<close>

fun may_fault :: "sender_at \<Rightarrow> bool" where
  "may_fault S_Setup \<longleftrightarrow> True"
| "may_fault S_Test \<longleftrightarrow> True"
| "may_fault S_Receive \<longleftrightarrow> True"
| "may_fault (S_Send _ _) \<longleftrightarrow> True"
| "may_fault _ \<longleftrightarrow> False"

inductive sender_step :: "thread \<Rightarrow> event \<Rightarrow> daemon \<Rightarrow> daemon \<Rightarrow> bool" where
  setup_done: "sender d t = S_Setup \<Longrightarrow>
    sender_step t Internal d (d\<lparr>sender := (sender d)(t := S_Test)\<rparr>)"
| setup_failed: "sender d t = S_Setup \<Longrightarrow>
    sender_step t Internal d (d\<lparr>sender := (sender d)(t := S_Exited),
      cancel := (if t = RA then (cancel d)(RA := True) else cancel d)\<rparr>)"
| sender_faults: "may_fault (sender d t) \<Longrightarrow>
    sender_step t Internal d (d\<lparr>ended := True\<rparr>)"
| test_cancelled: "sender d t = S_Test \<Longrightarrow> cancel d t \<Longrightarrow>
    sender_step t Internal d (d\<lparr>sender := (sender d)(t := S_Exited)\<rparr>)"
| test_ra: "sender d RA = S_Test \<Longrightarrow> \<not> cancel d RA \<Longrightarrow>
    sender_step RA Internal d (d\<lparr>sender := (sender d)(RA := S_Lock all_nodes)\<rparr>)"
| test_rs: "sender d RS = S_Test \<Longrightarrow> \<not> cancel d RS \<Longrightarrow>
    sender_step RS Internal d (d\<lparr>sender := (sender d)(RS := S_Receive)\<rparr>)"
| received: "sender d RS = S_Receive \<Longrightarrow>
    sender_step RS Internal d (d\<lparr>sender := (sender d)(RS := S_Lock client)\<rparr>)"
| lock: "sender d t = S_Lock dst \<Longrightarrow> mutex d = None \<Longrightarrow>
    sender_step t Internal d (d\<lparr>sender := (sender d)(t := S_Prefix dst), mutex := Some t\<rparr>)"
| read_prefix: "sender d t = S_Prefix dst \<Longrightarrow>
    sender_step t Internal d (d\<lparr>sender := (sender d)(t := S_Length dst (Prefix (shared d)))\<rparr>)"
| read_length: "sender d t = S_Length dst p \<Longrightarrow>
    sender_step t Internal d (d\<lparr>sender := (sender d)(t := S_Valid dst p (PrefixLength (shared d)))\<rparr>)"
| read_valid: "sender d t = S_Valid dst p n \<Longrightarrow>
    sender_step t Internal d
      (d\<lparr>sender := (sender d)(t := S_Preferred dst p n (ValidLifetime (shared d)))\<rparr>)"
| read_preferred: "sender d t = S_Preferred dst p n v \<Longrightarrow>
    sender_step t Internal d (d\<lparr>sender := (sender d)(t := S_Send dst
      \<lparr>PreferredLifetime = PreferredLifetime (shared d), ValidLifetime = v, PrefixLength = n, Prefix = p\<rparr>)\<rparr>)"
| send: "sender d t = S_Send dst ad \<Longrightarrow>
    sender_step t (Sent dst ad) d (d\<lparr>sender := (sender d)(t := S_Unlock)\<rparr>)"
| unlock: "sender d t = S_Unlock \<Longrightarrow>
    sender_step t Internal d (d\<lparr>mutex := None,
      sender := (sender d)(t := (if t = RA then S_Sleep else S_Test))\<rparr>)"
| woken: "sender d t = S_Sleep \<Longrightarrow>
    sender_step t Internal d (d\<lparr>sender := (sender d)(t := S_Test)\<rparr>)"

text \<open>
  The DHCPv6 thread. Only a failing \<open>socket\<close> sets its flag. A Solicit can be sent while the
  socket is open, and sending may fail at any time; \<open>recvfrom\<close> returns when something has
  arrived, and the exchange then stores what the datagram carries and closes the socket, as it
  does when it cannot send. Otherwise it exits or faults, as the setup can.
\<close>

inductive requester_step :: "event \<Rightarrow> daemon \<Rightarrow> daemon \<Rightarrow> bool" where
  r_setup_done: "requester d = D_Setup \<Longrightarrow>
    requester_step Internal d (d\<lparr>requester := D_Test, request_open := True\<rparr>)"
| r_no_socket: "requester d = D_Setup \<Longrightarrow>
    requester_step Internal d (d\<lparr>requester := D_Exited, cancel := (cancel d)(DHCP := True)\<rparr>)"
| r_not_bound: "requester d = D_Setup \<Longrightarrow> requester_step Internal d (d\<lparr>requester := D_Exited\<rparr>)"
| r_setup_faults: "requester d = D_Setup \<Longrightarrow> requester_step Internal d (d\<lparr>ended := True\<rparr>)"
| r_cancelled: "requester d = D_Test \<Longrightarrow> cancel d DHCP \<Longrightarrow>
    requester_step Internal d (d\<lparr>requester := D_Exited, request_open := False\<rparr>)"
| r_test: "requester d = D_Test \<Longrightarrow> \<not> cancel d DHCP \<Longrightarrow>
    requester_step Internal d (d\<lparr>requester := D_Lock\<rparr>)"
| r_lock: "requester d = D_Lock \<Longrightarrow> mutex d = None \<Longrightarrow>
    requester_step Internal d (d\<lparr>requester := D_Send, mutex := Some DHCP\<rparr>)"
| r_sent: "requester d = D_Send \<Longrightarrow> request_open d \<Longrightarrow>
    requester_step Solicited d (d\<lparr>requester := D_Receive\<rparr>)"
| r_send_failed: "requester d = D_Send \<Longrightarrow>
    requester_step Send_Failed d (d\<lparr>requester := D_Preferred, request_open := False\<rparr>)"
| r_send_faults: "requester d = D_Send \<Longrightarrow> requester_step Internal d (d\<lparr>ended := True\<rparr>)"
| r_replied: "requester d = D_Receive \<Longrightarrow> incoming d \<Longrightarrow>
    requester_step (Replied r) d
      (d\<lparr>shared := r, requester := D_Preferred, request_open := False, incoming := False\<rparr>)"
| r_receive_faults: "requester d = D_Receive \<Longrightarrow> incoming d \<Longrightarrow>
    requester_step Internal d (d\<lparr>ended := True\<rparr>)"
| r_preferred: "requester d = D_Preferred \<Longrightarrow>
    requester_step Internal d (d\<lparr>requester := D_Valid,
      shared := (shared d)\<lparr>PreferredLifetime := be32toh (PreferredLifetime (shared d))\<rparr>\<rparr>)"
| r_valid: "requester d = D_Valid \<Longrightarrow>
    requester_step Internal d (d\<lparr>requester := D_Length,
      shared := (shared d)\<lparr>ValidLifetime := be32toh (ValidLifetime (shared d))\<rparr>\<rparr>)"
| r_length: "requester d = D_Length \<Longrightarrow>
    requester_step Internal d (d\<lparr>requester := D_Unlock, shared := (shared d)\<lparr>PrefixLength := 64\<rparr>\<rparr>)"
| r_unlock: "requester d = D_Unlock \<Longrightarrow>
    requester_step Internal d (d\<lparr>requester := D_Sleep, mutex := None\<rparr>)"
| r_woken: "requester d = D_Sleep \<Longrightarrow> requester_step Internal d (d\<lparr>requester := D_Test\<rparr>)"

text \<open>A step of the process, while it runs, and sequences of steps with their actors and events.\<close>

inductive step :: "actor \<Rightarrow> event \<Rightarrow> daemon \<Rightarrow> daemon \<Rightarrow> bool" where
  by_main: "\<not> ended d \<Longrightarrow> main_step e d d' \<Longrightarrow> step Main e d d'"
| by_sender: "\<not> ended d \<Longrightarrow> t \<noteq> DHCP \<Longrightarrow> sender_step t e d d' \<Longrightarrow> step (Thread t) e d d'"
| by_requester: "\<not> ended d \<Longrightarrow> requester_step e d d' \<Longrightarrow> step (Thread DHCP) e d d'"
| by_signal: "\<not> ended d \<Longrightarrow> step Kernel Signal d (d\<lparr>cancel := (\<lambda>_. True)\<rparr>)"
| by_arrival: "\<not> ended d \<Longrightarrow> request_open d \<Longrightarrow> step Kernel Arrived d (d\<lparr>incoming := True\<rparr>)"

inductive run :: "daemon \<Rightarrow> (actor \<times> event) list \<Rightarrow> daemon \<Rightarrow> bool" where
  run_nil: "run d [] d"
| run_step: "step a e d d' \<Longrightarrow> run d' es d'' \<Longrightarrow> run d ((a, e) # es) d''"

inductive_cases run_nilE: "run d [] d'"
inductive_cases run_ConsE: "run d ((a, e) # es) d'"

inductive_simps main_step_simps: "main_step e d d'"
inductive_simps sender_step_simps: "sender_step t e d d'"
inductive_simps requester_step_simps: "requester_step e d d'"

lemma run_append: "run d es d' \<Longrightarrow> run d' fs d'' \<Longrightarrow> run d (es @ fs) d''"
  by (induction rule: run.induct) (auto intro: run.intros)

text \<open>
  An invariant of the steps that are \<open>permitted\<close>, which only have \<open>visible\<close> events. The facts about
  runs below are interpretations.
\<close>

locale run_invariant =
  fixes inv :: "daemon \<Rightarrow> bool" and permitted :: "actor \<Rightarrow> event \<Rightarrow> bool" and visible :: "event \<Rightarrow> bool"
  assumes step_inv: "step a e d d' \<Longrightarrow> inv d \<Longrightarrow> permitted a e \<Longrightarrow> inv d' \<and> visible e"
begin

lemma run_keeps:
  "run d es d' \<Longrightarrow> inv d \<Longrightarrow> \<forall>(a, e) \<in> set es. permitted a e \<Longrightarrow> inv d' \<and> (\<forall>(a, e) \<in> set es. visible e)"
proof (induction rule: run.induct)
  case (run_step a e d d' es d'')
  then have "inv d' \<and> visible e" using step_inv by simp
  then show ?case using run_step.IH run_step.prems by simp
qed simp

lemma run_keeps_inv:
  "run d es d' \<Longrightarrow> inv d \<Longrightarrow> (\<And>a e. (a, e) \<in> set es \<Longrightarrow> permitted a e) \<Longrightarrow> inv d'"
  using run_keeps by blast

lemma run_visible:
  "run d es d' \<Longrightarrow> inv d \<Longrightarrow> (\<And>a e. (a, e) \<in> set es \<Longrightarrow> permitted a e) \<Longrightarrow> e \<in> snd ` set es \<Longrightarrow> visible e"
  using run_keeps by fastforce

end

fun silent :: "event \<Rightarrow> bool" where
  "silent (Sent _ _) \<longleftrightarrow> False"
| "silent _ \<longleftrightarrow> True"

section \<open>Mutual exclusion\<close>

text \<open>Between locking and unlocking, and the invariant: the mutex is held exactly by the thread
  that is there, and only the two advertising threads stand at a sender's position.\<close>

fun sender_critical :: "sender_at \<Rightarrow> bool" where
  "sender_critical (S_Prefix _) \<longleftrightarrow> True"
| "sender_critical (S_Length _ _) \<longleftrightarrow> True"
| "sender_critical (S_Valid _ _ _) \<longleftrightarrow> True"
| "sender_critical (S_Preferred _ _ _ _) \<longleftrightarrow> True"
| "sender_critical (S_Send _ _) \<longleftrightarrow> True"
| "sender_critical S_Unlock \<longleftrightarrow> True"
| "sender_critical _ \<longleftrightarrow> False"

fun requester_critical :: "requester_at \<Rightarrow> bool" where
  "requester_critical D_Send \<longleftrightarrow> True"
| "requester_critical D_Receive \<longleftrightarrow> True"
| "requester_critical D_Preferred \<longleftrightarrow> True"
| "requester_critical D_Valid \<longleftrightarrow> True"
| "requester_critical D_Length \<longleftrightarrow> True"
| "requester_critical D_Unlock \<longleftrightarrow> True"
| "requester_critical _ \<longleftrightarrow> False"

definition in_critical :: "thread \<Rightarrow> daemon \<Rightarrow> bool" where
  "in_critical t d \<longleftrightarrow>
     (if t = DHCP then requester_critical (requester d) else sender_critical (sender d t))"

definition mutex_inv :: "daemon \<Rightarrow> bool" where
  "mutex_inv d \<longleftrightarrow> (\<forall>t. in_critical t d \<longleftrightarrow> mutex d = Some t)"

text \<open>No thread runs before \<open>main\<close> creates it.\<close>

definition spawn_inv :: "daemon \<Rightarrow> bool" where
  "spawn_inv d \<longleftrightarrow> (main d = M_Spawn_DHCP \<longrightarrow> requester d = D_Unborn) \<and>
     (main d \<in> {M_Spawn_DHCP, M_Wait, M_Spawn_RA} \<longrightarrow> sender d RA = S_Unborn) \<and>
     (main d \<noteq> M_Loop \<longrightarrow> sender d RS = S_Unborn)"

lemma spawn_inv_keep:
  assumes "spawn_inv d" and "main d' = main d" and "requester d = D_Unborn \<Longrightarrow> requester d' = D_Unborn"
    and "\<And>s. sender d s = S_Unborn \<Longrightarrow> sender d' s = S_Unborn"
  shows "spawn_inv d'"
  using assms by (auto simp: spawn_inv_def)

lemma sender_step_unborn:
  "sender_step t e d d' \<Longrightarrow> sender d s = S_Unborn \<Longrightarrow> sender d' s = S_Unborn"
  by (cases rule: sender_step.cases) (simp_all, auto)

lemma sender_step_others:
  assumes "sender_step t e d d'"
  shows "main d' = main d" "requester d' = requester d" "shared d' = shared d" "cancel d' DHCP = cancel d DHCP"
    and "s \<noteq> t \<Longrightarrow> sender d' s = sender d s"
  using assms by (cases rule: sender_step.cases; simp)+

lemma requester_step_others:
  assumes "requester_step e d d'"
  shows "main d' = main d" "sender d' = sender d" "requester d \<noteq> D_Unborn"
  using assms by (cases rule: requester_step.cases; simp)+

lemma spawn_inv_step:
  assumes "step a e d d'" and "spawn_inv d"
  shows "spawn_inv d'"
  using assms(1)
proof cases
  case by_main
  from by_main(3) assms(2) show ?thesis
    by (cases rule: main_step.cases) (simp_all add: spawn_inv_def)
next
  case (by_sender t)
  then show ?thesis
    using spawn_inv_keep [OF assms(2)] sender_step_others [OF by_sender(4)] sender_step_unborn [OF by_sender(4)]
    by simp
next
  case by_requester
  then show ?thesis
    using spawn_inv_keep [OF assms(2)] requester_step_others [OF by_requester(3)] by simp
next
  case by_signal
  then show ?thesis using spawn_inv_keep [OF assms(2)] by simp
next
  case by_arrival
  then show ?thesis using spawn_inv_keep [OF assms(2)] by simp
qed

lemma inv_start: "mutex_inv (daemon_start useDhcp config)" "spawn_inv (daemon_start useDhcp config)"
  by (simp_all add: mutex_inv_def in_critical_def spawn_inv_def daemon_start_def)

lemma mutex_inv_sender:
  assumes "mutex_inv d" and "t \<noteq> DHCP" and "requester d' = requester d"
    and "\<And>s. s \<noteq> t \<Longrightarrow> sender d' s = sender d s"
    and "sender_critical (sender d' t) \<Longrightarrow> mutex d' = Some t"
    and "sender_critical (sender d' t) \<Longrightarrow> sender_critical (sender d t) \<or> mutex d = None"
    and "\<not> sender_critical (sender d' t) \<Longrightarrow>
      mutex d' = (if sender_critical (sender d t) then None else mutex d)"
  shows "mutex_inv d'"
  unfolding mutex_inv_def
proof
  fix s
  have inv: "in_critical u d \<longleftrightarrow> mutex d = Some u" for u using assms(1) by (simp add: mutex_inv_def)
  have t: "in_critical t d = sender_critical (sender d t)" "in_critical t d' = sender_critical (sender d' t)"
    using assms(2) by (simp_all add: in_critical_def)
  show "in_critical s d' \<longleftrightarrow> mutex d' = Some s"
  proof (cases "s = t")
    case True
    then show ?thesis using t inv [of t] assms(5,7) by (auto split: if_splits)
  next
    case False
    then have "in_critical s d' = in_critical s d" using assms(3,4) by (simp add: in_critical_def)
    then show ?thesis using False t inv [of t] inv [of s] assms(5-7) by (auto split: if_splits)
  qed
qed

lemma mutex_inv_requester:
  assumes "mutex_inv d" and "sender d' = sender d"
    and "requester_critical (requester d') \<Longrightarrow> mutex d' = Some DHCP"
    and "requester_critical (requester d') \<Longrightarrow> requester_critical (requester d) \<or> mutex d = None"
    and "\<not> requester_critical (requester d') \<Longrightarrow>
      mutex d' = (if requester_critical (requester d) then None else mutex d)"
  shows "mutex_inv d'"
  unfolding mutex_inv_def
proof
  fix s
  have inv: "in_critical u d \<longleftrightarrow> mutex d = Some u" for u using assms(1) by (simp add: mutex_inv_def)
  have t: "in_critical DHCP d = requester_critical (requester d)"
    "in_critical DHCP d' = requester_critical (requester d')"
    by (simp_all add: in_critical_def)
  show "in_critical s d' \<longleftrightarrow> mutex d' = Some s"
  proof (cases "s = DHCP")
    case True
    then show ?thesis using t inv [of DHCP] assms(3,5) by (auto split: if_splits)
  next
    case False
    then have "in_critical s d' = in_critical s d" using assms(2) by (simp add: in_critical_def)
    then show ?thesis using False t inv [of DHCP] inv [of s] assms(3-5) by (auto split: if_splits)
  qed
qed

lemma mutex_holder:
  assumes "mutex_inv d"
  shows "t \<noteq> DHCP \<Longrightarrow> sender_critical (sender d t) \<longleftrightarrow> mutex d = Some t"
    and "requester_critical (requester d) \<longleftrightarrow> mutex d = Some DHCP"
  using assms [unfolded mutex_inv_def in_critical_def] by (auto split: if_splits)

lemma mutex_inv_same:
  "mutex_inv d \<Longrightarrow> mutex d' = mutex d \<Longrightarrow> (\<And>t. in_critical t d' = in_critical t d) \<Longrightarrow> mutex_inv d'"
  by (simp add: mutex_inv_def)

lemma mutex_inv_main:
  assumes "mutex_inv d" and "spawn_inv d" and "main_step e d d'"
  shows "mutex_inv d'"
  using assms(3,2)
  by (cases rule: main_step.cases)
    (auto intro!: mutex_inv_same [OF assms(1)] simp: in_critical_def spawn_inv_def split: if_splits)

lemma mutex_inv_step:
  assumes "step a e d d'" and "mutex_inv d" and "spawn_inv d"
  shows "mutex_inv d'"
  using assms(1)
proof cases
  case by_main
  then show ?thesis using mutex_inv_main assms(2,3) by blast
next
  case (by_sender t)
  note holder = mutex_holder(1) [OF assms(2) by_sender(3)]
  from by_sender(4) show ?thesis
    by (cases rule: sender_step.cases)
      (rule mutex_inv_sender [OF assms(2) by_sender(3)]; use holder in \<open>auto split: if_splits\<close>)+
next
  case by_requester
  note holder = mutex_holder(2) [OF assms(2)]
  from by_requester(3) show ?thesis
    by (cases rule: requester_step.cases)
      (rule mutex_inv_requester [OF assms(2)]; use holder in \<open>auto split: if_splits\<close>)+
next
  case by_signal
  then show ?thesis by (intro mutex_inv_same [OF assms(2)]) (simp_all add: in_critical_def)
next
  case by_arrival
  then show ?thesis by (intro mutex_inv_same [OF assms(2)]) (simp_all add: in_critical_def)
qed

interpretation safe: run_invariant "\<lambda>d. mutex_inv d \<and> spawn_inv d" "\<lambda>_ _. True" "\<lambda>_. True"
  by unfold_locales (blast intro: mutex_inv_step spawn_inv_step)

lemma run_inv: "run d es d' \<Longrightarrow> mutex_inv d \<Longrightarrow> spawn_inv d \<Longrightarrow> mutex_inv d' \<and> spawn_inv d'"
  using safe.run_keeps_inv by blast

section \<open>The daemon with atomic rounds\<close>

text \<open>
  The specification: the prefix changes only as a whole, by an exchange and the conversion
  after it, and what is advertised is always the whole current prefix. A history of events is
  one of this daemon when it is accepted.
\<close>

fun effect :: "event \<Rightarrow> dh_opt_IA_Prefix \<Rightarrow> dh_opt_IA_Prefix" where
  "effect (Replied r) p = prefix_settle r"
| "effect Send_Failed p = prefix_settle p"
| "effect _ p = p"

fun allowed :: "event \<Rightarrow> dh_opt_IA_Prefix \<Rightarrow> bool" where
  "allowed (Sent dst q) p \<longleftrightarrow> q = p"
| "allowed _ p \<longleftrightarrow> True"

fun atomic :: "dh_opt_IA_Prefix \<Rightarrow> event list \<Rightarrow> bool" where
  "atomic p [] \<longleftrightarrow> True"
| "atomic p (e # es) \<longleftrightarrow> allowed e p \<and> atomic (effect e p) es"

text \<open>
  The abstraction: while the DHCPv6 thread is inside its critical section, the prefix that
  counts is the one it will leave. What an advertising thread has copied are fields of it.
\<close>

fun pending :: "requester_at \<Rightarrow> dh_opt_IA_Prefix \<Rightarrow> dh_opt_IA_Prefix" where
  "pending D_Preferred r = prefix_settle r"
| "pending D_Valid r = r\<lparr>ValidLifetime := be32toh (ValidLifetime r), PrefixLength := 64\<rparr>"
| "pending D_Length r = r\<lparr>PrefixLength := 64\<rparr>"
| "pending _ r = r"

fun copied :: "sender_at \<Rightarrow> dh_opt_IA_Prefix \<Rightarrow> bool" where
  "copied (S_Length dst p) r \<longleftrightarrow> p = Prefix r"
| "copied (S_Valid dst p n) r \<longleftrightarrow> p = Prefix r \<and> n = PrefixLength r"
| "copied (S_Preferred dst p n v) r \<longleftrightarrow> p = Prefix r \<and> n = PrefixLength r \<and> v = ValidLifetime r"
| "copied (S_Send dst q) r \<longleftrightarrow> q = r"
| "copied _ r \<longleftrightarrow> True"

definition simulates :: "daemon \<Rightarrow> dh_opt_IA_Prefix \<Rightarrow> bool" where
  "simulates d p \<longleftrightarrow> p = pending (requester d) (shared d) \<and> (\<forall>t. t \<noteq> DHCP \<longrightarrow> copied (sender d t) (shared d))"

lemma copied_outside: "\<not> sender_critical s \<Longrightarrow> copied s r"
  by (cases s) simp_all

lemma pending_outside: "\<not> requester_critical r \<Longrightarrow> pending r p = p"
  by (cases r) simp_all

lemma simulates_start: "simulates (daemon_start useDhcp config) config"
  by (simp add: simulates_def daemon_start_def)

lemma simulates_sender:
  assumes "sender_step t e d d'" and "t \<noteq> DHCP" and "mutex_inv d" and "simulates d p"
  shows "allowed e p \<and> simulates d' (effect e p)"
proof -
  note others = sender_step_others [OF assms(1)]
  have copied: "copied (sender d t) (shared d)" and p: "p = pending (requester d) (shared d)"
    using assms(2,4) by (auto simp: simulates_def)
  have out: "sender_critical (sender d t) \<Longrightarrow> \<not> requester_critical (requester d)"
    using mutex_holder [OF assms(3)] assms(2) by auto
  have "allowed e p \<and> effect e p = p \<and> copied (sender d' t) (shared d')"
    using assms(1) copied out p by (cases rule: sender_step.cases) (auto simp: pending_outside)
  moreover have "copied (sender d' s) (shared d')" if "s \<noteq> t" "s \<noteq> DHCP" for s
    using that assms(4) others by (simp add: simulates_def)
  ultimately show ?thesis using p others(2,3) by (simp add: simulates_def) metis
qed

lemma simulates_requester:
  assumes "requester_step e d d'" and "mutex_inv d" and "simulates d p"
  shows "allowed e p \<and> simulates d' (effect e p)"
proof -
  have p: "p = pending (requester d) (shared d)" using assms(3) by (simp add: simulates_def)
  have "allowed e p \<and> effect e p = pending (requester d') (shared d')"
    using assms(1) p by (cases rule: requester_step.cases) (simp_all add: prefix_settle_def)
  moreover have "copied (sender d' t) (shared d')" if "t \<noteq> DHCP" for t
  proof (cases "requester_critical (requester d)")
    case True
    then have "\<not> sender_critical (sender d t)"
      using mutex_holder [OF assms(2)] that by auto
    then show ?thesis using requester_step_others [OF assms(1)] by (simp add: copied_outside)
  next
    case False
    with assms(1) have "shared d' = shared d" by (cases rule: requester_step.cases) simp_all
    then show ?thesis using that assms(3) requester_step_others [OF assms(1)] by (simp add: simulates_def)
  qed
  ultimately show ?thesis by (simp add: simulates_def)
qed

lemma simulates_step:
  assumes "step a e d d'" and "mutex_inv d" and "spawn_inv d" and "simulates d p"
  shows "allowed e p \<and> simulates d' (effect e p)"
  using assms(1)
proof cases
  case by_main
  from by_main(3) assms(3,4) show ?thesis
    by (cases rule: main_step.cases) (auto simp: simulates_def spawn_inv_def)
next
  case (by_sender t)
  then show ?thesis using simulates_sender assms(2,4) by blast
next
  case by_requester
  then show ?thesis using simulates_requester assms(2,4) by blast
next
  case by_signal
  then show ?thesis using assms(4) by (simp add: simulates_def)
next
  case by_arrival
  then show ?thesis using assms(4) by (simp add: simulates_def)
qed

lemma run_atomic:
  "run d es d' \<Longrightarrow> mutex_inv d \<Longrightarrow> spawn_inv d \<Longrightarrow> simulates d p \<Longrightarrow> atomic p (map snd es)"
proof (induction arbitrary: p rule: run.induct)
  case (run_step a e d d' es d'')
  note sim = simulates_step [OF run_step.hyps(1) run_step.prems]
  have "atomic (effect e p) (map snd es)"
    by (rule run_step.IH [OF mutex_inv_step [OF run_step.hyps(1) run_step.prems(1,2)]
          spawn_inv_step [OF run_step.hyps(1) run_step.prems(2)]]) (use sim in simp)
  then show ?case using sim by simp
qed simp

section \<open>Waiting\<close>

text \<open>
  While a request is outstanding the DHCPv6 thread holds the mutex. As long as it does not
  move, neither does anything get advertised nor the mutex free.
\<close>

definition exchanging :: "daemon \<Rightarrow> bool" where
  "exchanging d \<longleftrightarrow> requester d = D_Send \<or> requester d = D_Receive"

lemma step_exchange:
  assumes "step a e d d'" and "exchanging d" and "mutex_inv d" and "a \<noteq> Thread DHCP" and "spawn_inv d"
  shows "requester d' = requester d \<and> silent e"
  using assms(1)
proof cases
  case by_main
  from by_main(3) assms(2,5) show ?thesis
    by (cases rule: main_step.cases) (auto simp: spawn_inv_def exchanging_def)
next
  case (by_sender t)
  have "mutex d = Some DHCP" using mutex_holder(2) [OF assms(3)] assms(2) by (auto simp: exchanging_def)
  then have "\<not> sender_critical (sender d t)"
    using mutex_holder(1) [OF assms(3) by_sender(3)] by_sender(3) by simp
  then show ?thesis using by_sender(4) sender_step_others(2) [OF by_sender(4)]
    by (auto simp: sender_step_simps)
next
  case by_requester
  then show ?thesis using assms(4) by simp
qed simp_all

interpretation exchange: run_invariant
  "\<lambda>d. exchanging d \<and> requester d = r \<and> mutex_inv d \<and> spawn_inv d" "\<lambda>a _. a \<noteq> Thread DHCP" silent
  for r
  by unfold_locales (metis exchanging_def step_exchange mutex_inv_step spawn_inv_step)

text \<open>
  \<open>main\<close> waits for the first prefix without looking at the cancel flags. Once the DHCPv6 thread
  is gone without one, it waits forever.
\<close>

definition stuck :: "daemon \<Rightarrow> bool" where
  "stuck d \<longleftrightarrow> main d = M_Wait \<and> PrefixLength (shared d) = 0 \<and> requester d = D_Exited \<and>
     sender d RA = S_Unborn \<and> sender d RS = S_Unborn \<and> \<not> ended d"

lemma stuck_step:
  assumes "step a e d d'" and "stuck d"
  shows "stuck d' \<and> silent e"
  using assms(1)
proof cases
  case by_main
  from by_main(3) assms(2) show ?thesis by (cases rule: main_step.cases) (auto simp: stuck_def)
next
  case (by_sender t)
  have "sender d t = S_Unborn" using assms(2) by_sender(3) by (cases t) (simp_all add: stuck_def)
  with by_sender(4) show ?thesis by (cases rule: sender_step.cases) simp_all
next
  case by_requester
  from by_requester(3) assms(2) show ?thesis by (cases rule: requester_step.cases) (simp_all add: stuck_def)
next
  case by_signal
  then show ?thesis using assms(2) by (simp add: stuck_def)
next
  case by_arrival
  then show ?thesis using assms(2) by (simp add: stuck_def)
qed

interpretation stuck: run_invariant stuck "\<lambda>_ _. True" silent
  by unfold_locales (rule stuck_step)

text \<open>Until the first exchange ends, the prefix is the initial one and \<open>main\<close> has not gone on.\<close>

definition before_first :: "daemon \<Rightarrow> bool" where
  "before_first d \<longleftrightarrow> PrefixLength (shared d) = 0 \<and> main d \<in> {M_Spawn_DHCP, M_Wait} \<and>
     sender d RA = S_Unborn \<and> sender d RS = S_Unborn \<and>
     requester d \<in> {D_Unborn, D_Setup, D_Test, D_Lock, D_Send, D_Receive, D_Exited} \<and>
     (main d = M_Spawn_DHCP \<longrightarrow> requester d = D_Unborn) \<and>
     (ended d \<longrightarrow> requester d \<in> {D_Setup, D_Send, D_Receive})"

lemma before_first_step:
  assumes "step a e d d'" and "before_first d" and "e \<noteq> Send_Failed" and "\<nexists>r. e = Replied r"
  shows "before_first d'"
  using assms(1)
proof cases
  case by_main
  from by_main(3) assms(2) show ?thesis by (cases rule: main_step.cases) (auto simp: before_first_def)
next
  case (by_sender t)
  have "sender d t = S_Unborn" using assms(2) by_sender(3) by (cases t) (simp_all add: before_first_def)
  with by_sender(4) show ?thesis by (cases rule: sender_step.cases) simp_all
next
  case by_requester
  from by_requester(3,2) assms(2-4) show ?thesis
    by (cases rule: requester_step.cases) (auto simp: before_first_def)
next
  case by_signal
  then show ?thesis using assms(2) by (simp add: before_first_def)
next
  case by_arrival
  then show ?thesis using assms(2) by (simp add: before_first_def)
qed

interpretation before_first: run_invariant before_first
  "\<lambda>_ e. e \<noteq> Send_Failed \<and> (\<nexists>r. e = Replied r)" "\<lambda>_. True"
  by unfold_locales (blast intro: before_first_step)

text \<open>
  The holder of the mutex releases it on its own, but for the DHCPv6 thread in its exchange: the
  number of steps it needs, each of which is enabled as long as the process runs.
\<close>

fun sender_rank :: "sender_at \<Rightarrow> nat" where
  "sender_rank (S_Prefix _) = 6"
| "sender_rank (S_Length _ _) = 5"
| "sender_rank (S_Valid _ _ _) = 4"
| "sender_rank (S_Preferred _ _ _ _) = 3"
| "sender_rank (S_Send _ _) = 2"
| "sender_rank S_Unlock = 1"
| "sender_rank _ = 0"

fun requester_rank :: "requester_at \<Rightarrow> nat" where
  "requester_rank D_Preferred = 4"
| "requester_rank D_Valid = 3"
| "requester_rank D_Length = 2"
| "requester_rank D_Unlock = 1"
| "requester_rank _ = 0"

lemma sender_progress:
  assumes "\<not> ended d" and "t \<noteq> DHCP" and "sender_rank (sender d t) = Suc n"
  shows "\<exists>e d'. step (Thread t) e d d' \<and> \<not> ended d' \<and> sender_rank (sender d' t) = n \<and>
    (n = 0 \<longrightarrow> mutex d' = None)"
proof -
  have "\<exists>e d'. sender_step t e d d' \<and> \<not> ended d' \<and> sender_rank (sender d' t) = n \<and> (n = 0 \<longrightarrow> mutex d' = None)"
  proof (cases "sender d t")
    case (S_Prefix dst)
    from sender_step.read_prefix [OF this] show ?thesis using assms(1,3) S_Prefix by fastforce
  next
    case (S_Length dst p)
    from sender_step.read_length [OF this] show ?thesis using assms(1,3) S_Length by fastforce
  next
    case (S_Valid dst p k)
    from sender_step.read_valid [OF this] show ?thesis using assms(1,3) S_Valid by fastforce
  next
    case (S_Preferred dst p k v)
    from sender_step.read_preferred [OF this] show ?thesis using assms(1,3) S_Preferred by fastforce
  next
    case (S_Send dst q)
    from sender_step.send [OF this] show ?thesis using assms(1,3) S_Send by fastforce
  next
    case S_Unlock
    from sender_step.unlock [OF this] show ?thesis using assms(1,3) S_Unlock by fastforce
  qed (use assms(3) in simp_all)
  then show ?thesis by (elim exE conjE) (intro exI conjI, rule by_sender [OF assms(1,2)])
qed

lemma requester_progress:
  assumes "\<not> ended d" and "requester_rank (requester d) = Suc n"
  shows "\<exists>e d'. step (Thread DHCP) e d d' \<and> \<not> ended d' \<and> requester_rank (requester d') = n \<and>
    (n = 0 \<longrightarrow> mutex d' = None)"
proof -
  have "\<exists>e d'. requester_step e d d' \<and> \<not> ended d' \<and> requester_rank (requester d') = n \<and> (n = 0 \<longrightarrow> mutex d' = None)"
  proof (cases "requester d")
    case D_Preferred
    from requester_step.r_preferred [OF this] show ?thesis using assms D_Preferred by fastforce
  next
    case D_Valid
    from requester_step.r_valid [OF this] show ?thesis using assms D_Valid by fastforce
  next
    case D_Length
    from requester_step.r_length [OF this] show ?thesis using assms D_Length by fastforce
  next
    case D_Unlock
    from requester_step.r_unlock [OF this] show ?thesis using assms D_Unlock by fastforce
  qed (use assms(2) in simp_all)
  then show ?thesis by (elim exE conjE) (intro exI conjI, rule by_requester [OF assms(1)])
qed

lemma run_one: "step a e d d' \<Longrightarrow> run d' es d'' \<Longrightarrow> fst ` set es \<subseteq> {a} \<Longrightarrow> length es \<le> n \<Longrightarrow>
    run d ((a, e) # es) d'' \<and> fst ` set ((a, e) # es) \<subseteq> {a} \<and> length ((a, e) # es) \<le> Suc n"
  by (auto intro: run.run_step)

lemma sender_releases:
  assumes "\<not> ended d" and "t \<noteq> DHCP" and "sender_rank (sender d t) = Suc n"
  shows "\<exists>es d'. run d es d' \<and> fst ` set es \<subseteq> {Thread t} \<and> length es \<le> Suc n \<and> mutex d' = None \<and> \<not> ended d'"
  using assms
proof (induction n arbitrary: d)
  case 0
  obtain e d' where d': "step (Thread t) e d d'" "\<not> ended d'" "mutex d' = None"
    using sender_progress [OF 0] by blast
  show ?case by (rule exI [of _ "[(Thread t, e)]"], rule exI [of _ d'])
    (simp add: d' run_step [OF d'(1) run_nil])
next
  case (Suc n)
  obtain e d1 where d1: "step (Thread t) e d d1" "\<not> ended d1" "sender_rank (sender d1 t) = Suc n"
    using sender_progress [OF Suc.prems] by blast
  obtain es d' where "run d1 es d'" "fst ` set es \<subseteq> {Thread t}" "length es \<le> Suc n" "mutex d' = None" "\<not> ended d'"
    using Suc.IH [OF d1(2) Suc.prems(2) d1(3)] by blast
  then show ?case using run_one [OF d1(1)] by blast
qed

lemma requester_releases:
  assumes "\<not> ended d" and "requester_rank (requester d) = Suc n"
  shows "\<exists>es d'. run d es d' \<and> fst ` set es \<subseteq> {Thread DHCP} \<and> length es \<le> Suc n \<and> mutex d' = None \<and> \<not> ended d'"
  using assms
proof (induction n arbitrary: d)
  case 0
  obtain e d' where d': "step (Thread DHCP) e d d'" "\<not> ended d'" "mutex d' = None"
    using requester_progress [OF 0] by blast
  show ?case by (rule exI [of _ "[(Thread DHCP, e)]"], rule exI [of _ d'])
    (simp add: d' run_step [OF d'(1) run_nil])
next
  case (Suc n)
  obtain e d1 where d1: "step (Thread DHCP) e d d1" "\<not> ended d1" "requester_rank (requester d1) = Suc n"
    using requester_progress [OF Suc.prems] by blast
  obtain es d' where "run d1 es d'" "fst ` set es \<subseteq> {Thread DHCP}" "length es \<le> Suc n" "mutex d' = None" "\<not> ended d'"
    using Suc.IH [OF d1(2,3)] by blast
  then show ?case using run_one [OF d1(1)] by blast
qed

text \<open>Sending through a closed socket fails, which is one step more.\<close>

lemma closed_sender_releases:
  assumes "\<not> ended d" and "requester d = D_Send"
  shows "\<exists>es d'. run d es d' \<and> fst ` set es \<subseteq> {Thread DHCP} \<and> length es \<le> 5 \<and> mutex d' = None \<and> \<not> ended d'"
proof -
  let ?d1 = "d\<lparr>requester := D_Preferred, request_open := False\<rparr>"
  have one: "step (Thread DHCP) Send_Failed d ?d1"
    by (rule by_requester [OF assms(1) requester_step.r_send_failed [OF assms(2)]])
  obtain es d' where "run ?d1 es d'" "fst ` set es \<subseteq> {Thread DHCP}" "length es \<le> 4" "mutex d' = None" "\<not> ended d'"
    using requester_releases [of ?d1 3] assms(1) by auto
  then show ?thesis using run_one [OF one, of es d' 4] by (intro exI [of _ "(Thread DHCP, Send_Failed) # es"]) auto
qed

text \<open>What the DHCPv6 thread waits for the outside with: a request it can still send, or an answer.\<close>

definition needs_server :: "daemon \<Rightarrow> bool" where
  "needs_server d \<longleftrightarrow> requester d = D_Receive \<or> requester d = D_Send \<and> request_open d"

lemma holder_releases:
  assumes "mutex_inv d" and "\<not> ended d" and "mutex d = Some t" and "\<not> needs_server d"
  shows "\<exists>es d'. run d es d' \<and> fst ` set es \<subseteq> {Thread t} \<and> length es \<le> 6 \<and> mutex d' = None \<and> \<not> ended d'"
proof (cases "t = DHCP")
  case True
  then have critical: "requester_critical (requester d)" using mutex_holder(2) [OF assms(1)] assms(3) by simp
  show ?thesis
  proof (cases "requester d = D_Send")
    case sending: True
    from closed_sender_releases [OF assms(2) this] True show ?thesis by fastforce
  next
    case False
    then obtain n where "requester_rank (requester d) = Suc n" "n \<le> 3"
      using critical assms(4) by (cases "requester d") (simp_all add: needs_server_def)
    then show ?thesis using requester_releases [OF assms(2)] True by fastforce
  qed
next
  case False
  then have "sender_critical (sender d t)" using mutex_holder(1) [OF assms(1)] assms(3) by simp
  then obtain n where "sender_rank (sender d t) = Suc n" "n \<le> 5"
    by (cases "sender d t") simp_all
  then show ?thesis using sender_releases [OF assms(2) False] by fastforce
qed

text \<open>Waiting for an answer, the thread cannot move; with one the exchange ends and the mutex is
  released. The socket it waits on is open.\<close>

lemma receive_blocked:
  assumes "requester d = D_Receive" and "\<not> incoming d"
  shows "\<not> step (Thread DHCP) e d d'"
  using assms by (auto elim!: step.cases simp: requester_step_simps)

lemma receive_open_step:
  assumes "step a e d d'" and "requester d = D_Receive \<longrightarrow> request_open d" and "spawn_inv d"
  shows "requester d' = D_Receive \<longrightarrow> request_open d'"
  using assms(1)
proof cases
  case by_main
  from by_main(3) assms(2) show ?thesis by (cases rule: main_step.cases) auto
next
  case (by_sender t)
  from by_sender(4) assms(2) show ?thesis by (cases rule: sender_step.cases) auto
next
  case by_requester
  from by_requester(3) assms(2) show ?thesis by (cases rule: requester_step.cases) auto
qed (use assms(2) in auto)

interpretation receive_open: run_invariant
  "\<lambda>d. (requester d = D_Receive \<longrightarrow> request_open d) \<and> spawn_inv d" "\<lambda>_ _. True" "\<lambda>_. True"
  by unfold_locales (meson receive_open_step spawn_inv_step)

lemma answered_releases:
  assumes "\<not> ended d" and "requester d = D_Receive" and "request_open d"
  shows "\<exists>es d'. run d ((Kernel, Arrived) # es) d' \<and> fst ` set es \<subseteq> {Thread DHCP} \<and> length es \<le> 5 \<and>
    mutex d' = None \<and> \<not> ended d'"
proof -
  let ?d1 = "d\<lparr>incoming := True\<rparr>"
  let ?d2 = "?d1\<lparr>shared := shared d, requester := D_Preferred, request_open := False, incoming := False\<rparr>"
  have s1: "step Kernel Arrived d ?d1" by (rule by_arrival [OF assms(1,3)])
  have s2: "step (Thread DHCP) (Replied (shared d)) ?d1 ?d2"
    by (rule by_requester) (use assms(1,2) in \<open>simp_all add: requester_step_simps\<close>)
  obtain es d' where es: "run ?d2 es d'" "fst ` set es \<subseteq> {Thread DHCP}" "length es \<le> 4" "mutex d' = None" "\<not> ended d'"
    using requester_releases [of ?d2 3] assms(1) by auto
  show ?thesis using run_one [OF s2 es(1-3)] run_step [OF s1] es(4,5) by (metis numeral_nat(2) eval_nat_numeral(3))
qed

lemma server_releases:
  assumes "\<not> ended d" and "needs_server d" and "requester d = D_Receive \<longrightarrow> request_open d"
  shows "\<exists>es d'. run d ((if requester d = D_Send then [(Thread DHCP, Solicited)] else []) @ (Kernel, Arrived) # es) d' \<and>
    fst ` set es \<subseteq> {Thread DHCP} \<and> length es \<le> 5 \<and> mutex d' = None \<and> \<not> ended d'"
proof (cases "requester d = D_Send")
  case True
  let ?d1 = "d\<lparr>requester := D_Receive\<rparr>"
  have "request_open d" using assms(2) True by (simp add: needs_server_def)
  then have one: "step (Thread DHCP) Solicited d ?d1"
    by (intro by_requester [OF assms(1)] requester_step.r_sent [OF True])
  show ?thesis using answered_releases [of ?d1] run_step [OF one] assms(1) True \<open>request_open d\<close> by auto
next
  case False
  then show ?thesis using answered_releases [OF assms(1)] assms(2,3) by (auto simp: needs_server_def)
qed

text \<open>
  After a signal the flags stay set, and \<open>main\<close>, past the busy wait, needs at most three steps of
  its own to return.
\<close>

definition all_cancelled :: "daemon \<Rightarrow> bool" where
  "all_cancelled d \<longleftrightarrow> (\<forall>t. cancel d t)"

fun main_rank :: "main_at \<Rightarrow> nat" where
  "main_rank M_Spawn_RA = 3"
| "main_rank M_Spawn_RS = 2"
| "main_rank M_Loop = 1"
| "main_rank _ = 0"

lemma sender_step_cancel: "sender_step t e d d' \<Longrightarrow> cancel d s \<Longrightarrow> cancel d' s"
  by (auto simp: sender_step_simps)

lemma requester_step_cancel: "requester_step e d d' \<Longrightarrow> cancel d s \<Longrightarrow> cancel d' s"
  by (auto simp: requester_step_simps)

lemma step_cancelled:
  assumes "step a e d d'" and "e = Signal \<or> all_cancelled d"
  shows "all_cancelled d'"
  using assms(1)
proof cases
  case by_main
  from by_main(3) assms(2) show ?thesis by (auto simp: main_step_simps all_cancelled_def)
next
  case (by_sender t)
  have "e \<noteq> Signal" using by_sender(4) by (auto simp: sender_step_simps)
  then show ?thesis using assms(2) sender_step_cancel [OF by_sender(4)] by (simp add: all_cancelled_def)
next
  case by_requester
  have "e \<noteq> Signal" using by_requester(3) by (auto simp: requester_step_simps)
  then show ?thesis using assms(2) requester_step_cancel [OF by_requester(3)] by (simp add: all_cancelled_def)
next
  case by_signal
  then show ?thesis by (simp add: all_cancelled_def)
next
  case by_arrival
  then show ?thesis using assms(2) by (simp add: all_cancelled_def)
qed

interpretation cancelled: run_invariant all_cancelled "\<lambda>_ _. True" "\<lambda>_. True"
  by unfold_locales (blast intro: step_cancelled)

lemma run_cancelled: "run d es d' \<Longrightarrow> Signal \<in> snd ` set es \<Longrightarrow> all_cancelled d'"
proof (induction rule: run.induct)
  case (run_step a e d d' es d'')
  then show ?case
    using step_cancelled [OF run_step.hyps(1)] cancelled.run_keeps_inv [OF run_step.hyps(2)] by auto
qed simp

lemma main_progress:
  assumes "\<not> ended d" and "all_cancelled d" and "0 < main_rank (main d)"
  shows "\<exists>d'. step Main Internal d d'"
proof (cases "main d")
  case M_Spawn_RA
  show ?thesis by (rule exI) (rule by_main [OF assms(1) main_step.spawn_ra [OF M_Spawn_RA]])
next
  case M_Spawn_RS
  show ?thesis by (rule exI) (rule by_main [OF assms(1) main_step.spawn_rs [OF M_Spawn_RS]])
next
  case M_Loop
  have "cancel d RS \<or> cancel d RA" using assms(2) by (simp add: all_cancelled_def)
  then show ?thesis by (intro exI) (rule by_main [OF assms(1) main_step.main_return [OF M_Loop]])
qed (use assms(3) in simp_all)

definition main_moves :: "(actor \<times> event) list \<Rightarrow> nat" where
  "main_moves es = length (filter (\<lambda>(a, _). a = Main) es)"

lemma step_shutdown:
  assumes "step a e d d'" and "all_cancelled d" and "0 < main_rank (main d)"
  shows "ended d' \<or> (if a = Main then main_rank (main d') = main_rank (main d) - 1 \<and> 0 < main_rank (main d')
    else main_rank (main d') = main_rank (main d))"
  using assms(1)
proof cases
  case by_main
  from by_main(3) assms(2,3) show ?thesis using by_main(1)
    by (cases rule: main_step.cases) (auto simp: all_cancelled_def)
next
  case (by_sender t)
  then show ?thesis using sender_step_others(1) [OF by_sender(4)] by simp
next
  case by_requester
  then show ?thesis using requester_step_others(1) [OF by_requester(3)] by simp
next
  case by_signal
  then show ?thesis by simp
next
  case by_arrival
  then show ?thesis by simp
qed

lemma ended_run: "run d es d' \<Longrightarrow> ended d \<Longrightarrow> es = [] \<and> d' = d"
  by (cases rule: run.cases) (auto elim: step.cases)

lemma shutdown_run:
  "run d es d' \<Longrightarrow> all_cancelled d \<Longrightarrow> 0 < main_rank (main d) \<Longrightarrow> main_rank (main d) \<le> main_moves es \<Longrightarrow> ended d'"
proof (induction rule: run.induct)
  case (run_nil d)
  then show ?case by (simp add: main_moves_def)
next
  case (run_step a e d d' es d'')
  note one = step_shutdown [OF run_step.hyps(1) run_step.prems(1,2)]
  show ?case
  proof (cases "ended d'")
    case True
    then show ?thesis using ended_run run_step.hyps(2) by blast
  next
    case False
    then have "0 < main_rank (main d')" "main_rank (main d') \<le> main_moves es"
      using one run_step.prems(2,3) by (auto simp: main_moves_def split: if_splits)
    then show ?thesis using run_step.IH step_cancelled [OF run_step.hyps(1)] run_step.prems(1) by blast
  qed
qed

section \<open>Properties\<close>

lemma run_reachable:
  assumes "run (daemon_start useDhcp config) es d"
  shows "mutex_inv d" and "spawn_inv d"
  using run_inv [OF assms inv_start] by simp_all

text \<open>Two runs for the examples: a static daemon up to its first advertisement, and one with DHCPv6
  up to where it waits for an answer.\<close>

lemmas by_main_run = run_step [OF by_main]
lemmas by_sender_run = run_step [OF by_sender]
lemmas by_requester_run = run_step [OF by_requester]

definition static_events :: "dh_opt_IA_Prefix \<Rightarrow> (actor \<times> event) list" where
  "static_events p = [(Main, Internal), (Thread RA, Internal), (Thread RA, Internal), (Thread RA, Internal),
     (Thread RA, Internal), (Thread RA, Internal), (Thread RA, Internal), (Thread RA, Internal),
     (Thread RA, Sent all_nodes p)]"

lemma prefix_fields: "\<lparr>PreferredLifetime = PreferredLifetime p, ValidLifetime = ValidLifetime p,
    PrefixLength = PrefixLength p, Prefix = Prefix p\<rparr> = p"
  by (cases p) simp

lemma static_run:
  "\<exists>d. run (daemon_start False p) (static_events p) d \<and> mutex d = Some RA \<and> sender d RA = S_Unlock \<and>
    \<not> ended d \<and> main d = M_Spawn_RS"
proof -
  let ?d = "daemon_start False p"
  let ?d1 = "?d\<lparr>sender := (sender ?d)(RA := S_Setup), main := M_Spawn_RS\<rparr>"
  let ?at = "\<lambda>s m. ?d1\<lparr>sender := (sender ?d)(RA := s), mutex := m\<rparr>"
  let ?m = "Some RA"
  note start = daemon_start_def
  have m: "main_step Internal ?d ?d1" by (rule main_step.spawn_ra) (simp add: start)
  have s: "sender_step RA Internal ?d1 (?at S_Test None)"
    "sender_step RA Internal (?at S_Test None) (?at (S_Lock all_nodes) None)"
    "sender_step RA Internal (?at (S_Lock all_nodes) None) (?at (S_Prefix all_nodes) ?m)"
    "sender_step RA Internal (?at (S_Prefix all_nodes) ?m) (?at (S_Length all_nodes (Prefix p)) ?m)"
    "sender_step RA Internal (?at (S_Length all_nodes (Prefix p)) ?m)
      (?at (S_Valid all_nodes (Prefix p) (PrefixLength p)) ?m)"
    "sender_step RA Internal (?at (S_Valid all_nodes (Prefix p) (PrefixLength p)) ?m)
      (?at (S_Preferred all_nodes (Prefix p) (PrefixLength p) (ValidLifetime p)) ?m)"
    "sender_step RA Internal (?at (S_Preferred all_nodes (Prefix p) (PrefixLength p) (ValidLifetime p)) ?m)
      (?at (S_Send all_nodes p) ?m)"
    "sender_step RA (Sent all_nodes p) (?at (S_Send all_nodes p) ?m) (?at S_Unlock ?m)"
    by (simp_all add: sender_step_simps start prefix_fields)
  have n: "\<not> ended ?d" "\<not> ended ?d1" "\<not> ended (?at s m)" for s m by (simp_all add: start)
  have ra: "RA \<noteq> DHCP" by simp
  note go = by_sender_run [OF n(3) ra]
  have "run ?d (static_events p) (?at S_Unlock ?m)"
    unfolding static_events_def
    by (rule by_main_run [OF n(1) m by_sender_run [OF n(2) ra s(1) go [OF s(2) go [OF s(3) go [OF s(4)
      go [OF s(5) go [OF s(6) go [OF s(7) go [OF s(8) run_nil]]]]]]]]])
  then show ?thesis by (intro exI [of _ "?at S_Unlock ?m"]) (simp add: start)
qed

definition dhcp_events :: "(actor \<times> event) list" where
  "dhcp_events = [(Main, Internal), (Thread DHCP, Internal), (Thread DHCP, Internal), (Thread DHCP, Internal),
     (Thread DHCP, Solicited)]"

lemma dhcp_run: "\<exists>d. run (daemon_start True p) dhcp_events d \<and> requester d = D_Receive \<and> \<not> incoming d \<and> mutex d = Some DHCP \<and> \<not> ended d"
proof -
  let ?d = "daemon_start True p"
  let ?at = "\<lambda>r m. ?d\<lparr>requester := r, main := M_Wait, mutex := m, request_open := True\<rparr>"
  let ?d1 = "?d\<lparr>requester := D_Setup, main := M_Wait\<rparr>"
  have s: "main_step Internal ?d ?d1" "requester_step Internal ?d1 (?at D_Test None)"
    "requester_step Internal (?at D_Test None) (?at D_Lock None)"
    "requester_step Internal (?at D_Lock None) (?at D_Send (Some DHCP))"
    "requester_step Solicited (?at D_Send (Some DHCP)) (?at D_Receive (Some DHCP))"
    by (simp_all add: main_step_simps requester_step_simps daemon_start_def)
  have n: "\<not> ended ?d" "\<not> ended ?d1" "\<not> ended (?at r m)" for r m by (simp_all add: daemon_start_def)
  have "run ?d dhcp_events (?at D_Receive (Some DHCP))"
    unfolding dhcp_events_def
    by (rule by_main_run [OF n(1) s(1) by_requester_run [OF n(2) s(2) by_requester_run [OF n(3) s(3)
      by_requester_run [OF n(3) s(4) by_requester_run [OF n(3) s(5) run_nil]]]]])
  then show ?thesis by (intro exI [of _ "?at D_Receive (Some DHCP)"]) (simp add: daemon_start_def)
qed

lemma dhcp_failed_run:
  "\<exists>d. run (daemon_start True p) [(Main, Internal), (Thread DHCP, Internal)] d \<and> requester d = D_Exited"
proof -
  let ?d = "daemon_start True p"
  let ?at = "\<lambda>r. ?d\<lparr>requester := r, main := M_Wait\<rparr>"
  have s: "main_step Internal ?d (?at D_Setup)" "requester_step Internal (?at D_Setup) (?at D_Exited)"
    by (simp_all add: main_step_simps requester_step_simps daemon_start_def)
  have n: "\<not> ended ?d" "\<not> ended (?at r)" for r by (simp_all add: daemon_start_def)
  have "run ?d [(Main, Internal), (Thread DHCP, Internal)] (?at D_Exited)"
    by (rule by_main_run [OF n(1) s(1) by_requester_run [OF n(2) s(2) run_nil]])
  then show ?thesis by (intro exI [of _ "?at D_Exited"]) simp
qed

text \<open>C5: Mutual exclusion: in every reachable state at most one thread stands between locking and
  unlocking, and it is the holder of the mutex.\<close>

theorem mutual_exclusion:
  assumes "run (daemon_start useDhcp config) es d"
  shows "(in_critical s d \<longleftrightarrow> mutex d = Some s) \<and> (in_critical s d \<and> in_critical t d \<longrightarrow> s = t)"
  using run_reachable(1) [OF assms] by (auto simp: mutex_inv_def)

theorem mutual_exclusion_witness:
  "\<exists>d :: daemon. mutex d = Some RA \<and> (in_critical DHCP d \<longleftrightarrow> mutex d = Some DHCP) \<and> \<not> in_critical RS d"
proof -
  obtain d where d: "run (daemon_start False zero_prefix) (static_events zero_prefix) d" "mutex d = Some RA"
    using static_run by blast
  show ?thesis using mutual_exclusion [OF d(1), of DHCP RA] mutual_exclusion [OF d(1), of RS RA] d(2)
    by (intro exI [of _ d]) simp
qed

text \<open>C4: Every history of the interleaved daemon is one of the daemon with atomic rounds: whatever is
  advertised, by either thread, is the whole prefix that the exchanges before it leave, with
  all four fields from the same round; no reader sees lifetimes half converted.\<close>

theorem daemon_refines_atomic:
  assumes "run (daemon_start useDhcp config) es d"
  shows "atomic config (map snd es)"
  by (rule run_atomic [OF assms inv_start simulates_start])

theorem daemon_refines_atomic_witness:
  "atomic zero_prefix (map snd (static_events zero_prefix))"
  using static_run [of zero_prefix] daemon_refines_atomic by blast

text \<open>C31: The release of the mutex. Whoever holds it can, moving alone, release it in at most six
  steps, unless it is the DHCPv6 thread with a request to send or waiting for the answer. Then
  it takes an answer from outside: until one arrives, the waiting thread cannot move at all;
  with one, it releases the mutex in at most five more steps.\<close>

theorem mutex_released:
  assumes "run (daemon_start useDhcp config) es d" and "\<not> ended d" and "mutex d = Some t"
  shows "if needs_server d
    then t = DHCP \<and> (requester d = D_Receive \<and> \<not> incoming d \<longrightarrow> (\<nexists>e d'. step (Thread DHCP) e d d')) \<and>
      (\<exists>fs d'. run d ((if requester d = D_Send then [(Thread DHCP, Solicited)] else []) @ (Kernel, Arrived) # fs) d' \<and>
        fst ` set fs \<subseteq> {Thread DHCP} \<and> length fs \<le> 5 \<and> mutex d' = None \<and> \<not> ended d')
    else \<exists>fs d'. run d fs d' \<and> fst ` set fs \<subseteq> {Thread t} \<and> length fs \<le> 6 \<and> mutex d' = None \<and> \<not> ended d'"
proof (cases "needs_server d")
  case True
  note inv = run_reachable [OF assms(1)]
  have "requester_critical (requester d)" using True by (auto simp: needs_server_def)
  then have "t = DHCP" using mutex_holder(2) [OF inv(1)] assms(3) by simp
  moreover have "requester d = D_Receive \<longrightarrow> request_open d"
    using receive_open.run_keeps_inv [OF assms(1)] inv_start(2) by (simp add: daemon_start_def)
  ultimately show ?thesis using True server_releases [OF assms(2) True] receive_blocked by simp
next
  case False
  then show ?thesis using holder_releases [OF run_reachable(1) [OF assms(1)] assms(2,3)] by simp
qed

theorem mutex_released_witness:
  "(\<exists>d fs d'. mutex d = Some RA \<and> run d fs d' \<and> fst ` set fs \<subseteq> {Thread RA} \<and> mutex d' = None) \<and>
    (\<exists>d fs d'. requester d = D_Receive \<and> run d ((Kernel, Arrived) # fs) d' \<and> mutex d' = None)"
proof
  obtain d where d: "run (daemon_start False zero_prefix) (static_events zero_prefix) d" "mutex d = Some RA" "\<not> ended d"
    "sender d RA = S_Unlock"
    using static_run by blast
  have "\<not> requester_critical (requester d)"
    using mutex_holder(2) [OF run_reachable(1) [OF d(1)]] d(2) by simp
  then have "\<not> needs_server d" by (auto simp: needs_server_def)
  then show "\<exists>d fs d'. mutex d = Some RA \<and> run d fs d' \<and> fst ` set fs \<subseteq> {Thread RA} \<and> mutex d' = None"
    using mutex_released [OF d(1,3,2)] d(2) by (metis (no_types, lifting))
  obtain d where d: "run (daemon_start True zero_prefix) dhcp_events d" "requester d = D_Receive" "\<not> ended d"
    "mutex d = Some DHCP"
    using dhcp_run by blast
  then show "\<exists>d fs d'. requester d = D_Receive \<and> run d ((Kernel, Arrived) # fs) d' \<and> mutex d' = None"
    using mutex_released [OF d(1,3,4)] by (simp add: needs_server_def) blast
qed

text \<open>C30: While the DHCPv6 thread is in its exchange, about to send or waiting for the server without
  a limit, it holds the mutex: until it moves, nothing is advertised and no solicitation
  answered.\<close>

theorem exchange_blocks_advertising:
  assumes "run (daemon_start useDhcp config) es d" and "requester d \<in> {D_Send, D_Receive}"
    and "run d fs d'" and "Thread DHCP \<notin> fst ` set fs"
  shows "requester d' = requester d \<and> mutex d' = Some DHCP \<and> (\<forall>dst q. Sent dst q \<notin> snd ` set fs)"
proof -
  note inv = run_reachable [OF assms(1)]
  have start: "exchanging d \<and> requester d = requester d \<and> mutex_inv d \<and> spawn_inv d"
    using assms(2) inv by (auto simp: exchanging_def)
  have others: "a \<noteq> Thread DHCP" if "(a, e) \<in> set fs" for a e using assms(4) that by force
  have kept: "exchanging d' \<and> requester d' = requester d \<and> mutex_inv d'"
    using exchange.run_keeps_inv [OF assms(3) start others] by simp
  moreover have "silent e" if "e \<in> snd ` set fs" for e
    by (rule exchange.run_visible [OF assms(3) start others that])
  moreover have "requester_critical (requester d')" using kept by (auto simp: exchanging_def)
  ultimately show ?thesis using mutex_holder(2) by fastforce
qed

theorem exchange_blocks_advertising_witness:
  "\<exists>d d'. requester d = D_Receive \<and> run d [(Kernel, Signal)] d' \<and> mutex d' = Some DHCP"
proof -
  obtain d where d: "run (daemon_start True zero_prefix) dhcp_events d" "requester d = D_Receive" "\<not> ended d"
    using dhcp_run by blast
  have "run d [(Kernel, Signal)] (d\<lparr>cancel := (\<lambda>_. True)\<rparr>)"
    by (rule run_step [OF by_signal [OF d(3)] run_nil])
  with exchange_blocks_advertising [OF d(1) _ this] d(2) show ?thesis
    by (intro exI [of _ d] exI [of _ "d\<lparr>cancel := (\<lambda>_. True)\<rparr>"]) simp
qed

text \<open>C29: When the DHCPv6 thread ends before its first exchange has, because its setup failed or a
  signal came, \<open>main\<close> never leaves its busy wait: whatever happens then, further signals
  included, the process runs on and advertises nothing.\<close>

theorem stuck_without_prefix:
  assumes "run (daemon_start True config) es d" and "PrefixLength config = 0"
    and "Send_Failed \<notin> snd ` set es" and "\<forall>r. Replied r \<notin> snd ` set es" and "requester d = D_Exited"
    and "run d fs d'"
  shows "main d' = M_Wait \<and> \<not> ended d' \<and> (\<forall>dst q. Sent dst q \<notin> snd ` set fs)"
proof -
  have "before_first (daemon_start True config)"
    using assms(2) by (simp add: before_first_def daemon_start_def)
  then have "before_first d"
    by (rule before_first.run_keeps_inv [OF assms(1)]) (use assms(3,4) in force)
  then have stuck: "stuck d" using assms(5) by (auto simp: before_first_def stuck_def)
  have "stuck d'" by (rule stuck.run_keeps_inv [OF assms(6) stuck]) simp
  moreover have "silent e" if "e \<in> snd ` set fs" for e
    by (rule stuck.run_visible [OF assms(6) stuck _ that]) simp
  ultimately show ?thesis by (fastforce simp: stuck_def)
qed

theorem stuck_without_prefix_witness:
  "\<exists>d :: daemon. requester d = D_Exited \<and> main d = M_Wait \<and> \<not> ended d"
proof -
  obtain d where d: "run (daemon_start True zero_prefix) [(Main, Internal), (Thread DHCP, Internal)] d"
    "requester d = D_Exited"
    using dhcp_failed_run by blast
  have "main d = M_Wait \<and> \<not> ended d \<and> (\<forall>dst q. Sent dst q \<notin> snd ` set ([] :: (actor \<times> event) list))"
    by (rule stuck_without_prefix [OF d(1) _ _ _ d(2) run_nil]) (simp_all add: zero_prefix_def)
  then show ?thesis using d(2) by blast
qed

text \<open>C32: Past the busy wait, a signal ends the process: after one, \<open>main\<close> can always move until it has
  returned, and three moves of it are enough.\<close>

theorem signal_ends_process:
  assumes "run (daemon_start useDhcp config) es d" and "Signal \<in> snd ` set es"
    and "main d \<notin> {M_Spawn_DHCP, M_Wait}"
  shows "(\<not> ended d \<longrightarrow> (\<exists>d'. step Main Internal d d')) \<and>
    (\<forall>fs d'. run d fs d' \<and> 3 \<le> main_moves fs \<longrightarrow> ended d')"
proof -
  have rank: "0 < main_rank (main d)" "main_rank (main d) \<le> 3" using assms(3) by (cases "main d"; simp)+
  have "all_cancelled d" using run_cancelled [OF assms(1)] assms(2) by simp
  then show ?thesis using main_progress shutdown_run rank by (meson order_trans)
qed

theorem signal_ends_process_witness:
  "\<exists>d d'. main d = M_Spawn_RS \<and> step Main Internal d d'"
proof -
  obtain d where d: "run (daemon_start False zero_prefix) (static_events zero_prefix) d" "\<not> ended d"
    "main d = M_Spawn_RS"
    using static_run by blast
  let ?d = "d\<lparr>cancel := (\<lambda>_. True)\<rparr>"
  have "run d [(Kernel, Signal)] ?d" by (rule run_step [OF by_signal [OF d(2)] run_nil])
  then obtain d' where "step Main Internal ?d d'"
    using signal_ends_process [OF run_append [OF d(1)]] d(2,3) by fastforce
  then show ?thesis using d(3) by (intro exI [of _ ?d] exI [of _ d']) simp
qed

end
