(* ===== verification/Schedule.thy ===== *)
theory Schedule
  imports Prefix_Sharing
begin

text \<open>
  The rounds of the threads over real memory, in any order, against the daemon with atomic
  rounds of \<open>Prefix_Sharing\<close>: the step from the code's bytes to the transition system's
  records. A schedule lists the rounds as the mutex serialises them, with what the system
  calls answer; the abstraction of a state is the record its \<open>_prefix\<close> holds.
\<close>

section \<open>Schedules\<close>

datatype round =
    Renew "u64 \<times> u64" "u32 \<Rightarrow> u64" "u8 list" "u8 list" nat
      \<comment> \<open>clock, generator, the reply, the data of its first delegation, how many it has\<close>
  | Renew_Failed "u64 \<times> u64" "u32 \<Rightarrow> u64"
  | Advertise in6_addr "u8 list"                 \<comment> \<open>local address, hardware address\<close>
  | Answer in6_addr "u8 list" "(u8 list \<times> in6_addr) list" "u8 list" in6_addr
      \<comment> \<open>the same, other datagrams, the solicitation and its source\<close>

record sockets =
  dhcp_handler :: int
  ra_handler :: int
  rs_handler :: int

fun round_code :: "sockets \<Rightarrow> nat \<Rightarrow> u64 \<Rightarrow> round \<Rightarrow> (world, unit) cm" where
  "round_code s bb mtu (Renew (sec, nsec) rng datagram data n) =
     thenc (requestDhcpPrefix_round (Some (sec, nsec)) rng 0 (Some datagram) (dhcp_handler s) (Ptr bb 0) mtu)
       (ret ())"
| "round_code s bb mtu (Renew_Failed (sec, nsec) rng) =
     thenc (requestDhcpPrefix_round (Some (sec, nsec)) rng (-1) None (dhcp_handler s) (Ptr bb 0) mtu) (ret ())"
| "round_code s bb mtu (Advertise src sockaddr) =
     sendRouterAdv_round 0 (Some src) (Some sockaddr) 0 (ra_handler s) 200"
| "round_code s bb mtu (Answer src sockaddr others datagram client) =
     listenRouterSolicit_round 0 (Some src) (map Some others @ [Some (datagram, client)]) (Some sockaddr) 0
       (rs_handler s)"

primrec schedule_code :: "sockets \<Rightarrow> nat \<Rightarrow> u64 \<Rightarrow> round list \<Rightarrow> (world, unit) cm" where
  "schedule_code s bb mtu [] = ret ()"
| "schedule_code s bb mtu (r # rounds) = thenc (round_code s bb mtu r) (schedule_code s bb mtu rounds)"

text \<open>Rounds whose system calls succeed as far as they should, and the memory a round loses.\<close>

fun round_ok :: "u64 \<Rightarrow> round \<Rightarrow> bool" where
  "round_ok mtu (Renew clock rng datagram data n) \<longleftrightarrow>
     reply_delegates datagram data n \<and> length datagram \<le> unat mtu"
| "round_ok mtu (Renew_Failed clock rng) \<longleftrightarrow> True"
| "round_ok mtu (Advertise src sockaddr) \<longleftrightarrow> length sockaddr = 16"
| "round_ok mtu (Answer src sockaddr others datagram client) \<longleftrightarrow> length sockaddr = 16 \<and>
     is_router_solicit datagram \<and> (\<forall>(d, s) \<in> set others. 2 \<le> length d \<and> \<not> is_router_solicit d)"

fun round_loss :: "round \<Rightarrow> nat" where
  "round_loss (Renew clock rng datagram data n) = 76 + 16 * n"
| "round_loss (Renew_Failed clock rng) = 76"
| "round_loss (Advertise src sockaddr) = 16"
| "round_loss (Answer src sockaddr others datagram client) = 16"

text \<open>The event of a round of the atomic daemon at the prefix \<open>p\<close>, and the hardware address that
  the message of an event carries.\<close>

fun round_event :: "dh_opt_IA_Prefix \<Rightarrow> round \<Rightarrow> event" where
  "round_event p (Renew clock rng datagram data n) = Replied (dh_opt_IA_Prefix_of (segment 16 25 data))"
| "round_event p (Renew_Failed clock rng) = Send_Failed"
| "round_event p (Advertise src sockaddr) = Sent all_nodes p"
| "round_event p (Answer src sockaddr others datagram client) = Sent client p"

fun round_hardware :: "round \<Rightarrow> u8 list" where
  "round_hardware (Advertise src sockaddr) = segment 2 6 sockaddr"
| "round_hardware (Answer src sockaddr others datagram client) = segment 2 6 sockaddr"
| "round_hardware _ = []"

primrec schedule_events :: "dh_opt_IA_Prefix \<Rightarrow> round list \<Rightarrow> (u8 list \<times> event) list" where
  "schedule_events p [] = []"
| "schedule_events p (r # rounds) =
     (round_hardware r, round_event p r) # schedule_events (effect (round_event p r) p) rounds"

definition final_prefix :: "dh_opt_IA_Prefix \<Rightarrow> round list \<Rightarrow> dh_opt_IA_Prefix" where
  "final_prefix p rounds = fold (\<lambda>(_, e). effect e) (schedule_events p rounds) p"

text \<open>The advertisements among the events, and those among the calls of the code.\<close>

fun event_adverts :: "(u8 list \<times> event) list \<Rightarrow> (in6_addr \<times> ra_message) list" where
  "event_adverts [] = []"
| "event_adverts ((mac, Sent dst q) # es) = (dst, advert_of mac q) # event_adverts es"
| "event_adverts (_ # es) = event_adverts es"

fun raw_sends :: "sys_call list \<Rightarrow> (in6_addr \<times> mval list) list" where
  "raw_sends [] = []"
| "raw_sends (Send_Raw handler dst hops payload # cs) = (dst, payload) # raw_sends cs"
| "raw_sends (_ # cs) = raw_sends cs"

definition reads_as :: "in6_addr \<times> mval list \<Rightarrow> in6_addr \<times> ra_message \<Rightarrow> bool" where
  "reads_as sent advert \<longleftrightarrow> fst sent = fst advert \<and>
     (\<exists>packet. snd sent = map Byte packet \<and> ra_decode packet = Some (0, snd advert))"

lemma raw_sends_append [simp]: "raw_sends (cs @ ds) = raw_sends cs @ raw_sends ds"
  by (induction cs rule: raw_sends.induct) simp_all

text \<open>What a sequence of calls does with socket descriptors, and the calls of a round.\<close>

datatype fd_use = Uses int | Closes int

fun fd_uses :: "sys_call list \<Rightarrow> fd_use list" where
  "fd_uses [] = []"
| "fd_uses (Close h # cs) = Closes h # fd_uses cs"
| "fd_uses (Send_Raw h dst hops payload # cs) = Uses h # fd_uses cs"
| "fd_uses (Send_Udp h dst port payload # cs) = Uses h # fd_uses cs"
| "fd_uses (_ # cs) = fd_uses cs"

lemma fd_uses_append [simp]: "fd_uses (cs @ ds) = fd_uses cs @ fd_uses ds"
  by (induction cs rule: fd_uses.induct) simp_all

fun round_uses :: "sockets \<Rightarrow> round \<Rightarrow> fd_use list" where
  "round_uses s (Renew clock rng datagram data n) = [Uses (dhcp_handler s), Closes (dhcp_handler s)]"
| "round_uses s (Renew_Failed clock rng) = [Closes (dhcp_handler s)]"
| "round_uses s (Advertise src sockaddr) = [Uses (ra_handler s)]"
| "round_uses s (Answer src sockaddr others datagram client) = [Uses (rs_handler s)]"

text \<open>The events of a schedule are accepted by the atomic daemon.\<close>

lemma schedule_events_atomic: "atomic p (map snd (schedule_events p rounds))"
proof (induction rounds arbitrary: p)
  case Nil
  then show ?case by simp
next
  case (Cons r rounds)
  have "allowed (round_event p r) p" by (cases r) simp_all
  then show ?case using Cons by simp
qed

section \<open>One round\<close>

definition schedulable :: "u8 list \<Rightarrow> dh_opt_IA_Prefix \<Rightarrow> nat \<Rightarrow> u64 \<Rightarrow> world \<Rightarrow> bool" where
  "schedulable name p bb mtu w \<longleftrightarrow> advertiser name p w \<and> receive_buffer w bb (unat mtu) \<and>
     bb < next_block w \<and> utils_request w \<noteq> Ptr bb 0 \<and> prefix_ptr w \<noteq> Ptr bb 0"

lemma schedulable_advertised:
  assumes "schedulable name p bb mtu w" and "advertiser name p w'" and "same_globals w w'"
    and "\<forall>q. utils_request w = Ptr q 0 \<longrightarrow> world_keeps {q} w w'"
  shows "schedulable name p bb mtu w'"
proof -
  obtain q where q: "utils_request w = Ptr q 0"
    using assms(1) by (auto simp: schedulable_def advertiser_def utils_ready_def)
  have keeps: "world_keeps {q} w w'" using assms(4) q by simp
  have "q \<noteq> bb" using assms(1) q by (auto simp: schedulable_def)
  then have "receive_buffer w' bb (unat mtu)"
    using receive_buffer_keeps [OF _ keeps] assms(1) by (simp add: schedulable_def)
  then show ?thesis using assms(1-3) keeps
    by (auto simp: schedulable_def same_globals_def world_keeps_def)
qed

lemma advertiser_settled:
  assumes "schedulable name p bb mtu w" and "prefix_ptr w = Ptr pb 0" and "world_keeps bs w w'"
    and "bs \<subseteq> {bb, pb}" and "prefix_holds w' p'"
  shows "advertiser name p' w'"
proof -
  have "utils_ready name w'"
    by (rule utils_ready_keeps [OF _ assms(3)])
      (use assms(1,2,4) in \<open>auto simp: schedulable_def advertiser_def\<close>)
  then show ?thesis using assms
    by (simp add: advertiser_def schedulable_def world_keeps_def same_globals_def)
qed

text \<open>What one round does over the memory: it returns, sends what its atomic event
  advertises through its own sockets, and leaves the daemon as the event leaves the prefix.\<close>

definition round_runs ::
  "sockets \<Rightarrow> u8 list \<Rightarrow> dh_opt_IA_Prefix \<Rightarrow> nat \<Rightarrow> u64 \<Rightarrow> round \<Rightarrow> world \<Rightarrow> bool" where
  "round_runs s name p bb mtu r w \<longleftrightarrow>
    (\<exists>w' cs. round_code s bb mtu r w = Inr ((), w') \<and> trace w' = trace w @ cs \<and>
      list_all2 reads_as (raw_sends cs) (event_adverts [(round_hardware r, round_event p r)]) \<and>
      fd_uses cs = round_uses s r \<and>
      schedulable name (effect (round_event p r) p) bb mtu w' \<and> avail w' = avail w - round_loss r)"

lemma schedulable_parts:
  assumes "schedulable name p bb mtu w"
  obtains pb where "prefix_ptr w = Ptr pb 0" "blocks w pb = Some (map Byte (dh_opt_IA_Prefix_bytes p))"
    "pb \<noteq> bb" "advertiser name p w" "heap_wf w" "prefix_holds w p" "receive_buffer w bb (unat mtu)"
proof -
  have adv: "advertiser name p w" "heap_wf w" "prefix_holds w p" "receive_buffer w bb (unat mtu)"
    using assms by (simp_all add: schedulable_def advertiser_def)
  obtain pb where "prefix_ptr w = Ptr pb 0" "blocks w pb = Some (map Byte (dh_opt_IA_Prefix_bytes p))"
    using adv(3) by (auto simp: prefix_holds_def)
  moreover have "pb \<noteq> bb" using assms \<open>prefix_ptr w = Ptr pb 0\<close> by (auto simp: schedulable_def)
  ultimately show thesis using adv that by blast
qed

lemma renew_runs:
  assumes sched: "schedulable name p bb mtu w" and ok: "round_ok mtu (Renew clock rng datagram data n)"
    and mem: "144 + round_loss (Renew clock rng datagram data n) \<le> avail w"
  shows "round_runs s name p bb mtu (Renew clock rng datagram data n) w"
proof -
  obtain pb where pb: "prefix_ptr w = Ptr pb 0" "blocks w pb = Some (map Byte (dh_opt_IA_Prefix_bytes p))"
    and ne: "pb \<noteq> bb" and adv: "advertiser name p w" "heap_wf w" "prefix_holds w p"
      "receive_buffer w bb (unat mtu)"
    by (rule schedulable_parts [OF sched])
  obtain sec nsec where clock: "clock = (sec, nsec)" by (cases clock)
  have reply: "reply_delegates datagram data n" "length datagram \<le> unat mtu" "116 + 16 * n \<le> avail w"
    using ok mem by simp_all
  then have "41 \<le> length data" by (auto simp: reply_delegates_def)
  note settle = prefix_settle_delegated [OF this]
  obtain w' out out' where w': "requestDhcpPrefix_round (Some (sec, nsec)) rng 0 (Some datagram)
      (dhcp_handler s) (Ptr bb 0) mtu w = Inr (Some 0, w')" "prefix_holds w' (delegated_prefix data)"
    "trace w' = trace w @ [Lock_Prefix, Printed out,
      Send_Udp (dhcp_handler s) all_dhcp_agents 547 (map Byte (solicit_bytes (exchange_transId sec nsec rng))),
      Printed out', Close (dhcp_handler s), Unlock_Prefix, Sleep (PreferredLifetime (delegated_prefix data))]"
    "world_keeps {bb, pb} w w'" "avail w' = avail w - 76 - 16 * n" "receive_buffer w' bb (unat mtu)"
    using dhcp_round_run [OF adv(2,4) reply(1,2) pb(1,2) _ ne reply(3), of 0 sec nsec rng "dhcp_handler s"]
    by auto
  have "advertiser name (delegated_prefix data) w'"
    by (rule advertiser_settled [OF sched pb(1) w'(4) _ w'(2)]) simp
  then have "schedulable name (delegated_prefix data) bb mtu w'"
    using sched w'(4,6) by (auto simp: schedulable_def world_keeps_def same_globals_def)
  then show ?thesis using w'(1,3,5)
    by (auto simp: clock round_runs_def thenc_apply ret_apply settle)
qed

lemma renew_failed_runs:
  assumes sched: "schedulable name p bb mtu w" and ok: "round_ok mtu (Renew_Failed clock rng)"
    and mem: "144 + round_loss (Renew_Failed clock rng) \<le> avail w"
  shows "round_runs s name p bb mtu (Renew_Failed clock rng) w"
proof -
  obtain pb where pb: "prefix_ptr w = Ptr pb 0" "blocks w pb = Some (map Byte (dh_opt_IA_Prefix_bytes p))"
    and ne: "pb \<noteq> bb" and adv: "advertiser name p w" "heap_wf w" "prefix_holds w p"
      "receive_buffer w bb (unat mtu)"
    by (rule schedulable_parts [OF sched])
  obtain sec nsec where clock: "clock = (sec, nsec)" by (cases clock)
  have m: "116 \<le> avail w" using mem by simp
  obtain w' out where w': "requestDhcpPrefix_round (Some (sec, nsec)) rng (-1) None
      (dhcp_handler s) (Ptr bb 0) mtu w = Inr (Some 1, w')" "prefix_holds w' (prefix_settle p)"
    "trace w' = trace w @ [Lock_Prefix, Printed out, Close (dhcp_handler s), Unlock_Prefix,
      Sleep (be32toh (PreferredLifetime p))]" "avail w' = avail w - 76"
    "\<forall>pb. prefix_ptr w = Ptr pb 0 \<longrightarrow> world_keeps {pb} w w'"
    using dhcp_round_send_failed_run [OF adv(2,3) m, of "-1" sec nsec rng None "dhcp_handler s" "Ptr bb 0" mtu]
    by auto
  have keeps: "world_keeps {pb} w w'" using w'(5) pb(1) by simp
  have "receive_buffer w' bb (unat mtu)"
    by (rule receive_buffer_keeps [OF adv(4) keeps]) (use sched ne in \<open>auto simp: schedulable_def\<close>)
  moreover have "advertiser name (prefix_settle p) w'"
    by (rule advertiser_settled [OF sched pb(1) keeps _ w'(2)]) simp
  ultimately have "schedulable name (prefix_settle p) bb mtu w'"
    using sched keeps by (auto simp: schedulable_def world_keeps_def same_globals_def)
  then show ?thesis using w'(1,3,4) by (auto simp: clock round_runs_def thenc_apply ret_apply)
qed

lemma advertise_runs:
  assumes sched: "schedulable name p bb mtu w" and ok: "round_ok mtu (Advertise src sockaddr)"
    and mem: "144 + round_loss (Advertise src sockaddr) \<le> avail w"
  shows "round_runs s name p bb mtu (Advertise src sockaddr) w"
proof -
  have adv: "advertiser name p w" using sched by (simp add: schedulable_def)
  have m: "144 \<le> avail w" "length sockaddr = 16" using mem ok by simp_all
  obtain w' packet where w': "sendRouterAdv_round 0 (Some src) (Some sockaddr) 0 (ra_handler s) 200 w = Inr ((), w')"
    "trace w' = trace w @ [Lock_Prefix, Send_Raw (ra_handler s) all_nodes 255 (map Byte packet), Unlock_Prefix,
      Sleep 200]" "ra_decode packet = Some (0, advert_of (segment 2 6 sockaddr) p)"
    "advertiser name p w'" "same_globals w w'" "avail w' = avail w - 16"
    "\<forall>q. utils_request w = Ptr q 0 \<longrightarrow> world_keeps {q} w w'"
    using sendRouterAdv_round_run [OF adv m(2,1), of 0 src 0 "ra_handler s" 200] by auto
  then show ?thesis using schedulable_advertised [OF sched w'(4,5,7)]
    by (auto simp: round_runs_def reads_as_def)
qed

lemma answer_runs:
  assumes sched: "schedulable name p bb mtu w" and ok: "round_ok mtu (Answer src sockaddr others datagram client)"
    and mem: "144 + round_loss (Answer src sockaddr others datagram client) \<le> avail w"
  shows "round_runs s name p bb mtu (Answer src sockaddr others datagram client) w"
proof -
  have adv: "advertiser name p w" using sched by (simp add: schedulable_def)
  have m: "144 \<le> avail w" "length sockaddr = 16"
    "\<forall>(d, s) \<in> set others. 2 \<le> length d \<and> \<not> is_router_solicit d" "is_router_solicit datagram"
    using mem ok by simp_all
  obtain w' packet where w': "listenRouterSolicit_round 0 (Some src)
      (map Some others @ [Some (datagram, client)]) (Some sockaddr) 0 (rs_handler s) w = Inr ((), w')"
    "trace w' = trace w @ [Lock_Prefix, Send_Raw (rs_handler s) client 255 (map Byte packet), Unlock_Prefix]"
    "ra_decode packet = Some (0, advert_of (segment 2 6 sockaddr) p)"
    "advertiser name p w'" "same_globals w w'" "avail w' = avail w - 16"
    "\<forall>q. utils_request w = Ptr q 0 \<longrightarrow> world_keeps {q} w w'"
    using listenRouterSolicit_round_run [OF adv m(2,1) _ m(3,4), of 0 src client "[]" 0 "rs_handler s"]
    by auto
  then show ?thesis using schedulable_advertised [OF sched w'(4,5,7)]
    by (auto simp: round_runs_def reads_as_def)
qed

lemma round_run:
  assumes "schedulable name p bb mtu w" and "round_ok mtu r" and "144 + round_loss r \<le> avail w"
  shows "round_runs s name p bb mtu r w"
  using assms
  by (cases r) (simp_all only: renew_runs renew_failed_runs advertise_runs answer_runs)

section \<open>Schedules of rounds\<close>

lemma event_adverts_Cons: "event_adverts (e # es) = event_adverts [e] @ event_adverts es"
  by (cases e; cases "snd e") auto

lemma final_prefix_simps [simp]:
  "final_prefix p [] = p"
  "final_prefix p (r # rounds) = final_prefix (effect (round_event p r) p) rounds"
  by (simp_all add: final_prefix_def)

lemma schedule_run:
  assumes "schedulable name p bb mtu w" and "\<forall>r \<in> set rounds. round_ok mtu r"
    and "144 + sum_list (map round_loss rounds) \<le> avail w"
  shows "\<exists>w' cs. schedule_code s bb mtu rounds w = Inr ((), w') \<and> trace w' = trace w @ cs \<and>
    list_all2 reads_as (raw_sends cs) (event_adverts (schedule_events p rounds)) \<and>
    fd_uses cs = concat (map (round_uses s) rounds) \<and>
    schedulable name (final_prefix p rounds) bb mtu w' \<and>
    avail w' = avail w - sum_list (map round_loss rounds)"
  using assms
proof (induction rounds arbitrary: p w)
  case Nil
  then show ?case by (simp add: ret_apply)
next
  case (Cons r rounds)
  have ok: "round_ok mtu r" "144 + round_loss r \<le> avail w" using Cons.prems(2,3) by simp_all
  obtain w1 cs1 where w1: "round_code s bb mtu r w = Inr ((), w1)" "trace w1 = trace w @ cs1"
    "list_all2 reads_as (raw_sends cs1) (event_adverts [(round_hardware r, round_event p r)])"
    "schedulable name (effect (round_event p r) p) bb mtu w1" "avail w1 = avail w - round_loss r"
    "fd_uses cs1 = round_uses s r"
    using round_run [OF Cons.prems(1) ok] unfolding round_runs_def by blast
  have "\<forall>r \<in> set rounds. round_ok mtu r" "144 + sum_list (map round_loss rounds) \<le> avail w1"
    using Cons.prems(2,3) w1(5) by simp_all
  then obtain w' cs where w': "schedule_code s bb mtu rounds w1 = Inr ((), w')" "trace w' = trace w1 @ cs"
    "list_all2 reads_as (raw_sends cs) (event_adverts (schedule_events (effect (round_event p r) p) rounds))"
    "schedulable name (final_prefix (effect (round_event p r) p) rounds) bb mtu w'"
    "avail w' = avail w1 - sum_list (map round_loss rounds)"
    "fd_uses cs = concat (map (round_uses s) rounds)"
    using Cons.IH [OF w1(4)] by blast
  have "list_all2 reads_as (raw_sends (cs1 @ cs)) (event_adverts (schedule_events p (r # rounds)))"
    unfolding raw_sends_append schedule_events.simps
      event_adverts_Cons [of "(round_hardware r, round_event p r)" "schedule_events _ rounds"]
    by (rule list_all2_appendI [OF w1(3) w'(3)])
  then show ?case using w1(1,2,5,6) w'(1,2,4-6)
    by (intro exI [of _ w'] exI [of _ "cs1 @ cs"]) (simp add: thenc_apply)
qed

section \<open>Property\<close>

text \<open>C1: The code refines the atomic daemon: run over memory, any schedule of renewals, failed
  renewals, periodic advertisements and answered solicitations terminates without a fault,
  leaves in \<open>_prefix\<close> the record the atomic daemon ends with, and sends, in order and to the
  same destinations, messages that a receiver reads as the advertisements of its events.\<close>

theorem schedule_refines_atomic:
  assumes "schedulable name p bb mtu w" and "\<forall>r \<in> set rounds. round_ok mtu r"
    and "144 + sum_list (map round_loss rounds) \<le> avail w"
  shows "atomic p (map snd (schedule_events p rounds)) \<and>
    (\<exists>w' cs. schedule_code s bb mtu rounds w = Inr ((), w') \<and> trace w' = trace w @ cs \<and>
      prefix_holds w' (final_prefix p rounds) \<and>
      list_all2 reads_as (raw_sends cs) (event_adverts (schedule_events p rounds)))"
proof -
  obtain w' cs where "schedule_code s bb mtu rounds w = Inr ((), w')" "trace w' = trace w @ cs"
    "list_all2 reads_as (raw_sends cs) (event_adverts (schedule_events p rounds))"
    "schedulable name (final_prefix p rounds) bb mtu w'"
    using schedule_run [OF assms] by blast
  then show ?thesis using schedule_events_atomic by (auto simp: schedulable_def advertiser_def)
qed

definition sample_schedule :: "round list" where
  "sample_schedule = [Renew (3, 5) (\<lambda>_. 1) sample_reply sample_delegation 1,
     Advertise 7 (replicate 16 8), Answer 7 (replicate 16 8) [] [133, 0, 7] 3]"

lemma sample_schedulable: "schedulable [108, 111] zero_prefix 1 64 (daemon_world zero_prefix)"
  using daemon_world_facts(1,4-6) [of zero_prefix]
  by (simp add: schedulable_def) (simp add: daemon_world_def)

theorem schedule_refines_atomic_witness:
  "\<exists>w' cs. schedule_code \<lparr>dhcp_handler = 9, ra_handler = 4, rs_handler = 6\<rparr> 1 64 sample_schedule
      (daemon_world zero_prefix) = Inr ((), w') \<and>
    list_all2 reads_as (raw_sends cs)
      [(all_nodes, advert_of (replicate 6 8) (delegated_prefix sample_delegation)),
       (3, advert_of (replicate 6 8) (delegated_prefix sample_delegation))]"
proof -
  have data: "41 \<le> length sample_delegation" by (simp add: sample_reply_facts)
  have seg: "segment 2 6 (replicate 16 8 :: u8 list) = replicate 6 8" by (simp add: segment_def)
  have events: "event_adverts (schedule_events zero_prefix sample_schedule) =
      [(all_nodes, advert_of (replicate 6 8) (delegated_prefix sample_delegation)),
       (3, advert_of (replicate 6 8) (delegated_prefix sample_delegation))]"
    by (simp add: sample_schedule_def prefix_settle_delegated [OF data] seg del: replicate_numeral_Cons)
  have "\<forall>r \<in> set sample_schedule. round_ok 64 r"
    using sample_reply_delegates sample_reply_facts(2)
    by (simp add: sample_schedule_def is_router_solicit_def)
  moreover have "144 + sum_list (map round_loss sample_schedule) \<le> avail (daemon_world zero_prefix)"
    by (simp add: sample_schedule_def daemon_world_facts)
  ultimately show ?thesis
    using schedule_refines_atomic [OF sample_schedulable] events by metis
qed

end
