(* ===== verification/Descriptors.thy ===== *)
theory Descriptors
  imports Schedule
begin

text \<open>
  The sockets of the threads in the descriptor table they share. The exchange closes the
  descriptor its thread goes on to use, and POSIX has \<open>socket\<close> return the lowest descriptor
  that is free: the two together tie the DHCPv6 thread to the socket of another.
\<close>

section \<open>The descriptor table\<close>

text \<open>The descriptors that are open, and what the kernel makes of the uses of descriptors by the
  program: a message through one that is closed is not delivered (\<open>sendmsg\<close> fails, which is
  only logged).\<close>

definition lowest_free :: "int list \<Rightarrow> int" where
  "lowest_free fds = hd (filter (\<lambda>k. k \<notin> set fds) (map int [0..<Suc (length fds)]))"

fun open_after :: "int list \<Rightarrow> fd_use list \<Rightarrow> int list" where
  "open_after fds [] = fds"
| "open_after fds (Closes h # us) = open_after (removeAll h fds) us"
| "open_after fds (Uses h # us) = open_after fds us"

fun delivered :: "int list \<Rightarrow> fd_use list \<Rightarrow> int list" where
  "delivered fds [] = []"
| "delivered fds (Closes h # us) = delivered (removeAll h fds) us"
| "delivered fds (Uses h # us) = (if h \<in> set fds then [h] else []) @ delivered fds us"

lemma set_open_after: "set (open_after fds us) = set fds - {h. Closes h \<in> set us}"
  by (induction fds us rule: open_after.induct) auto

lemma delivered_open: "h \<in> set (delivered fds us) \<Longrightarrow> h \<in> set fds"
  by (induction fds us rule: delivered.induct) (auto split: if_splits)

lemma lowest_free_exists: "\<exists>k \<le> length fds. int k \<notin> set fds"
proof (rule ccontr)
  assume "\<nexists>k. k \<le> length fds \<and> int k \<notin> set fds"
  then have "int ` {..length fds} \<subseteq> set fds" by auto
  then have "card (int ` {..length fds}) \<le> card (set fds)" by (intro card_mono) simp_all
  also have "\<dots> \<le> length fds" by (rule card_length)
  finally show False by (simp add: card_image)
qed

lemma filter_upt_hd:
  assumes "P k" and "\<And>j. j < k \<Longrightarrow> \<not> P j" and "k < n"
  shows "hd (filter P [0..<n]) = k"
proof -
  have "[0..<n] = [0..<k] @ k # [Suc k..<n]"
    using assms(3) upt_add_eq_append [of 0 k "n - k"] upt_conv_Cons [of k n] by simp
  then show ?thesis using assms(1,2) by simp
qed

text \<open>\<open>lowest_free\<close> is what POSIX asks of \<open>socket\<close>.\<close>

lemma lowest_free_eq:
  assumes "int k \<notin> set fds" and "\<And>j. j < k \<Longrightarrow> int j \<in> set fds"
  shows "lowest_free fds = int k"
proof -
  obtain m where "m \<le> length fds" "int m \<notin> set fds" using lowest_free_exists by blast
  then have "k < Suc (length fds)" using assms(2) [of m] by (cases "m < k") auto
  let ?free = "filter (\<lambda>k. int k \<notin> set fds) [0..<Suc (length fds)]"
  have "k \<in> set ?free"
    using \<open>k < Suc (length fds)\<close> assms(1) unfolding set_filter set_upt by simp
  then have "?free \<noteq> []" by (metis empty_iff list.set(1))
  have "lowest_free fds = hd (map int ?free)" by (simp only: lowest_free_def filter_map o_def)
  also have "\<dots> = int (hd ?free)" by (rule hd_map) fact
  also have "hd ?free = k"
    by (rule filter_upt_hd) (use assms \<open>k < Suc (length fds)\<close> in auto)
  finally show ?thesis .
qed

section \<open>A renewal closes the socket of the advertising thread\<close>

fun exchanges :: "round \<Rightarrow> bool" where
  "exchanges (Renew _ _ _ _ _) \<longleftrightarrow> True"
| "exchanges (Renew_Failed _ _) \<longleftrightarrow> True"
| "exchanges _ \<longleftrightarrow> False"

lemma exchange_closes: "exchanges r \<Longrightarrow> Closes (dhcp_handler s) \<in> set (round_uses s r)"
  by (cases r) simp_all

lemma first_exchange_uses: "exchanges r \<Longrightarrow> set (open_after fds (round_uses s r)) = set fds - {dhcp_handler s}"
  by (cases r) (simp_all add: set_open_after)

text \<open>The descriptors of the daemon: the DHCPv6 thread's was the lowest free one when it was
  made, and none below it has been closed since.\<close>

definition descriptors_ok :: "int list \<Rightarrow> sockets \<Rightarrow> bool" where
  "descriptors_ok fds s \<longleftrightarrow> 0 \<le> dhcp_handler s \<and> (\<forall>k. 0 \<le> k \<and> k \<le> dhcp_handler s \<longrightarrow> k \<in> set fds)"

lemma reused_descriptor:
  assumes "descriptors_ok fds s" and "exchanges r"
  shows "lowest_free (open_after fds (round_uses s r)) = dhcp_handler s"
proof -
  have "lowest_free (open_after fds (round_uses s r)) = int (nat (dhcp_handler s))"
    by (rule lowest_free_eq)
      (use assms in \<open>auto simp: first_exchange_uses descriptors_ok_def\<close>)
  then show ?thesis using assms(1) by (simp add: descriptors_ok_def)
qed

text \<open>C26: The descriptors of two threads get mixed up. The first exchange closes the socket of the
  DHCPv6 thread, so the next one made, that of the advertising thread, gets its descriptor. Any
  later exchange, successful or not, closes that descriptor again: from then on none of the
  advertisements of the advertising thread is delivered, however many it goes on to send.\<close>

theorem renewal_closes_advertising_socket:
  assumes sched: "schedulable name p bb mtu w" and fds: "descriptors_ok fds s"
    and rounds: "\<forall>r \<in> set (first # before @ renewal # later). round_ok mtu r"
    and ex: "exchanges first" "exchanges renewal"
    and mem: "144 + sum_list (map round_loss (first # before @ renewal # later)) \<le> avail w"
  shows "\<exists>w1 cs1 w2 cs2 w3 cs3. round_code s bb mtu first w = Inr ((), w1) \<and> trace w1 = trace w @ cs1 \<and>
    (let fds1 = open_after fds (fd_uses cs1); ra = lowest_free fds1; s1 = s\<lparr>ra_handler := ra\<rparr>;
         fds2 = open_after (ra # fds1) (fd_uses cs2)
     in ra = dhcp_handler s \<and>
       schedule_code s1 bb mtu (before @ [renewal]) w1 = Inr ((), w2) \<and> trace w2 = trace w1 @ cs2 \<and>
       schedule_code s1 bb mtu later w2 = Inr ((), w3) \<and> trace w3 = trace w2 @ cs3 \<and>
       fd_uses cs3 = concat (map (round_uses s1) later) \<and> ra \<notin> set (delivered fds2 (fd_uses cs3)))"
proof -
  let ?s1 = "s\<lparr>ra_handler := dhcp_handler s\<rparr>"
  have first: "round_ok mtu first" "144 + round_loss first \<le> avail w" using rounds mem by simp_all
  obtain w1 cs1 where w1: "round_code s bb mtu first w = Inr ((), w1)" "trace w1 = trace w @ cs1"
    "fd_uses cs1 = round_uses s first" "schedulable name (effect (round_event p first) p) bb mtu w1"
    "avail w1 = avail w - round_loss first"
    using round_run [OF sched first] unfolding round_runs_def by blast
  have mid: "\<forall>r \<in> set (before @ [renewal]). round_ok mtu r"
    "144 + sum_list (map round_loss (before @ [renewal])) \<le> avail w1"
    using rounds mem w1(5) by auto
  obtain w2 cs2 p2 where w2: "schedule_code ?s1 bb mtu (before @ [renewal]) w1 = Inr ((), w2)"
    "trace w2 = trace w1 @ cs2" "fd_uses cs2 = concat (map (round_uses ?s1) (before @ [renewal]))"
    "schedulable name p2 bb mtu w2" "avail w2 = avail w1 - sum_list (map round_loss (before @ [renewal]))"
    using schedule_run [OF w1(4) mid] by blast
  have rest: "\<forall>r \<in> set later. round_ok mtu r" "144 + sum_list (map round_loss later) \<le> avail w2"
    using rounds mem w1(5) w2(5) by auto
  obtain w3 cs3 where w3: "schedule_code ?s1 bb mtu later w2 = Inr ((), w3)" "trace w3 = trace w2 @ cs3"
    "fd_uses cs3 = concat (map (round_uses ?s1) later)"
    using schedule_run [OF w2(4) rest] by blast
  have ra: "lowest_free (open_after fds (fd_uses cs1)) = dhcp_handler s"
    using reused_descriptor [OF fds ex(1)] w1(3) by simp
  have "Closes (dhcp_handler s) \<in> set (fd_uses cs2)"
    using exchange_closes [OF ex(2), of ?s1] w2(3) by simp
  then have "dhcp_handler s \<notin> set (open_after fds' (fd_uses cs2))" for fds'
    by (simp add: set_open_after)
  then have "dhcp_handler s \<notin> set (delivered (open_after fds' (fd_uses cs2)) (fd_uses cs3))" for fds'
    using delivered_open by blast
  with w1(1,2) w2(1,2) w3 ra show ?thesis
    unfolding Let_def by (intro exI [of _ w1] exI [of _ cs1] exI [of _ w2] exI [of _ cs2] exI [of _ w3]
      exI [of _ cs3]) simp
qed

text \<open>Descriptors 0 to 3 for the standard streams and the interface queries, 4 for DHCPv6; a prefix
  is delegated and advertised, the renewal fails, and the next advertisement is lost.\<close>

definition sample_sockets :: sockets where
  "sample_sockets = \<lparr>dhcp_handler = 4, ra_handler = -1, rs_handler = 6\<rparr>"

theorem renewal_closes_advertising_socket_witness:
  "\<exists>w2 w3 cs3 fds2. schedule_code (sample_sockets\<lparr>ra_handler := 4\<rparr>) 1 64 [Advertise 7 (replicate 16 8)] w2 =
      Inr ((), w3) \<and> trace w3 = trace w2 @ cs3 \<and> fd_uses cs3 = [Uses 4] \<and> 4 \<notin> set (delivered fds2 (fd_uses cs3))"
proof -
  let ?first = "Renew (3, 5) (\<lambda>_. 1) sample_reply sample_delegation 1"
  let ?ra = "Advertise 7 (replicate 16 8)" and ?failed = "Renew_Failed (3, 5) (\<lambda>_. 1)"
  have "descriptors_ok [0, 1, 2, 3, 4] sample_sockets"
    by (auto simp: descriptors_ok_def sample_sockets_def)
  moreover have "\<forall>r \<in> set (?first # [?ra] @ ?failed # [?ra]). round_ok 64 r"
    using sample_reply_delegates sample_reply_facts(2) by simp
  moreover have "144 + sum_list (map round_loss (?first # [?ra] @ ?failed # [?ra])) \<le> avail (daemon_world zero_prefix)"
    by (simp add: daemon_world_facts)
  moreover have "exchanges ?first" "exchanges ?failed" by simp_all
  ultimately obtain w1 cs1 w2 cs2 w3 cs3 where
    run: "let fds1 = open_after [0, 1, 2, 3, 4] (fd_uses cs1); ra = lowest_free fds1; s1 = sample_sockets\<lparr>ra_handler := ra\<rparr>;
         fds2 = open_after (ra # fds1) (fd_uses cs2)
     in ra = dhcp_handler sample_sockets \<and>
       schedule_code s1 1 64 ([?ra] @ [?failed]) w1 = Inr ((), w2) \<and> trace w2 = trace w1 @ cs2 \<and>
       schedule_code s1 1 64 [?ra] w2 = Inr ((), w3) \<and> trace w3 = trace w2 @ cs3 \<and>
       fd_uses cs3 = concat (map (round_uses s1) [?ra]) \<and> ra \<notin> set (delivered fds2 (fd_uses cs3))"
    using renewal_closes_advertising_socket [OF sample_schedulable, of "[0, 1, 2, 3, 4]" sample_sockets ?first "[?ra]" ?failed "[?ra]"]
    by blast
  note run = run [unfolded Let_def]
  have four: "dhcp_handler sample_sockets = 4" by (simp add: sample_sockets_def)
  with run have ra: "lowest_free (open_after [0, 1, 2, 3, 4] (fd_uses cs1)) = 4" by (elim conjE) (rule trans)
  have uses: "concat (map (round_uses s) [?ra]) = [Uses (ra_handler s)]" for s by simp
  have "ra_handler (sample_sockets\<lparr>ra_handler := 4\<rparr>) = 4" by simp
  with run [unfolded ra uses] have "schedule_code (sample_sockets\<lparr>ra_handler := 4\<rparr>) 1 64 [?ra] w2 = Inr ((), w3) \<and>
      trace w3 = trace w2 @ cs3 \<and> fd_uses cs3 = [Uses 4] \<and>
      4 \<notin> set (delivered (open_after (4 # open_after [0, 1, 2, 3, 4] (fd_uses cs1)) (fd_uses cs2)) (fd_uses cs3))"
    by metis
  then show ?thesis by blast
qed

end
