(* ===== verification/Histories.thy ===== *)
theory Histories
  imports Prefix_Sharing
begin

text \<open>
  The other direction of the refinement of \<open>Prefix_Sharing\<close>: which histories of the atomic daemon
  the interleaved one really shows. With a static prefix all of its advertisements; with DHCPv6
  those in which at most one Solicit is sent and answered, since its socket is closed then.
\<close>

section \<open>Observations\<close>

text \<open>What an observer sees of a run: Solicits sent, the exchanges and the advertisements. An
  advertisement is the call that sends it; what becomes of it when a renewal has closed the
  descriptor it is sent through is the subject of \<open>Descriptors\<close>.\<close>

fun observable :: "event \<Rightarrow> bool" where
  "observable Solicited \<longleftrightarrow> True"
| "observable (Replied _) \<longleftrightarrow> True"
| "observable Send_Failed \<longleftrightarrow> True"
| "observable (Sent _ _) \<longleftrightarrow> True"
| "observable Internal \<longleftrightarrow> False"
| "observable Signal \<longleftrightarrow> False"
| "observable Arrived \<longleftrightarrow> False"

definition observed :: "(actor \<times> event) list \<Rightarrow> event list" where
  "observed es = filter observable (map snd es)"

lemma observed_simps [simp]:
  "observed [] = []"
  "observed ((a, e) # es) = (if observable e then e # observed es else observed es)"
  "observed (es @ fs) = observed es @ observed fs"
  by (simp_all add: observed_def)

lemma unobservable: "\<not> observable e \<Longrightarrow> allowed e p \<and> effect e p = p"
  by (cases e) simp_all

lemma atomic_observed: "atomic p (observed es) \<longleftrightarrow> atomic p (map snd es)"
proof (induction es arbitrary: p)
  case (Cons ae es)
  then show ?case using unobservable by (cases ae) auto
qed simp

lemma observed_all: "list_all observable (observed es)"
  by (simp add: observed_def list_all_iff)

definition exhibits :: "daemon \<Rightarrow> event list \<Rightarrow> daemon \<Rightarrow> bool" where
  "exhibits d hist d' \<longleftrightarrow> (\<exists>es. run d es d' \<and> observed es = hist)"

lemma exhibits_refl [simp]: "exhibits d [] d"
  by (auto simp: exhibits_def intro!: exI [of _ "[]"] run_nil)

lemma exhibits_trans: "exhibits d hist d' \<Longrightarrow> exhibits d' hist' d'' \<Longrightarrow> exhibits d (hist @ hist') d''"
  unfolding exhibits_def using run_append by (metis observed_simps(3))

lemma exhibits_step:
  assumes "step a e d d'" and "exhibits d' hist d''"
  shows "exhibits d ((if observable e then [e] else []) @ hist) d''"
proof -
  from assms(2) obtain es where es: "run d' es d''" "observed es = hist" by (auto simp: exhibits_def)
  then show ?thesis unfolding exhibits_def
    by (intro exI [of _ "(a, e) # es"]) (simp add: run_step [OF assms(1)])
qed

lemmas exhibits_main = exhibits_step [OF by_main]
lemmas exhibits_sender = exhibits_step [OF by_sender]
lemmas exhibits_requester = exhibits_step [OF by_requester]
lemmas exhibits_arrival = exhibits_step [OF by_arrival]

section \<open>Whole rounds\<close>

text \<open>A daemon with the prefix \<open>p\<close> whose threads are about to test their flags.\<close>

definition threads_at :: "sender_at \<Rightarrow> sender_at \<Rightarrow> thread \<Rightarrow> sender_at" where
  "threads_at ra rs t = (case t of RA \<Rightarrow> ra | RS \<Rightarrow> rs | DHCP \<Rightarrow> S_Unborn)"

definition daemon_at ::
  "dh_opt_IA_Prefix \<Rightarrow> thread option \<Rightarrow> sender_at \<Rightarrow> sender_at \<Rightarrow> requester_at \<Rightarrow> bool \<Rightarrow> main_at \<Rightarrow> daemon" where
  "daemon_at p m ra rs r open i = \<lparr>shared = p, mutex = m, cancel = (\<lambda>_. False), sender = threads_at ra rs,
     requester = r, request_open = open, incoming = False, main = i, ended = False\<rparr>"

lemma daemon_at_fields [simp]:
  "shared (daemon_at p m ra rs r op i) = p" "mutex (daemon_at p m ra rs r op i) = m"
  "\<not> cancel (daemon_at p m ra rs r op i) t" "sender (daemon_at p m ra rs r op i) = threads_at ra rs"
  "requester (daemon_at p m ra rs r op i) = r" "request_open (daemon_at p m ra rs r op i) = op"
  "\<not> incoming (daemon_at p m ra rs r op i)"
  "main (daemon_at p m ra rs r op i) = i" "\<not> ended (daemon_at p m ra rs r op i)"
  by (simp_all add: daemon_at_def threads_at_def)

lemma threads_at_simps [simp]:
  "threads_at ra rs RA = ra" "threads_at ra rs RS = rs"
  "(threads_at ra rs)(RA := s) = threads_at s rs" "(threads_at ra rs)(RS := s) = threads_at ra s"
  by (auto simp: threads_at_def fun_eq_iff split: thread.splits)

lemma daemon_at_upd [simp]:
  "daemon_at p m ra rs r op i\<lparr>shared := p'\<rparr> = daemon_at p' m ra rs r op i"
  "daemon_at p m ra rs r op i\<lparr>mutex := m'\<rparr> = daemon_at p m' ra rs r op i"
  "daemon_at p m ra rs r op i\<lparr>sender := threads_at ra' rs'\<rparr> = daemon_at p m ra' rs' r op i"
  "daemon_at p m ra rs r op i\<lparr>requester := r'\<rparr> = daemon_at p m ra rs r' op i"
  "daemon_at p m ra rs r op i\<lparr>request_open := op'\<rparr> = daemon_at p m ra rs r op' i"
  "daemon_at p m ra rs r op i\<lparr>incoming := False\<rparr> = daemon_at p m ra rs r op i"
  "daemon_at p m ra rs r op i\<lparr>main := i'\<rparr> = daemon_at p m ra rs r op i'"
  by (simp_all add: daemon_at_def)

lemma daemon_start_at:
  "daemon_start useDhcp config = daemon_at config None S_Unborn S_Unborn D_Unborn False
     (if useDhcp then M_Spawn_DHCP else M_Spawn_RA)"
  by (auto simp: daemon_start_def daemon_at_def threads_at_def fun_eq_iff split: thread.splits)

text \<open>A round of the DHCPv6 thread: up to its exchange, after it, and the three ways through.\<close>

lemma requester_locks:
  "exhibits (daemon_at p None ra rs D_Test op i) [] (daemon_at p (Some DHCP) ra rs D_Send op i)"
proof -
  have s: "requester_step Internal (daemon_at p None ra rs D_Test op i) (daemon_at p None ra rs D_Lock op i)"
    "requester_step Internal (daemon_at p None ra rs D_Lock op i) (daemon_at p (Some DHCP) ra rs D_Send op i)"
    by (simp_all add: requester_step_simps)
  show ?thesis
    using exhibits_requester [OF _ s(1) exhibits_requester [OF _ s(2) exhibits_refl]] by simp
qed

lemma requester_settles:
  "exhibits (daemon_at p (Some DHCP) ra rs D_Preferred op i) []
    (daemon_at (prefix_settle p) None ra rs D_Test op i)"
proof -
  let ?m = "Some DHCP"
  let ?at = "\<lambda>q m r. daemon_at q m ra rs r op i"
  let ?q = "p\<lparr>PreferredLifetime := be32toh (PreferredLifetime p)\<rparr>"
  let ?v = "?q\<lparr>ValidLifetime := be32toh (ValidLifetime ?q)\<rparr>"
  have s: "requester_step Internal (?at p ?m D_Preferred) (?at ?q ?m D_Valid)"
    "requester_step Internal (?at ?q ?m D_Valid) (?at ?v ?m D_Length)"
    "requester_step Internal (?at ?v ?m D_Length) (?at (prefix_settle p) ?m D_Unlock)"
    "requester_step Internal (?at (prefix_settle p) ?m D_Unlock) (?at (prefix_settle p) None D_Sleep)"
    "requester_step Internal (?at (prefix_settle p) None D_Sleep) (?at (prefix_settle p) None D_Test)"
    by (simp_all add: requester_step_simps prefix_settle_def)
  have n: "\<not> ended (?at q m r)" for q m r by simp
  note go = exhibits_requester [OF n]
  show ?thesis
    using go [OF s(1) go [OF s(2) go [OF s(3) go [OF s(4) go [OF s(5) exhibits_refl]]]]] by simp
qed

lemma failed_exchange:
  "exhibits (daemon_at p None ra rs D_Test op i) [Send_Failed] (daemon_at (prefix_settle p) None ra rs D_Test False i)"
proof -
  have s: "requester_step Send_Failed (daemon_at p (Some DHCP) ra rs D_Send op i)
      (daemon_at p (Some DHCP) ra rs D_Preferred False i)"
    by (simp add: requester_step_simps)
  show ?thesis
    using exhibits_trans [OF requester_locks exhibits_requester [OF _ s requester_settles]] by simp
qed

lemma unanswered_exchange:
  "exhibits (daemon_at p None ra rs D_Test True i) [Solicited] (daemon_at p (Some DHCP) ra rs D_Receive True i)"
proof -
  have s: "requester_step Solicited (daemon_at p (Some DHCP) ra rs D_Send True i)
      (daemon_at p (Some DHCP) ra rs D_Receive True i)"
    by (simp add: requester_step_simps)
  show ?thesis
    using exhibits_trans [OF requester_locks exhibits_requester [OF _ s exhibits_refl]] by simp
qed

lemma answered_exchange:
  "exhibits (daemon_at p None ra rs D_Test True i) [Solicited, Replied r]
    (daemon_at (prefix_settle r) None ra rs D_Test False i)"
proof -
  let ?d = "daemon_at p (Some DHCP) ra rs D_Receive True i"
  have s: "requester_step (Replied r) (?d\<lparr>incoming := True\<rparr>) (daemon_at r (Some DHCP) ra rs D_Preferred False i)"
    by (simp add: requester_step_simps daemon_at_def)
  have "exhibits (?d\<lparr>incoming := True\<rparr>) [Replied r] (daemon_at (prefix_settle r) None ra rs D_Test False i)"
    using exhibits_requester [OF _ s requester_settles] by simp
  from exhibits_arrival [OF _ _ this]
  have "exhibits ?d [Replied r] (daemon_at (prefix_settle r) None ra rs D_Test False i)" by simp
  from exhibits_trans [OF unanswered_exchange this] show ?thesis by simp
qed

lemma solicited_round:
  "exhibits (daemon_at p None ra S_Test r op i) [Sent dst p] (daemon_at p None ra S_Test r op i)"
proof -
  let ?m = "Some RS"
  let ?at = "\<lambda>m s. daemon_at p m ra s r op i"
  let ?step = "sender_step RS Internal"
  have s: "?step (?at None S_Test) (?at None S_Receive)"
    "?step (?at None S_Receive) (?at None (S_Lock dst))"
    "?step (?at None (S_Lock dst)) (?at ?m (S_Prefix dst))"
    "?step (?at ?m (S_Prefix dst)) (?at ?m (S_Length dst (Prefix p)))"
    "?step (?at ?m (S_Length dst (Prefix p))) (?at ?m (S_Valid dst (Prefix p) (PrefixLength p)))"
    "?step (?at ?m (S_Valid dst (Prefix p) (PrefixLength p)))
      (?at ?m (S_Preferred dst (Prefix p) (PrefixLength p) (ValidLifetime p)))"
    "?step (?at ?m (S_Preferred dst (Prefix p) (PrefixLength p) (ValidLifetime p))) (?at ?m (S_Send dst p))"
    "sender_step RS (Sent dst p) (?at ?m (S_Send dst p)) (?at ?m S_Unlock)"
    "?step (?at ?m S_Unlock) (?at None S_Test)"
    by (simp_all add: sender_step_simps prefix_fields) blast
  have n: "\<not> ended (?at m s)" for m s by simp
  have rs: "RS \<noteq> DHCP" by simp
  note go = exhibits_sender [OF n rs]
  show ?thesis
    using go [OF s(1) go [OF s(2) go [OF s(3) go [OF s(4) go [OF s(5) go [OF s(6) go [OF s(7)
      go [OF s(8) go [OF s(9) exhibits_refl]]]]]]]]] by simp
qed

section \<open>From the start\<close>

lemma senders_start:
  "exhibits (daemon_at p None S_Unborn S_Unborn r op M_Spawn_RA) [] (daemon_at p None S_Test S_Test r op M_Loop)"
proof -
  let ?at = "\<lambda>ra rs i. daemon_at p None ra rs r op i"
  have m: "main_step Internal (?at S_Unborn S_Unborn M_Spawn_RA) (?at S_Setup S_Unborn M_Spawn_RS)"
    "main_step Internal (?at S_Setup S_Unborn M_Spawn_RS) (?at S_Setup S_Setup M_Loop)"
    by (simp_all add: main_step_simps)
  have s: "sender_step RA Internal (?at S_Setup S_Setup M_Loop) (?at S_Test S_Setup M_Loop)"
    "sender_step RS Internal (?at S_Test S_Setup M_Loop) (?at S_Test S_Test M_Loop)"
    by (simp_all add: sender_step_simps)
  have n: "\<not> ended (?at ra rs i)" for ra rs i by simp
  show ?thesis
    using exhibits_main [OF n m(1) exhibits_main [OF n m(2) exhibits_sender [OF n _ s(1)
      exhibits_sender [OF n _ s(2) exhibits_refl]]]] by simp
qed

lemma requester_start:
  "exhibits (daemon_at p None ra rs D_Unborn False M_Spawn_DHCP) [] (daemon_at p None ra rs D_Test True M_Wait)"
proof -
  let ?at = "\<lambda>r op i. daemon_at p None ra rs r op i"
  have s: "main_step Internal (?at D_Unborn False M_Spawn_DHCP) (?at D_Setup False M_Wait)"
    "requester_step Internal (?at D_Setup False M_Wait) (?at D_Test True M_Wait)"
    by (simp_all add: main_step_simps requester_step_simps)
  have n: "\<not> ended (?at r op i)" for r op i by simp
  show ?thesis
    using exhibits_main [OF n s(1) exhibits_requester [OF n s(2) exhibits_refl]] by simp
qed

lemma wait_ends:
  assumes "PrefixLength p \<noteq> 0"
  shows "exhibits (daemon_at p None ra rs r op M_Wait) [] (daemon_at p None ra rs r op M_Spawn_RA)"
proof -
  have "main_step Internal (daemon_at p None ra rs r op M_Wait) (daemon_at p None ra rs r op M_Spawn_RA)"
    using assms by (simp add: main_step_simps)
  with exhibits_main [OF _ this exhibits_refl] show ?thesis by simp
qed

lemma sent_rounds:
  "exhibits (daemon_at p None ra S_Test r op i) (map (\<lambda>dst. Sent dst p) dsts) (daemon_at p None ra S_Test r op i)"
proof (induction dsts)
  case (Cons dst dsts)
  from exhibits_trans [OF solicited_round Cons] show ?case by simp
qed simp

text \<open>Once the socket is closed: failed renewals and advertisements, in any order.\<close>

fun later :: "event \<Rightarrow> bool" where
  "later Send_Failed \<longleftrightarrow> True"
| "later (Sent _ _) \<longleftrightarrow> True"
| "later _ \<longleftrightarrow> False"

lemma later_rounds:
  assumes "list_all later hist" and "atomic p hist"
  shows "\<exists>p'. exhibits (daemon_at p None S_Test S_Test D_Test False M_Loop) hist
    (daemon_at p' None S_Test S_Test D_Test False M_Loop)"
  using assms
proof (induction hist arbitrary: p)
  case Nil
  show ?case using exhibits_refl by blast
next
  case (Cons e hist)
  let ?at = "\<lambda>p. daemon_at p None S_Test S_Test D_Test False M_Loop"
  have "exhibits (?at p) [e] (?at (effect e p))"
    using Cons.prems failed_exchange solicited_round by (cases e) auto
  moreover obtain p' where "exhibits (?at (effect e p)) hist (?at p')"
    using Cons.IH [of "effect e p"] Cons.prems by auto
  ultimately show ?case using exhibits_trans [of "?at p" "[e]"] by auto
qed

section \<open>The histories of the daemon\<close>

text \<open>With DHCPv6 the daemon goes through three phases: it has sent no request, it waits for the
  answer to its only one, its socket is closed.\<close>

definition asking :: "daemon \<Rightarrow> bool" where
  "asking d \<longleftrightarrow> before_first d \<and> requester d \<noteq> D_Receive"

definition waiting :: "daemon \<Rightarrow> bool" where
  "waiting d \<longleftrightarrow> before_first d \<and> requester d = D_Receive"

definition closed :: "daemon \<Rightarrow> bool" where
  "closed d \<longleftrightarrow> \<not> request_open d \<and> requester d \<notin> {D_Unborn, D_Setup, D_Receive} \<and> main d \<noteq> M_Spawn_DHCP"

lemma before_first_silent:
  assumes "step a e d d'" and "before_first d" and "observable e"
  shows "a = Thread DHCP \<and> requester_step e d d'"
  using assms(1)
proof cases
  case by_main
  from by_main(3) assms(3) show ?thesis by (cases rule: main_step.cases) simp_all
next
  case (by_sender t)
  have "sender d t = S_Unborn" using assms(2) by_sender(3) by (cases t) (simp_all add: before_first_def)
  with by_sender(4) show ?thesis by (cases rule: sender_step.cases) simp_all
qed (use assms(3) in simp_all)

lemma before_first_internal:
  assumes "step a e d d'" and "before_first d" and "\<not> observable e"
  shows "before_first d' \<and> (requester d' = D_Receive \<longleftrightarrow> requester d = D_Receive)"
proof
  show "before_first d'" using before_first_step [OF assms(1,2)] assms(3) by (cases e) auto
  show "requester d' = D_Receive \<longleftrightarrow> requester d = D_Receive"
    using assms(1)
  proof cases
    case by_main
    from by_main(3) assms(2) show ?thesis by (cases rule: main_step.cases) (auto simp: before_first_def)
  next
    case (by_sender t)
    then show ?thesis using sender_step_others(2) [OF by_sender(4)] by simp
  next
    case by_requester
    from by_requester(3) assms(3) show ?thesis by (cases rule: requester_step.cases) simp_all
  qed simp_all
qed

lemma asking_step:
  assumes "step a e d d'" and "asking d"
  shows "\<not> observable e \<and> asking d' \<or> e = Solicited \<and> waiting d' \<or> e = Send_Failed \<and> closed d'"
proof (cases "observable e")
  case True
  have first: "before_first d" "requester d \<noteq> D_Receive" using assms(2) by (simp_all add: asking_def)
  from before_first_silent [OF assms(1) first(1) True] have "requester_step e d d'" by simp
  then show ?thesis using True first
    by (cases rule: requester_step.cases) (auto simp: waiting_def closed_def before_first_def)
next
  case False
  then show ?thesis using before_first_internal [OF assms(1)] assms(2) by (simp add: asking_def)
qed

lemma waiting_step:
  assumes "step a e d d'" and "waiting d"
  shows "\<not> observable e \<and> waiting d' \<or> (\<exists>r. e = Replied r) \<and> closed d'"
proof (cases "observable e")
  case True
  have first: "before_first d" "requester d = D_Receive" using assms(2) by (simp_all add: waiting_def)
  from before_first_silent [OF assms(1) first(1) True] have "requester_step e d d'" by simp
  then show ?thesis using True first
    by (cases rule: requester_step.cases) (auto simp: closed_def before_first_def)
next
  case False
  then show ?thesis using before_first_internal [OF assms(1)] assms(2) by (simp add: waiting_def)
qed

lemma closed_step:
  assumes "step a e d d'" and "closed d"
  shows "closed d' \<and> (observable e \<longrightarrow> later e)"
  using assms(1)
proof cases
  case by_main
  from by_main(3) assms(2) show ?thesis by (cases rule: main_step.cases) (auto simp: closed_def)
next
  case (by_sender t)
  from by_sender(4) assms(2) show ?thesis by (cases rule: sender_step.cases) (auto simp: closed_def)
next
  case by_requester
  from by_requester(3) assms(2) show ?thesis by (cases rule: requester_step.cases) (auto simp: closed_def)
qed (use assms(2) in \<open>auto simp: closed_def\<close>)

interpretation closed: run_invariant closed "\<lambda>_ _. True" "\<lambda>e. observable e \<longrightarrow> later e"
  by unfold_locales (rule closed_step)

text \<open>The histories of the three phases.\<close>

fun answered_history :: "event list \<Rightarrow> bool" where
  "answered_history [] \<longleftrightarrow> True"
| "answered_history (Replied r # es) \<longleftrightarrow> list_all later es"
| "answered_history _ \<longleftrightarrow> False"

fun dhcp_history :: "event list \<Rightarrow> bool" where
  "dhcp_history [] \<longleftrightarrow> True"
| "dhcp_history (Solicited # es) \<longleftrightarrow> answered_history es"
| "dhcp_history (Send_Failed # es) \<longleftrightarrow> list_all later es"
| "dhcp_history _ \<longleftrightarrow> False"

lemma closed_run: "run d es d' \<Longrightarrow> closed d \<Longrightarrow> list_all later (observed es)"
  using closed.run_visible unfolding observed_def list_all_iff by fastforce

lemma waiting_run: "run d es d' \<Longrightarrow> waiting d \<Longrightarrow> answered_history (observed es)"
proof (induction rule: run.induct)
  case (run_step a e d d' es d'')
  from waiting_step [OF run_step.hyps(1) run_step.prems] show ?case
    using run_step.IH closed_run [OF run_step.hyps(2)] by auto
qed simp

lemma asking_run: "run d es d' \<Longrightarrow> asking d \<Longrightarrow> dhcp_history (observed es)"
proof (induction rule: run.induct)
  case (run_step a e d d' es d'')
  from asking_step [OF run_step.hyps(1) run_step.prems] show ?case
    using run_step.IH closed_run [OF run_step.hyps(2)] waiting_run [OF run_step.hyps(2)] by auto
qed simp

text \<open>Without DHCPv6 nothing is exchanged.\<close>

fun no_exchange :: "event \<Rightarrow> bool" where
  "no_exchange Solicited \<longleftrightarrow> False"
| "no_exchange (Replied _) \<longleftrightarrow> False"
| "no_exchange Send_Failed \<longleftrightarrow> False"
| "no_exchange _ \<longleftrightarrow> True"

definition static_daemon :: "daemon \<Rightarrow> bool" where
  "static_daemon d \<longleftrightarrow> requester d = D_Unborn \<and> main d \<in> {M_Spawn_RA, M_Spawn_RS, M_Loop}"

lemma static_step:
  assumes "step a e d d'" and "static_daemon d"
  shows "static_daemon d' \<and> no_exchange e"
  using assms(1)
proof cases
  case by_main
  from by_main(3) assms(2) show ?thesis
    by (cases rule: main_step.cases) (auto simp: static_daemon_def)
next
  case (by_sender t)
  have "no_exchange e" using by_sender(4) by (cases rule: sender_step.cases) simp_all
  then show ?thesis using sender_step_others(1,2) [OF by_sender(4)] assms(2) by (simp add: static_daemon_def)
next
  case by_requester
  then show ?thesis using requester_step_others(3) assms(2) by (simp add: static_daemon_def)
next
  case by_signal
  then show ?thesis using assms(2) by (simp add: static_daemon_def)
next
  case by_arrival
  then show ?thesis using assms(2) by (simp add: static_daemon_def)
qed

interpretation static: run_invariant static_daemon "\<lambda>_ _. True" no_exchange
  by unfold_locales (rule static_step)

lemma atomic_sent:
  "list_all observable hist \<Longrightarrow> list_all no_exchange hist \<Longrightarrow> atomic p hist \<Longrightarrow>
    \<exists>dsts. hist = map (\<lambda>dst. Sent dst p) dsts"
proof (induction hist)
  case (Cons e hist)
  then obtain dst where e: "e = Sent dst p" by (cases e) auto
  with Cons obtain dsts where "hist = map (\<lambda>dst. Sent dst p) dsts" by auto
  with e show ?case by (intro exI [of _ "dst # dsts"]) simp
qed simp

lemma start_shows_atomic:
  assumes "exhibits (daemon_start useDhcp config) hist d"
  shows "list_all observable hist \<and> atomic config hist"
proof -
  obtain es where es: "run (daemon_start useDhcp config) es d" "observed es = hist"
    using assms by (auto simp: exhibits_def)
  have "atomic config (map snd es)" by (rule run_atomic [OF es(1) inv_start simulates_start])
  then show ?thesis using es(2) atomic_observed observed_all by blast
qed

lemma static_shows_sent:
  assumes "exhibits (daemon_start False config) hist d"
  shows "list_all no_exchange hist"
proof -
  obtain es where es: "run (daemon_start False config) es d" "observed es = hist"
    using assms by (auto simp: exhibits_def)
  have "static_daemon (daemon_start False config)" by (simp add: static_daemon_def daemon_start_def)
  from static.run_visible [OF es(1) this] have "no_exchange e" if "e \<in> snd ` set es" for e
    using that by simp
  then show ?thesis using es(2) by (auto simp: observed_def list_all_iff)
qed

lemma closed_shows:
  assumes "exhibits (daemon_start True config) hist (daemon_at p None S_Unborn S_Unborn D_Test False M_Wait)"
    and "PrefixLength p \<noteq> 0" and "list_all later rest" and "atomic p rest"
  shows "\<exists>d. exhibits (daemon_start True config) (hist @ rest) d"
proof -
  have "exhibits (daemon_start True config) hist (daemon_at p None S_Test S_Test D_Test False M_Loop)"
    using exhibits_trans [OF exhibits_trans [OF assms(1) wait_ends [OF assms(2)]] senders_start] by simp
  then show ?thesis using later_rounds [OF assms(3,4)] exhibits_trans by blast
qed

lemma dhcp_shows:
  assumes "dhcp_history hist" and "atomic config hist"
  shows "\<exists>d. exhibits (daemon_start True config) hist d"
proof -
  have start: "exhibits (daemon_start True config) []
      (daemon_at config None S_Unborn S_Unborn D_Test True M_Wait)"
    using requester_start by (simp add: daemon_start_at)
  note settled = closed_shows [OF exhibits_trans [OF start], simplified]
  have length: "PrefixLength (prefix_settle q) \<noteq> 0" for q by (simp add: prefix_settle_def)
  show ?thesis
  proof (cases hist rule: dhcp_history.cases)
    case 1
    then show ?thesis using exhibits_refl by blast
  next
    case (2 es)
    show ?thesis
    proof (cases es)
      case Nil
      then show ?thesis using 2 exhibits_trans [OF start unanswered_exchange] by auto
    next
      case (Cons e rest)
      then obtain r where e: "e = Replied r" using assms(1) 2 by (cases e) simp_all
      then show ?thesis
        using settled [OF answered_exchange length, of rest] assms 2 Cons by simp
    qed
  next
    case (3 es)
    then show ?thesis using settled [OF failed_exchange length, of es] assms by simp
  qed (use assms(1) in simp_all)
qed

lemma static_shows: "\<exists>d. exhibits (daemon_start False config) (map (\<lambda>dst. Sent dst config) dsts) d"
  using exhibits_trans [OF senders_start sent_rounds] by (fastforce simp: daemon_start_at)

text \<open>C3: The histories of the daemon, exactly. Started with a static prefix it can show the
  advertisements of that prefix, to any destinations in any number, and nothing else. Started
  with DHCPv6 and no prefix it can show nothing; a Solicit that is never answered; or one that
  is, or whose sending fails, and then failed renewals and advertisements in any order, each of
  the prefix the exchanges before it leave. It never sends a second Solicit. An advertisement
  here is a call of \<open>sendmsg\<close>; that a failed renewal can keep it from the wire is a matter of
  descriptors.\<close>

theorem daemon_histories:
  assumes "PrefixLength none = 0"
  shows "((\<exists>d. exhibits (daemon_start False config) hist d) \<longleftrightarrow> (\<exists>dsts. hist = map (\<lambda>dst. Sent dst config) dsts)) \<and>
    ((\<exists>d. exhibits (daemon_start True none) hist d) \<longleftrightarrow> dhcp_history hist \<and> atomic none hist)"
proof
  show "(\<exists>d. exhibits (daemon_start False config) hist d) \<longleftrightarrow> (\<exists>dsts. hist = map (\<lambda>dst. Sent dst config) dsts)"
    using start_shows_atomic static_shows_sent atomic_sent static_shows by blast
  have "asking (daemon_start True none)"
    using assms by (simp add: asking_def before_first_def daemon_start_def)
  then have "dhcp_history hist" if "exhibits (daemon_start True none) hist d" for d
    using that asking_run unfolding exhibits_def by blast
  then show "(\<exists>d. exhibits (daemon_start True none) hist d) \<longleftrightarrow> dhcp_history hist \<and> atomic none hist"
    using start_shows_atomic dhcp_shows by blast
qed

theorem daemon_histories_witness:
  "(\<exists>d. exhibits (daemon_start True zero_prefix)
      [Solicited, Replied zero_prefix, Sent all_nodes (prefix_settle zero_prefix), Send_Failed] d) \<and>
    \<not> (\<exists>d. exhibits (daemon_start True zero_prefix) [Solicited, Replied zero_prefix, Solicited] d)"
  using daemon_histories [of zero_prefix zero_prefix
      "[Solicited, Replied zero_prefix, Sent all_nodes (prefix_settle zero_prefix), Send_Failed]"]
    daemon_histories [of zero_prefix zero_prefix "[Solicited, Replied zero_prefix, Solicited]"]
  by (simp add: zero_prefix_def)

end
