(* ===== verification/Frames.thy ===== *)
theory Frames
  imports Daemon_Threads
begin

text \<open>
  What the functions of the daemon may change, whatever the system calls answer and however
  well formed what they work on is: a frame logic over the memory model. A frame fixes the
  blocks that existed before a function was called, those of them it may write, and the
  daemon's two static pointers. \<open>framed F m Q\<close> says that \<open>m\<close>, when it returns, has written
  no other old block, resized or freed none, and returned a value with \<open>Q\<close>. There is one rule per
  construct of the model; each function is one lemma.
\<close>

section \<open>Frames\<close>

record frame =
  frame_base :: nat                    \<comment> \<open>blocks below it existed before\<close>
  frame_writes :: "nat set"
  frame_request :: ptr                 \<comment> \<open>\<open>utils_request\<close> and \<open>prefix_ptr\<close> at the start\<close>
  frame_prefix :: ptr

fun owned :: "frame \<Rightarrow> ptr \<Rightarrow> bool" where
  "owned F (Ptr b k) \<longleftrightarrow> frame_base F \<le> b"
| "owned F _ \<longleftrightarrow> True"

fun writable :: "frame \<Rightarrow> ptr \<Rightarrow> bool" where
  "writable F (Ptr b k) \<longleftrightarrow> b \<in> frame_writes F \<or> frame_base F \<le> b"
| "writable F _ \<longleftrightarrow> True"

definition in_frame :: "frame \<Rightarrow> 'z world_scheme \<Rightarrow> bool" where
  "in_frame F w \<longleftrightarrow> frame_base F \<le> next_block w \<and> heap_wf w \<and> prefix_ptr w = frame_prefix F \<and>
     utils_request w = frame_request F"

definition keeps_old :: "frame \<Rightarrow> 'z cheap_scheme \<Rightarrow> 'z cheap_scheme \<Rightarrow> bool" where
  "keeps_old F w w' \<longleftrightarrow> (\<forall>b < frame_base F. (b \<notin> frame_writes F \<longrightarrow> blocks w' b = blocks w b) \<and>
     map_option length (blocks w' b) = map_option length (blocks w b))"

definition framed :: "frame \<Rightarrow> ('z world_scheme, 'a) cm \<Rightarrow> ('a \<Rightarrow> bool) \<Rightarrow> bool" where
  "framed F m Q \<longleftrightarrow> (\<forall>w x w'. in_frame F w \<longrightarrow> m w = Inr (x, w') \<longrightarrow>
     in_frame F w' \<and> keeps_old F w w' \<and> Q x)"

lemma framedI:
  "(\<And>w x w'. in_frame F w \<Longrightarrow> m w = Inr (x, w') \<Longrightarrow> in_frame F w' \<and> keeps_old F w w' \<and> Q x) \<Longrightarrow>
    framed F m Q"
  by (simp add: framed_def)

lemma framedD:
  "framed F m Q \<Longrightarrow> in_frame F w \<Longrightarrow> m w = Inr (x, w') \<Longrightarrow> in_frame F w' \<and> keeps_old F w w' \<and> Q x"
  by (simp add: framed_def)

lemma keeps_old_refl [simp]: "keeps_old F w w"
  by (simp add: keeps_old_def)

lemma keeps_old_trans: "keeps_old F u v \<Longrightarrow> keeps_old F v w \<Longrightarrow> keeps_old F u w"
  by (simp add: keeps_old_def)

lemma owned_writable [simp]: "owned F p \<Longrightarrow> writable F p"
  by (cases p) simp_all

lemma owned_add [simp]: "owned F p \<Longrightarrow> owned F (ptr_add p k)"
  by (cases p) simp_all

lemma writable_add [simp]: "writable F p \<Longrightarrow> writable F (ptr_add p k)"
  by (cases p) simp_all

section \<open>The rules\<close>

lemma framed_conseq: "framed F m P \<Longrightarrow> (\<And>x. P x \<Longrightarrow> Q x) \<Longrightarrow> framed F m Q"
  by (simp add: framed_def)

lemma framed_any: "framed F m P \<Longrightarrow> framed F m (\<lambda>_. True)"
  by (erule framed_conseq) simp

lemma framed_bindc:
  assumes "framed F m P" and "\<And>x. P x \<Longrightarrow> framed F (f x) Q"
  shows "framed F (bindc m f) Q"
proof (rule framedI)
  fix w y w' assume w: "in_frame F w" and run: "bindc m f w = Inr (y, w')"
  from bindc_eq_InrD [OF run] obtain x v where "m w = Inr (x, v)" "f x v = Inr (y, w')" by blast
  with w assms show "in_frame F w' \<and> keeps_old F w w' \<and> Q y"
    unfolding framed_def by (meson keeps_old_trans)
qed

lemma framed_bindc_any:
  "framed F m (\<lambda>_. True) \<Longrightarrow> (\<And>x. framed F (f x) Q) \<Longrightarrow> framed F (bindc m f) Q"
  by (rule framed_bindc)

lemma framed_thenc: "framed F m (\<lambda>_. True) \<Longrightarrow> framed F n Q \<Longrightarrow> framed F (thenc m n) Q"
  unfolding thenc_def by (rule framed_bindc_any)

lemma framed_ret: "Q x \<Longrightarrow> framed F (ret x) Q"
  by (simp add: framed_def ret_apply)

lemma framed_raise: "framed F (raise e) Q"
  by (simp add: framed_def raise_apply)

lemma framed_gets: "framed F (gets f) (\<lambda>_. True)"
  by (simp add: framed_def gets_apply)

lemma framed_gets_request: "framed F (gets utils_request) (\<lambda>p. p = frame_request F)"
  by (auto simp: framed_def gets_apply in_frame_def)

lemma framed_gets_prefix: "framed F (gets prefix_ptr) (\<lambda>p. p = frame_prefix F)"
  by (auto simp: framed_def gets_apply in_frame_def)

lemma framed_if:
  "(b \<Longrightarrow> framed F m Q) \<Longrightarrow> (\<not> b \<Longrightarrow> framed F n Q) \<Longrightarrow> framed F (if b then m else n) Q"
  by simp

lemma framed_option:
  "framed F m Q \<Longrightarrow> (\<And>x. framed F (f x) Q) \<Longrightarrow> framed F (case opt of None \<Rightarrow> m | Some x \<Rightarrow> f x) Q"
  by (cases opt) simp_all

lemma framed_list:
  "framed F m Q \<Longrightarrow> (\<And>x xs. framed F (f x xs) Q) \<Longrightarrow> framed F (case l of [] \<Rightarrow> m | x # xs \<Rightarrow> f x xs) Q"
  by (cases l) simp_all

lemma framed_prod:
  "(\<And>x y. p = (x, y) \<Longrightarrow> framed F (f x y) Q) \<Longrightarrow> framed F (case p of (x, y) \<Rightarrow> f x y) Q"
  by (cases p) simp

lemma framed_pure:
  assumes "\<And>w x w'. m w = Inr (x, w') \<Longrightarrow> w' = w"
  shows "framed F m (\<lambda>_. True)"
  using assms by (fastforce simp: framed_def)

lemma framed_load_raw: "framed F (load_raw p n) (\<lambda>_. True)"
  by (rule framed_pure) (auto simp: load_raw_def split: ptr.splits option.splits if_splits)

lemma framed_load_as: "framed F (load_as dec n p) (\<lambda>_. True)"
  by (rule framed_pure)
    (auto simp: load_as_apply load_raw_def split: ptr.splits option.splits if_splits)

lemma in_frame_push_block: "in_frame F w \<Longrightarrow> in_frame F (push_block vs w)"
  by (simp add: in_frame_def)

lemma framed_malloc: "framed F (malloc n) (owned F)"
  by (rule framedI)
    (auto simp: malloc_def keeps_old_def in_frame_def split: if_splits)

lemma framed_stack_alloc: "framed F (stack_alloc vs) (owned F)"
  by (rule framedI) (auto simp: stack_alloc_def keeps_old_def in_frame_def heap_wf_def less_Suc_eq
      split: if_splits)

lemma framed_free: "owned F p \<Longrightarrow> framed F (free p) (\<lambda>_. True)"
  by (rule framedI) (auto simp: free_def keeps_old_def in_frame_def heap_wf_def
      split: ptr.splits option.splits if_splits)

lemma framed_stack_free: "owned F p \<Longrightarrow> framed F (stack_free p) (\<lambda>_. True)"
  by (rule framedI) (auto simp: stack_free_def keeps_old_def in_frame_def heap_wf_def
      split: ptr.splits if_splits)

lemma framed_store_raw: "writable F p \<Longrightarrow> framed F (store_raw p xs) (\<lambda>_. True)"
  by (rule framedI) (auto simp: store_raw_def keeps_old_def in_frame_def heap_wf_def
      split: ptr.splits option.splits if_splits)

lemma framed_store_as: "writable F p \<Longrightarrow> framed F (store_as enc p x) (\<lambda>_. True)"
  unfolding store_as_def by (rule framed_store_raw)

lemma framed_memcpy: "writable F p \<Longrightarrow> framed F (memcpy p q n) (\<lambda>_. True)"
  unfolding memcpy_def by (intro framed_if framed_raise framed_bindc_any framed_load_raw framed_store_raw)

lemma framed_memcpy_local: "writable F p \<Longrightarrow> framed F (memcpy_local p bs n) (\<lambda>_. True)"
  unfolding memcpy_local_def by (intro framed_if framed_raise framed_store_raw)

lemma framed_strcpy: "writable F p \<Longrightarrow> framed F (strcpy p cap s) (\<lambda>_. True)"
  unfolding strcpy_def by (intro framed_option framed_if framed_raise framed_store_raw)

lemma framed_sys: "framed F (sys c) (\<lambda>_. True)"
  by (rule framedI) (auto simp: sys_apply keeps_old_def in_frame_def heap_wf_def)

lemma framed_upd:
  "framed F (upd (Thread_sendRouterAdv_cancel_update f)) (\<lambda>_. True)"
  "framed F (upd (Thread_requestDhcpPrefix_cancel_update f)) (\<lambda>_. True)"
  "framed F (upd (Thread_listenRouterSolicit_cancel_update f)) (\<lambda>_. True)"
  "framed F (upd (utils_handler_update g)) (\<lambda>_. True)"
  by (rule framedI; auto simp: upd_apply keeps_old_def in_frame_def heap_wf_def)+

text \<open>The rules for the first statement of a sequence whose value matters, and the others; \<open>rule\<close>
  tries them in this order.\<close>

lemmas framed_bind = framed_malloc [THEN framed_bindc] framed_stack_alloc [THEN framed_bindc]
  framed_gets_request [THEN framed_bindc] framed_gets_prefix [THEN framed_bindc]

lemmas framed_rules = framed_bindc_any framed_thenc framed_raise framed_gets framed_if
  framed_option framed_list framed_prod framed_load_raw framed_load_as framed_free framed_stack_free
  framed_store_raw framed_store_as framed_memcpy framed_memcpy_local framed_strcpy framed_sys
  framed_upd framed_ret

section \<open>Options and packets\<close>

lemma framed_ndp_options:
  "framed F (ndp_createOptionLinkLayerAddressCore t mac) (owned F)"
  "framed F (ndp_createOptionPrefixInformation pl f v p a) (owned F)"
  "framed F (ndp_createOptionMtu mtu) (owned F)"
  "framed F (ndp_createOptionAdvertisementIntervalOption i) (owned F)"
  "framed F (ndp_createOptionRouteInformation pl pref lt a) (owned F)"
  unfolding ndp_createOptionLinkLayerAddressCore_def ndp_createOptionPrefixInformation_def
    ndp_createOptionMtu_def ndp_createOptionAdvertisementIntervalOption_def
    ndp_createOptionRouteInformation_def Let_def
  by (rule framed_bind framed_rules | simp; fail)+

lemma framed_dh_options:
  "framed F (dh_createCustomOptPayload c p n) (owned F)"
  "framed F (dh_createOption_IA_PD i p n) (owned F)"
  "framed F (dh_createOption_IAPrefix pt vt pl a) (owned F)"
  "framed F (dh_createOption_ClientIdentifier_En e p n) (owned F)"
  "framed F (dh_createOption_ElapsedTime t) (owned F)"
  unfolding dh_createCustomOptPayload_def dh_createOption_IA_PD_def dh_createOption_IAPrefix_def
    dh_createOption_ClientIdentifier_En_def dh_createOption_ElapsedTime_def Let_def
  by (rule framed_bind framed_rules | simp; fail)+

lemma framed_option_wrappers:
  "framed F (ndp_createOptionSourceLinkLayerAddress mac) (owned F)"
  "framed F (ndp_createOptionTargetLinkLayerAddress mac) (owned F)"
  "framed F (dh_createOptPayload c p n) (owned F)"
  "framed F dh_createOption_RapidCommit (owned F)"
  unfolding ndp_createOptionSourceLinkLayerAddress_def ndp_createOptionTargetLinkLayerAddress_def
    dh_createOption_RapidCommit_def dh_createOptPayload_def
  by (rule framed_ndp_options framed_dh_options)+

lemmas framed_bind_options = framed_ndp_options [THEN framed_bindc] framed_dh_options [THEN framed_bindc]
  framed_option_wrappers [THEN framed_bindc]

lemma framed_csum_loop: "(\<And>i. framed F (data i) (\<lambda>_. True)) \<Longrightarrow> framed F (csum_loop data i n acc) (\<lambda>_. True)"
  by (induction n arbitrary: i acc) (auto intro!: framed_rules)

lemma framed_checksum: "writable F p \<Longrightarrow> framed F (ndp_checksum buf src dst p sz) (\<lambda>_. True)"
  unfolding ndp_checksum_def ndp_checksumCalCore_def Let_def
  by (rule framed_csum_loop framed_rules | simp; fail)+

lemma framed_ra_collect: "framed F (ra_collect n ps len) (\<lambda>_. True)"
  by (induction n arbitrary: ps len) (auto intro!: framed_rules)

lemma framed_ra_copy: "writable F p \<Longrightarrow> framed F (ra_copy_options ps p) (\<lambda>_. True)"
  by (induction ps arbitrary: p) (auto simp: Let_def intro!: framed_rules)

lemma framed_createRAPacket:
  "framed F (ndp_createRAPacket src dst hop lt rt rtt n ps) (\<lambda>(p, _). owned F p)"
  unfolding ndp_createRAPacket_def
  by (rule framed_bind framed_ra_collect framed_ra_copy framed_checksum framed_rules | simp; fail)+

lemma framed_packet_length: "framed F (dh_packet_length arr i n len) (\<lambda>_. True)"
  by (induction n arbitrary: i len) (auto intro!: framed_rules)

lemma framed_copy_options: "writable F p \<Longrightarrow> framed F (dh_copy_options arr p i n off) (\<lambda>_. True)"
  by (induction n arbitrary: i off) (auto simp: Let_def intro!: framed_rules)

lemma framed_store_varargs: "writable F arr \<Longrightarrow> framed F (dh_store_varargs arr i n ps) (\<lambda>_. True)"
  by (induction n arbitrary: i ps) (auto intro!: framed_rules)

lemma framed_createPacket: "framed F (dh_createPacket ty t arr n) (\<lambda>_. True)"
  unfolding dh_createPacket_def
  by (rule framed_bind framed_packet_length framed_copy_options framed_rules | simp; fail)+

lemma framed_CustomizedSolicit:
  "framed F (dh_CreateCustomizedSolicitPacket clock rng old c e i n ps) (\<lambda>_. True)"
  unfolding dh_CreateCustomizedSolicitPacket_def Let_def
  by (rule framed_bind framed_store_varargs framed_createPacket framed_rules | simp; fail)+

lemma framed_solicit_builders:
  "framed F (dh_createSolicitPacket clock rng old client sz t i) (\<lambda>_. True)"
  "framed F (dh_createRapidSolicitPacket clock rng old client sz t i) (\<lambda>_. True)"
  "framed F (dh_createCustomizedRequestPacket old client t i) (\<lambda>_. True)"
  unfolding dh_createSolicitPacket_def dh_createRapidSolicitPacket_def
    dh_createCustomizedRequestPacket_def
  by (rule framed_bind_options framed_CustomizedSolicit framed_rules | simp; fail)+

lemma framed_parseOptions:
  assumes "writable F pkt"
  shows "framed F (dh_parseOptions pkt sz) (\<lambda>_. True)"
proof (rule framedI)
  fix w r w' assume w: "in_frame F w" and run: "dh_parseOptions pkt sz w = Inr (r, w')"
  note same = same_globals_more(1) [OF heap_onlyD [OF heap_only_parseOptions run]]
  show "in_frame F w' \<and> keeps_old F w w' \<and> True"
  proof (cases pkt)
    case (Ptr b k)
    have wf: "heap_wf w" and base: "frame_base F \<le> next_block w" using w by (simp_all add: in_frame_def)
    note frame = dh_parseOptions_frame [OF wf run [unfolded Ptr]]
    have "in_frame F w'" using w frame same by (auto simp: in_frame_def same_globals_def)
    moreover have "keeps_old F w w'"
      unfolding keeps_old_def
    proof (intro allI impI)
      fix c assume c: "c < frame_base F"
      show "(c \<notin> frame_writes F \<longrightarrow> blocks w' c = blocks w c) \<and>
          map_option length (blocks w' c) = map_option length (blocks w c)"
        using frame base c assms Ptr by (cases "c = b") auto
    qed
    ultimately show ?thesis by simp
  next
    case Null
    with w run show ?thesis
      by (auto simp: dh_parseOptions_def cm_simps Let_def split: if_splits)
  next
    case Wild
    with w run show ?thesis
      by (auto simp: dh_parseOptions_def cm_simps Let_def split: if_splits)
  qed
qed

section \<open>Interface queries\<close>

lemma framed_getHardwareAddress:
  assumes "writable F (frame_request F)" and "writable F mac"
  shows "framed F (utils_getHardwareAddressByName hw errno mac) (\<lambda>_. True)"
  unfolding utils_getHardwareAddressByName_def
  by (rule framed_bind framed_rules | simp add: assms; fail)+

lemma framed_getLinkLocalAddress:
  "framed F (utils_getLinkLocalAddress connect getsockname errno old) (\<lambda>_. True)"
  unfolding utils_getLinkLocalAddress_def Let_def
  by (rule framed_rules | simp; fail)+

lemma framed_utils_Dispose: "framed F (utils_Dispose close) (\<lambda>_. True)"
  unfolding utils_Dispose_def
  by (rule framed_rules | simp; fail)+

section \<open>Exchanges\<close>

lemma framed_sendRouterAdv:
  "framed F (sendRouterAdv handler mac src dst prefix len valid preferred) (\<lambda>_. True)"
  unfolding sendRouterAdv_def
  by (rule framed_bind_options framed_createRAPacket [THEN framed_bindc] framed_rules | simp; fail)+

lemma framed_rs_loop: "writable F p \<Longrightarrow> framed F (rs_loop p answers addr) (\<lambda>_. True)"
  by (induction answers arbitrary: addr) (auto intro!: framed_rules)

lemma framed_receive_solicit: "framed F (ReceiveSrcAddrFromRouterSolicit answers) (\<lambda>_. True)"
  unfolding ReceiveSrcAddrFromRouterSolicit_def
  by (rule framed_bind framed_rs_loop framed_rules | simp; fail)+

lemma framed_hex_loop: "framed F (hex_loop mem sz i n) (\<lambda>_. True)"
  by (induction n arbitrary: i) (auto intro!: framed_rules)

lemma framed_print_memory: "framed F (print_memory_hex mem sz) (\<lambda>_. True)"
  unfolding print_memory_hex_def by (rule framed_hex_loop framed_rules | simp; fail)+

lemma framed_dhcp_solicit: "framed F (dhcp_solicit clock rng p) (\<lambda>_. True)"
  unfolding dhcp_solicit_def
  by (rule framed_bind_options framed_CustomizedSolicit framed_rules | simp; fail)+

lemma framed_dhcp_receive:
  assumes "writable F buffer" and "writable F dst"
  shows "framed F (dhcp_receive recv handler buffer n dst) (\<lambda>_. True)"
  unfolding dhcp_receive_def dhcp_take_prefix_def Let_def
  by (rule framed_print_memory framed_parseOptions framed_rules | use assms in auto; fail)+

lemma framed_exchange:
  assumes "writable F buffer" and "writable F dst"
  shows "framed F (requestAndReceiveDhcp clock rng sendto recv handler buffer n dst) (\<lambda>_. True)"
  unfolding requestAndReceiveDhcp_def
  by (rule framed_bind framed_dhcp_solicit framed_print_memory framed_dhcp_receive [OF assms] framed_rules
      | simp; fail)+

section \<open>Threads\<close>

lemma framed_handle: "framed F (handle close) (\<lambda>_. True)"
  unfolding handle_def by (rule framed_utils_Dispose framed_rules | simp; fail)+

lemma framed_on_signal: "framed F (on_signal signal) (\<lambda>_. True)"
  unfolding on_signal_def by (rule framed_handle framed_rules | simp; fail)+

lemma framed_advertise_prefix: "framed F (advertise_prefix handler mac src dst) (\<lambda>_. True)"
  unfolding advertise_prefix_def by (rule framed_sendRouterAdv framed_rules | simp; fail)+

lemma framed_ra_round:
  assumes "writable F (frame_request F)"
  shows "framed F (sendRouterAdv_round connect getsockname hw errno handler secs) (\<lambda>_. True)"
  unfolding sendRouterAdv_round_def
  by (rule framed_bind framed_getLinkLocalAddress framed_getHardwareAddress framed_advertise_prefix
      framed_rules | simp add: assms; fail)+

lemma framed_rs_round:
  assumes "writable F (frame_request F)"
  shows "framed F (listenRouterSolicit_round connect getsockname answers hw errno handler) (\<lambda>_. True)"
  unfolding listenRouterSolicit_round_def
  by (rule framed_bind framed_getLinkLocalAddress framed_receive_solicit framed_getHardwareAddress
      framed_advertise_prefix framed_rules | simp add: assms; fail)+

lemma framed_dhcp_round:
  assumes "writable F (frame_prefix F)" and "writable F buffer"
  shows "framed F (requestDhcpPrefix_round clock rng sendto recv handler buffer mtu) (\<lambda>_. True)"
  unfolding requestDhcpPrefix_round_def
  by (rule framed_bind framed_exchange framed_rules | simp add: assms; fail)+

lemma framed_ra_loop:
  assumes "writable F (frame_request F)"
  shows "framed F (sendRouterAdv_loop answers handler secs) (\<lambda>_. True)"
  by (induction answers) (auto intro!: framed_ra_round framed_on_signal framed_rules assms)

lemma framed_rs_thread_loop:
  assumes "writable F (frame_request F)"
  shows "framed F (listenRouterSolicit_loop answers handler) (\<lambda>_. True)"
  by (induction answers) (auto intro!: framed_rs_round framed_on_signal framed_rules assms)

lemma framed_dhcp_loop:
  assumes "writable F (frame_prefix F)" and "writable F buffer"
  shows "framed F (requestDhcpPrefix_loop answers handler buffer mtu) (\<lambda>_. True)"
  by (induction answers) (auto intro!: framed_dhcp_round framed_on_signal framed_rules assms)

lemma framed_Thread_sendRouterAdv:
  assumes "writable F (frame_request F)"
  shows "framed F (Thread_sendRouterAdv socket setsockopt name secs answers) (\<lambda>_. True)"
  unfolding Thread_sendRouterAdv_def Let_def
  by (rule framed_bind framed_ra_loop framed_rules | simp add: assms; fail)+

lemma framed_Thread_requestDhcpPrefix:
  assumes "writable F (frame_prefix F)"
  shows "framed F (Thread_requestDhcpPrefix socket setsockopt index bind mtu name answers) (\<lambda>_. True)"
  unfolding Thread_requestDhcpPrefix_def Let_def
  by (rule framed_bind framed_dhcp_loop framed_rules | simp add: assms; fail)+

lemma framed_Thread_listenRouterSolicit:
  assumes "writable F (frame_request F)"
  shows "framed F (Thread_listenRouterSolicit socket socket' bindif bindif' join bind name answers) (\<lambda>_. True)"
  unfolding Thread_listenRouterSolicit_def Let_def
  by (rule framed_bind framed_rs_thread_loop framed_rules | simp add: assms; fail)+

section \<open>Objects a call may write\<close>

text \<open>
  \<open>writes_at_most W m\<close>: called in any state, \<open>m\<close> leaves the contents of all objects that exist
  alone, except those of the blocks \<open>W\<close>, and frees and resizes none at all.
\<close>

fun block_of :: "ptr \<Rightarrow> nat set" where
  "block_of (Ptr b k) = {b}"
| "block_of _ = {}"

definition writes_at_most :: "('z world_scheme \<Rightarrow> nat set) \<Rightarrow> ('z world_scheme, 'a) cm \<Rightarrow> bool" where
  "writes_at_most W m \<longleftrightarrow> (\<forall>w x w'. heap_wf w \<longrightarrow> m w = Inr (x, w') \<longrightarrow>
     heap_wf w' \<and> utils_request w' = utils_request w \<and> prefix_ptr w' = prefix_ptr w \<and>
     next_block w \<le> next_block w' \<and>
     (\<forall>b < next_block w. (b \<notin> W w \<longrightarrow> blocks w' b = blocks w b) \<and>
       map_option length (blocks w' b) = map_option length (blocks w b)))"

lemma writes_at_mostD:
  assumes "writes_at_most W m" and "heap_wf w" and "m w = Inr (x, w')"
  shows "heap_wf w'" and "utils_request w' = utils_request w" and "prefix_ptr w' = prefix_ptr w"
    and "next_block w \<le> next_block w'"
    and "b < next_block w \<Longrightarrow> b \<notin> W w \<Longrightarrow> blocks w' b = blocks w b"
    and "b < next_block w \<Longrightarrow> map_option length (blocks w' b) = map_option length (blocks w b)"
  using assms unfolding writes_at_most_def by blast+

definition frame_of :: "nat set \<Rightarrow> 'z world_scheme \<Rightarrow> frame" where
  "frame_of bs w = \<lparr>frame_base = next_block w, frame_writes = bs, frame_request = utils_request w,
     frame_prefix = prefix_ptr w\<rparr>"

lemma frame_of_fields [simp]:
  "frame_writes (frame_of bs w) = bs" "frame_request (frame_of bs w) = utils_request w"
  "frame_prefix (frame_of bs w) = prefix_ptr w" "frame_base (frame_of bs w) = next_block w"
  by (simp_all add: frame_of_def)

lemma writable_block_of: "block_of p \<subseteq> frame_writes F \<Longrightarrow> writable F p"
  by (cases p) simp_all

lemma framed_writes_at_most:
  assumes "\<And>w. framed (frame_of (W w) w) m (\<lambda>_. True)"
  shows "writes_at_most W m"
  unfolding writes_at_most_def
proof (intro allI impI)
  fix w x w' assume wf: "heap_wf w" and run: "m w = Inr (x, w')"
  have "in_frame (frame_of (W w) w) w" using wf by (simp add: in_frame_def)
  from framedD [OF assms this run]
  show "heap_wf w' \<and> utils_request w' = utils_request w \<and> prefix_ptr w' = prefix_ptr w \<and>
     next_block w \<le> next_block w' \<and>
     (\<forall>b < next_block w. (b \<notin> W w \<longrightarrow> blocks w' b = blocks w b) \<and>
       map_option length (blocks w' b) = map_option length (blocks w b))"
    by (simp add: in_frame_def keeps_old_def)
qed

text \<open>C6: What the functions may write, whatever the system calls answer: building an option, a
  packet or a message, and sending it, nothing that existed; the parser the packet; the two
  advertising threads the request of the interface; the DHCPv6 thread the prefix.\<close>

theorem functions_write:
  "writes_at_most (\<lambda>_. {}) (dh_CreateCustomizedSolicitPacket clock rng old client elapsed iapd num opts) \<and>
   writes_at_most (\<lambda>_. {}) (sendRouterAdv handler mac src dst prefix len valid preferred) \<and>
   writes_at_most (\<lambda>_. block_of pkt) (dh_parseOptions pkt sz) \<and>
   writes_at_most (\<lambda>_. block_of buffer \<union> block_of result)
     (requestAndReceiveDhcp clock rng sendto recv handler buffer n result) \<and>
   writes_at_most (\<lambda>w. block_of (utils_request w))
     (Thread_sendRouterAdv socket setsockopt lan secs ra_answers) \<and>
   writes_at_most (\<lambda>w. block_of (utils_request w))
     (Thread_listenRouterSolicit socket socket' bindif bindif' join bind lan rs_answers) \<and>
   writes_at_most (\<lambda>w. block_of (prefix_ptr w))
     (Thread_requestDhcpPrefix socket setsockopt index bind mtu wan dhcp_answers)"
  by (intro conjI framed_writes_at_most framed_CustomizedSolicit framed_sendRouterAdv
      framed_parseOptions framed_exchange framed_Thread_sendRouterAdv
      framed_Thread_listenRouterSolicit framed_Thread_requestDhcpPrefix writable_block_of) simp_all

end
