(* ===== verification/Collection.thy ===== *)
theory Collection
  imports C_Memory
begin

text \<open>
  \<open>Src/collection.c\<close>: the unrolled doubly linked list \<open>Utils_MixedList\<close>, whose nodes hold 64
  pointers each. Only the lookup is written; the constructor has no body, \<open>Set\<close> stores
  nothing and \<open>Free\<close> frees nothing. The file compiles into the program and the library but
  nothing calls it.
\<close>

section \<open>Operations\<close>

definition UTILS_MIXED_LIST_UNIT_LEN :: u32 where
  "UTILS_MIXED_LIST_UNIT_LEN = 64"

definition UTILS_MIXED_LIST_UNIT_FAST_INDEX :: bool where
  "UTILS_MIXED_LIST_UNIT_FAST_INDEX = True"

text \<open>
  \<open>Utils_MixedListNode\<close>: 64 pointers, then the neighbours. \<open>Utils_MixedList\<close>: the count and
  the two ends.
\<close>

abbreviation (input) mixed_data :: "ptr \<Rightarrow> nat \<Rightarrow> ptr" where "mixed_data p i \<equiv> ptr_add p (8 * i)"
definition mixed_prev :: "ptr \<Rightarrow> ptr" where "mixed_prev p = ptr_add p 512"
definition mixed_next :: "ptr \<Rightarrow> ptr" where "mixed_next p = ptr_add p 520"
abbreviation (input) list_count :: "ptr \<Rightarrow> ptr" where "list_count p \<equiv> ptr_add p 0"
abbreviation (input) list_head :: "ptr \<Rightarrow> ptr" where "list_head p \<equiv> ptr_add p 8"
abbreviation (input) list_tail :: "ptr \<Rightarrow> ptr" where "list_tail p \<equiv> ptr_add p 16"

text \<open>The body is empty: there is no value for a caller to use.\<close>

definition Utils_MixedListCreate :: "('z cheap_scheme, ptr) cm" where
  "Utils_MixedListCreate = raise MissingReturn"

text \<open>Following a link \<open>n\<close> times; \<open>link\<close> is \<open>mixed_next\<close> or \<open>mixed_prev\<close>.\<close>

primrec mixed_walk :: "(ptr \<Rightarrow> ptr) \<Rightarrow> nat \<Rightarrow> ptr \<Rightarrow> ('z cheap_scheme, ptr) cm" where
  "mixed_walk link 0 p = ret p"
| "mixed_walk link (Suc n) p = bindc (load_ptr (link p)) (mixed_walk link n)"

definition Utils_MixedListIndex :: "ptr \<Rightarrow> u32 \<Rightarrow> ('z cheap_scheme, ptr) cm" where
  "Utils_MixedListIndex list index =
     (if list = Null then ret Null
      else
        bindc (load64 (list_count list)) (\<lambda>count.
        if ucast index > count - 1 then ret Null
        else
          bindc (load64 (list_count list)) (\<lambda>count.
          bindc
            (if ucast index < (count - 1) div 2
             then
               let unitSeq = index div UTILS_MIXED_LIST_UNIT_LEN in
               bindc (load_ptr (list_head list)) (mixed_walk mixed_next (unat unitSeq))
             else
               bindc (load64 (list_count list)) (\<lambda>count.
               let unitSeq = (ucast ((count - 1 - ucast index) div ucast UTILS_MIXED_LIST_UNIT_LEN) :: u32) in
               bindc (load_ptr (list_tail list)) (mixed_walk mixed_prev (unat unitSeq)))) (\<lambda>p.
          let uintIndex = (if UTILS_MIXED_LIST_UNIT_FAST_INDEX
                           then index AND (UTILS_MIXED_LIST_UNIT_LEN - 1)
                           else index mod UTILS_MIXED_LIST_UNIT_LEN)
          in ret (mixed_data p (unat uintIndex))))))"

definition Utils_MixedListGet :: "ptr \<Rightarrow> u32 \<Rightarrow> ('z cheap_scheme, ptr) cm" where
  "Utils_MixedListGet list index = bindc (Utils_MixedListIndex list index) load_ptr"

definition Utils_MixedListSet :: "ptr \<Rightarrow> u32 \<Rightarrow> ptr \<Rightarrow> ('z cheap_scheme, unit) cm" where
  "Utils_MixedListSet list index p =
     (if list = Null then ret ()
      else
        bindc (load64 (list_count list)) (\<lambda>count.
        if ucast index \<le> count - 1 then thenc (Utils_MixedListIndex list index) (ret ())
        else ret ()))"

definition Utils_MixedListFree :: "ptr \<Rightarrow> ('z cheap_scheme, unit) cm" where
  "Utils_MixedListFree list = ret ()"

section \<open>Lists in memory\<close>

text \<open>
  \<open>mixed_list h l count ns ds\<close>: at \<open>l\<close> there is a list of \<open>count\<close> elements whose nodes are
  the blocks \<open>ns\<close>, linked both ways, with the slots \<open>ds\<close>. Its slots in order are
  \<open>concat ds\<close>, of which the first \<open>count\<close> are the elements.
\<close>

definition mixed_node :: "'z cheap_scheme \<Rightarrow> nat \<Rightarrow> ptr list \<Rightarrow> ptr \<Rightarrow> ptr \<Rightarrow> bool" where
  "mixed_node h b data prev next \<longleftrightarrow> length data = 64 \<and>
     blocks h b = Some (concat (map ptr_enc data) @ ptr_enc prev @ ptr_enc next)"

definition mixed_link :: "nat list \<Rightarrow> nat \<Rightarrow> ptr" where
  "mixed_link ns i = (if i < length ns then Ptr (ns ! i) 0 else Null)"

definition mixed_list :: "'z cheap_scheme \<Rightarrow> ptr \<Rightarrow> nat \<Rightarrow> nat list \<Rightarrow> ptr list list \<Rightarrow> bool" where
  "mixed_list h l count ns ds \<longleftrightarrow>
     (\<exists>b. l = Ptr b 0 \<and> blocks h b = Some (int_enc 8 (of_nat count :: u64) @
        ptr_enc (mixed_link ns 0) @ ptr_enc (if ns = [] then Null else Ptr (last ns) 0))) \<and>
     length ds = length ns \<and> length ns = (count + 63) div 64 \<and>
     (\<forall>i < length ns. mixed_node h (ns ! i) (ds ! i)
        (if i = 0 then Null else Ptr (ns ! (i - 1)) 0) (mixed_link ns (Suc i)))"

lemma length_concat_ptr_enc: "length (concat (map ptr_enc data)) = 8 * length data"
  by (induction data) simp_all

lemma segment_concat_ptr_enc:
  "i < length data \<Longrightarrow> segment (8 * i) 8 (concat (map ptr_enc data) @ rest) = ptr_enc (data ! i)"
proof (induction data arbitrary: i)
  case Nil
  then show ?case by simp
next
  case (Cons p data)
  then show ?case by (cases i) (simp_all add: segment_def)
qed

lemma mixed_node_loads:
  assumes "mixed_node h b data prev next"
  shows "i < 64 \<Longrightarrow> load_ptr (Ptr b (8 * i)) h = Inr (data ! i, h)"
    and "load_ptr (mixed_prev (Ptr b 0)) h = Inr (prev, h)"
    and "load_ptr (mixed_next (Ptr b 0)) h = Inr (next, h)"
proof -
  have len: "length data = 64"
    and blk: "blocks h b = Some (concat (map ptr_enc data) @ ptr_enc prev @ ptr_enc next)"
    using assms by (simp_all add: mixed_node_def)
  show "load_ptr (Ptr b (8 * i)) h = Inr (data ! i, h)" if "i < 64"
  proof -
    have "8 * i + 8 \<le> 8 * 64 + 16" using that by linarith
    then show ?thesis using that blk len
      by (simp add: cm_simps length_concat_ptr_enc segment_concat_ptr_enc ptr_t.dec_enc)
  qed
  show "load_ptr (mixed_prev (Ptr b 0)) h = Inr (prev, h)"
    and "load_ptr (mixed_next (Ptr b 0)) h = Inr (next, h)"
    using blk len
    by (simp_all add: mixed_prev_def mixed_next_def cm_simps length_concat_ptr_enc segment_def
        ptr_t.dec_enc)
qed

lemma mixed_list_fields:
  assumes "mixed_list h l count ns ds"
  shows "load64 (list_count l) h = Inr (of_nat count, h)"
    and "load_ptr (list_head l) h = Inr (mixed_link ns 0, h)"
    and "load_ptr (list_tail l) h = Inr (if ns = [] then Null else Ptr (last ns) 0, h)"
    and "l \<noteq> Null"
  using assms
  by (auto simp: mixed_list_def cm_simps segment_def u64_t.dec_enc ptr_t.dec_enc)

lemma mixed_list_node:
  "mixed_list h l count ns ds \<Longrightarrow> i < length ns \<Longrightarrow> mixed_node h (ns ! i) (ds ! i)
     (if i = 0 then Null else Ptr (ns ! (i - 1)) 0) (mixed_link ns (Suc i))"
  by (simp add: mixed_list_def)

text \<open>Walking reaches the node that many links away, in either direction.\<close>

lemma mixed_walk_next:
  assumes "mixed_list h l count ns ds" and "i + n < length ns"
  shows "mixed_walk mixed_next n (Ptr (ns ! i) 0) h = Inr (Ptr (ns ! (i + n)) 0, h)"
  using assms(2)
proof (induction n arbitrary: i)
  case 0
  then show ?case by (simp add: cm_simps)
next
  case (Suc n)
  from mixed_node_loads(3) [OF mixed_list_node [OF assms(1), of i]] Suc.prems
  have "load_ptr (mixed_next (Ptr (ns ! i) 0)) h = Inr (Ptr (ns ! Suc i) 0, h)"
    by (simp add: mixed_link_def)
  then show ?case using Suc.IH [of "Suc i"] Suc.prems by (simp add: bindc_apply)
qed

lemma mixed_walk_prev:
  assumes "mixed_list h l count ns ds" and "i < length ns" and "n \<le> i"
  shows "mixed_walk mixed_prev n (Ptr (ns ! i) 0) h = Inr (Ptr (ns ! (i - n)) 0, h)"
  using assms(2,3)
proof (induction n arbitrary: i)
  case 0
  then show ?case by (simp add: cm_simps)
next
  case (Suc n)
  from mixed_node_loads(2) [OF mixed_list_node [OF assms(1), of i]] Suc.prems
  have "load_ptr (mixed_prev (Ptr (ns ! i) 0)) h = Inr (Ptr (ns ! (i - 1)) 0, h)"
    by auto
  then show ?case using Suc.IH [of "i - 1"] Suc.prems by (simp add: bindc_apply)
qed

section \<open>The slot a lookup reaches\<close>

text \<open>The node, counted from the head, and the position in the sequence of all slots.\<close>

definition mixed_unit :: "nat \<Rightarrow> nat \<Rightarrow> nat" where
  "mixed_unit count index = (if index < (count - 1) div 2 then index div 64
     else (count - 1) div 64 - (count - 1 - index) div 64)"

definition mixed_slot :: "nat \<Rightarrow> nat \<Rightarrow> nat" where
  "mixed_slot count index = 64 * mixed_unit count index + index mod 64"

text \<open>The distance from the end, in units, for position \<open>64 * q + r\<close> and last position \<open>64 * t + u\<close>.\<close>

lemma units_from_end:
  fixes q r t u :: nat
  assumes "r < 64" and "u < 64" and "64 * q + r \<le> 64 * t + u"
  shows "(64 * t + u - (64 * q + r)) div 64 = (if r \<le> u then t - q else t - q - 1)"
    and "r \<le> u \<Longrightarrow> q \<le> t" and "u < r \<Longrightarrow> q < t"
proof -
  show le: "r \<le> u \<Longrightarrow> q \<le> t" and less: "u < r \<Longrightarrow> q < t" using assms by linarith+
  show "(64 * t + u - (64 * q + r)) div 64 = (if r \<le> u then t - q else t - q - 1)"
  proof (cases "r \<le> u")
    case True
    then have "64 * t + u - (64 * q + r) = 64 * (t - q) + (u - r)" using le by simp
    then show ?thesis using True assms(2) by simp
  next
    case False
    then have "q < t" using less by simp
    then obtain d where "t = q + Suc d" by (auto simp: less_iff_Suc_add)
    then have "64 * t + u - (64 * q + r) = 64 * (t - q - 1) + (64 + u - r)" using assms(1) by simp
    moreover have "64 + u - r < 64" using False by simp
    ultimately show ?thesis using False by simp
  qed
qed

lemma mixed_units:
  fixes index count :: nat
  assumes "index < count"
  shows "(count - 1 - index) div 64 = (count - 1) div 64 - index div 64 -
      (if index mod 64 \<le> (count - 1) mod 64 then 0 else 1)"
    and "index mod 64 \<le> (count - 1) mod 64 \<Longrightarrow> index div 64 \<le> (count - 1) div 64"
    and "(count - 1) mod 64 < index mod 64 \<Longrightarrow> index div 64 < (count - 1) div 64"
proof -
  have "64 * (index div 64) + index mod 64 \<le> 64 * ((count - 1) div 64) + (count - 1) mod 64"
    using assms by simp
  note units_from_end [OF _ _ this]
  then show "(count - 1 - index) div 64 = (count - 1) div 64 - index div 64 -
      (if index mod 64 \<le> (count - 1) mod 64 then 0 else 1)"
    and "index mod 64 \<le> (count - 1) mod 64 \<Longrightarrow> index div 64 \<le> (count - 1) div 64"
    and "(count - 1) mod 64 < index mod 64 \<Longrightarrow> index div 64 < (count - 1) div 64"
    by simp_all
qed

lemma mixed_slot_right:
  assumes "index < count"
    and "index < (count - 1) div 2 \<or> index mod 64 \<le> (count - 1) mod 64"
  shows "mixed_slot count index = index"
  using assms(2) mixed_units [OF assms(1)] by (auto simp: mixed_slot_def mixed_unit_def)

lemma mixed_slot_wrong:
  assumes "index < count" and "(count - 1) div 2 \<le> index" and "(count - 1) mod 64 < index mod 64"
  shows "mixed_slot count index = index + 64"
  using assms(2,3) mixed_units [OF assms(1)] by (simp add: mixed_slot_def mixed_unit_def)

lemma mixed_unit_less:
  assumes "index < count"
  shows "mixed_unit count index < (count + 63) div 64"
proof -
  have "index div 64 \<le> (count - 1) div 64" using assms by (intro div_le_mono) simp
  then have "mixed_unit count index \<le> (count - 1) div 64" by (simp add: mixed_unit_def)
  also have "count + 63 = (count - 1) + 64" using assms by simp
  then have "(count - 1) div 64 < (count + 63) div 64" by simp
  finally show ?thesis .
qed

section \<open>What the lookup does\<close>

text \<open>The machine arithmetic of the lookup, over the natural numbers.\<close>

lemma mixed_words:
  fixes index :: u32
  assumes "unat index < count" and "count < 4294967296"
  shows "\<not> ucast index > (of_nat count - 1 :: u64)"
    and "ucast index < (of_nat count - 1 :: u64) div 2 \<longleftrightarrow> unat index < (count - 1) div 2"
    and "unat (ucast ((of_nat count - 1 - ucast index :: u64) div 64) :: u32) = (count - 1 - unat index) div 64"
    and "unat (index div 64) = unat index div 64"
    and "unat (index AND (64 - 1)) = unat index mod 64"
proof -
  let ?i = "unat index"
  have "(of_nat count - 1 :: u64) = of_nat (count - 1)" using assms(1) by (simp add: of_nat_diff)
  then have c: "unat (of_nat count - 1 :: u64) = count - 1"
    using assms(2) by (simp add: unat_of_nat)
  have i: "unat (ucast index :: u64) = ?i" by (simp add: unat_ucast_up)
  show in_range: "\<not> ucast index > (of_nat count - 1 :: u64)"
    using assms(1) by (simp add: word_less_nat_alt c i)
  show "ucast index < (of_nat count - 1 :: u64) div 2 \<longleftrightarrow> ?i < (count - 1) div 2"
    by (simp add: word_less_nat_alt i unat_div_distrib c)
  have "unat (of_nat count - 1 - ucast index :: u64) = count - 1 - ?i"
    using in_range by (simp add: unat_sub c i not_less)
  then have "unat ((of_nat count - 1 - ucast index :: u64) div 64) = (count - 1 - ?i) div 64"
    by (simp add: unat_div_distrib)
  moreover have "(count - 1 - ?i) div 64 < 4294967296"
    using assms(2) div_le_dividend [of "count - 1 - ?i" 64] by linarith
  ultimately show "unat (ucast ((of_nat count - 1 - ucast index :: u64) div 64) :: u32) = (count - 1 - ?i) div 64"
    by (simp add: unsigned_ucast_eq take_bit_nat_eq_self)
  show "unat (index div 64) = ?i div 64" by (simp add: unat_div_distrib)
  have "(64 - 1 :: u32) = mask 6" by (simp add: mask_eq_exp_minus_1)
  then have "index AND (64 - 1) = take_bit 6 index" by (simp only: take_bit_eq_mask)
  then show "unat (index AND (64 - 1)) = ?i mod 64"
    by (simp add: take_bit_eq_mod unat_mod_distrib)
qed

text \<open>The walk from the end, for an index of the rear half.\<close>

lemma mixed_walk_from_end:
  assumes "mixed_list h l count ns ds" and "index < count" and "(count - 1) div 2 \<le> index"
  shows "mixed_walk mixed_prev ((count - 1 - index) div 64) (Ptr (last ns) 0) h =
    Inr (Ptr (ns ! mixed_unit count index) 0, h)"
proof -
  let ?n = "(count - 1 - index) div 64"
  have len: "length ns = (count + 63) div 64" using assms(1) by (simp add: mixed_list_def)
  have ne: "ns \<noteq> []" using mixed_unit_less [OF assms(2)] len by auto
  have last: "last ns = ns ! (length ns - 1)" using ne by (simp add: last_conv_nth)
  have l1: "length ns - 1 = (count - 1) div 64" using len assms(2) by simp
  have "?n \<le> (count - 1) div 64" by (intro div_le_mono) simp
  then have "?n \<le> length ns - 1" by (simp only: l1)
  moreover have "length ns - 1 < length ns" using ne by simp
  ultimately have "mixed_walk mixed_prev ?n (Ptr (ns ! (length ns - 1)) 0) h =
      Inr (Ptr (ns ! (length ns - 1 - ?n)) 0, h)"
    by (intro mixed_walk_prev [OF assms(1)])
  moreover have "length ns - 1 - ?n = mixed_unit count index"
    using assms(3) by (simp add: mixed_unit_def l1 [unfolded One_nat_def])
  ultimately show ?thesis by (simp add: last)
qed

lemma mixed_index_run:
  fixes index :: u32 and h :: "'z cheap_scheme"
  assumes "mixed_list h l count ns ds" and "unat index < count" and "count < 4294967296"
  shows "Utils_MixedListIndex l index h =
    Inr (Ptr (ns ! mixed_unit count (unat index)) (8 * (unat index mod 64)), h)"
proof -
  let ?i = "unat index"
  note words = mixed_words [OF assms(2,3)]
  have unit: "mixed_unit count ?i < length ns"
    using mixed_unit_less [OF assms(2)] assms(1) by (simp add: mixed_list_def)
  then have ne: "ns \<noteq> []" by auto
  let ?walk = "\<lambda>count. if ucast index < (count - 1 :: u64) div 2
     then bindc (load_ptr (list_head l)) (mixed_walk mixed_next (unat (index div 64)))
     else bindc (load64 (list_count l)) (\<lambda>count.
       bindc (load_ptr (list_tail l))
         (mixed_walk mixed_prev (unat (ucast ((count - 1 - ucast index) div 64) :: u32))))"
  have walk: "?walk (of_nat count) h = Inr (Ptr (ns ! mixed_unit count ?i) 0, h)"
  proof (cases "?i < (count - 1) div 2")
    case True
    then show ?thesis
      using words(2,4) ne unit mixed_list_fields [OF assms(1)]
        mixed_walk_next [OF assms(1), of 0 "mixed_unit count ?i"]
      by (simp add: bindc_apply mixed_link_def mixed_unit_def)
  next
    case False
    then show ?thesis
      using words(2,3) ne mixed_list_fields [OF assms(1)] mixed_walk_from_end [OF assms(1,2)]
      by (simp add: bindc_apply)
  qed
  have ld: "bindc (load64 (list_count l)) f h = f (of_nat count) h" for f :: "u64 \<Rightarrow> ('z cheap_scheme, ptr) cm"
    using mixed_list_fields(1) [OF assms(1)] by (simp add: bindc_apply)
  have "Utils_MixedListIndex l index h = bindc (?walk (of_nat count))
      (\<lambda>p. ret (mixed_data p (unat (index AND (64 - 1))))) h"
    using words(1) mixed_list_fields(4) [OF assms(1)]
    by (simp add: Utils_MixedListIndex_def UTILS_MIXED_LIST_UNIT_LEN_def
        UTILS_MIXED_LIST_UNIT_FAST_INDEX_def Let_def ld)
  then show ?thesis by (simp only: bindc_apply walk words(5)) (simp add: ret_apply)
qed

lemma nth_concat_chunks:
  "\<forall>d \<in> set ds. length d = 64 \<Longrightarrow> u < length ds \<Longrightarrow> k < 64 \<Longrightarrow>
     concat ds ! (64 * u + k) = ds ! u ! k"
proof (induction ds arbitrary: u)
  case Nil
  then show ?case by simp
next
  case (Cons d ds)
  then show ?case by (cases u) (simp_all add: nth_append)
qed

lemma mixed_get_run:
  fixes index :: u32
  assumes "mixed_list h l count ns ds" and "unat index < count" and "count < 4294967296"
  shows "Utils_MixedListGet l index h = Inr (concat ds ! mixed_slot count (unat index), h)"
proof -
  let ?u = "mixed_unit count (unat index)" and ?k = "unat index mod 64"
  have len: "length ds = length ns" "length ns = (count + 63) div 64"
    using assms(1) by (simp_all add: mixed_list_def)
  have u: "?u < length ns" using mixed_unit_less [OF assms(2)] len by simp
  note node = mixed_list_node [OF assms(1) u]
  have l64: "\<forall>d \<in> set ds. length d = 64"
    using mixed_list_node [OF assms(1)] len(1)
    by (auto simp: in_set_conv_nth mixed_node_def)
  have "concat ds ! (64 * ?u + ?k) = ds ! ?u ! ?k"
    using nth_concat_chunks [OF l64, of ?u ?k] u len(1) by simp
  then show ?thesis
    using mixed_index_run [OF assms] mixed_node_loads(1) [OF node, of ?k]
    by (simp add: Utils_MixedListGet_def bindc_apply mixed_slot_def)
qed

text \<open>No lookup writes to memory, whatever it is given.\<close>

lemma load_as_state: "load_as dec n p h = Inr (x, h') \<Longrightarrow> h' = h"
  by (auto simp: load_as_def bindc_def load_raw_def raise_def ret_def
      split: ptr.splits option.splits if_splits sum.splits)

lemma mixed_walk_state: "mixed_walk link n p h = Inr (q, h') \<Longrightarrow> h' = h"
  by (induction n arbitrary: p h) (auto simp: ret_def dest!: bindc_eq_InrD load_as_state)

lemma mixed_index_state: "Utils_MixedListIndex l index h = Inr (q, h') \<Longrightarrow> h' = h"
  by (auto simp: Utils_MixedListIndex_def Let_def ret_def split: if_splits
      dest!: bindc_eq_InrD load_as_state mixed_walk_state)

section \<open>Properties\<close>

text \<open>C38: Looking up an element of the front half, or one whose place in its node is not behind
  the last element's place in the last node, finds the element.\<close>

theorem mixed_get_element:
  fixes index :: u32
  assumes "mixed_list h l count ns ds" and "unat index < count" and "count < 4294967296"
    and "unat index < (count - 1) div 2 \<or> unat index mod 64 \<le> (count - 1) mod 64"
  shows "Utils_MixedListGet l index h = Inr (concat ds ! unat index, h)"
  using mixed_get_run [OF assms(1-3)] mixed_slot_right [OF assms(2,4)] by simp

definition sample_mixed_list :: cheap where
  "sample_mixed_list = sample_heap
     [int_enc 8 (65 :: u64) @ ptr_enc (Ptr 1 0) @ ptr_enc (Ptr 2 0),
      concat (map ptr_enc (replicate 64 (Ptr 7 0))) @ ptr_enc Null @ ptr_enc (Ptr 2 0),
      concat (map ptr_enc (replicate 64 (Ptr 8 0))) @ ptr_enc (Ptr 1 0) @ ptr_enc Null] 0"

lemma sample_mixed_list_ok:
  "mixed_list sample_mixed_list (Ptr 0 0) 65 [1, 2] [replicate 64 (Ptr 7 0), replicate 64 (Ptr 8 0)]"
  by (auto simp: sample_mixed_list_def mixed_list_def mixed_link_def mixed_node_def less_Suc_eq
      numeral_2_eq_2 simp del: replicate_numeral_Cons)

theorem mixed_get_element_witness:
  "Utils_MixedListGet (Ptr 0 0) 31 sample_mixed_list = Inr (Ptr 7 0, sample_mixed_list)"
  using mixed_get_element [OF sample_mixed_list_ok, of 31]
  by (simp add: nth_append del: replicate_numeral_Cons)

text \<open>C39: Every other element of the back half is missed: the walk from the tail stops one node too
  early and the lookup returns the slot 64 places further on.\<close>

theorem mixed_get_wrong_node:
  fixes index :: u32
  assumes "mixed_list h l count ns ds" and "unat index < count" and "count < 4294967296"
    and "(count - 1) div 2 \<le> unat index" and "(count - 1) mod 64 < unat index mod 64"
  shows "Utils_MixedListGet l index h = Inr (concat ds ! (unat index + 64), h)"
  using mixed_get_run [OF assms(1-3)] mixed_slot_wrong [OF assms(2,4,5)] by simp

theorem mixed_get_wrong_node_witness:
  "Utils_MixedListGet (Ptr 0 0) 32 sample_mixed_list = Inr (Ptr 8 0, sample_mixed_list)"
  using mixed_get_wrong_node [OF sample_mixed_list_ok, of 32]
  by (simp add: nth_append del: replicate_numeral_Cons)

lemma load_null_field:
  assumes "n < 4096"
  shows "load_ptr (ptr_add Null n) h = Inl NullDeref"
proof -
  have "unat (of_nat n :: u64) = n" using assms by (simp add: unat_of_nat)
  then show ?thesis using assms by (auto simp: cm_simps wild_fault_def word_less_nat_alt)
qed

text \<open>On an empty list the test for the range wraps around and accepts every index: the lookup
  follows the NULL head, and reading an element is always a NULL dereference.\<close>

theorem mixed_get_empty:
  assumes "mixed_list h l 0 ns ds"
  shows "Utils_MixedListGet l index h = Inl NullDeref"
proof -
  have ns: "ns = []" using assms by (simp add: mixed_list_def)
  have acc: "\<not> ucast index > (- 1 :: u64)" by simp
  have "unat (ucast index :: u64) = unat index" by (simp add: unat_ucast_up)
  moreover have "unat index < 4294967296" using unsigned_less [of index, where ?'a = nat] by simp
  ultimately have front: "ucast index < ((- 1 :: u64) div 2)"
    by (simp add: word_less_nat_alt unat_div_distrib)
  have small: "unat (index AND 63) < 64"
  proof -
    have "(63 :: u32) = mask 6" by (simp add: mask_eq_exp_minus_1)
    then have "index AND 63 = take_bit 6 index" by (simp only: take_bit_eq_mask)
    then show ?thesis by (simp add: take_bit_eq_mod unat_mod_distrib)
  qed
  have slot: "load_ptr (ptr_add Null (8 * unat (index AND 63))) h = Inl NullDeref"
    by (rule load_null_field) (use small in simp)
  have walk: "mixed_walk mixed_next n Null h = (if n = 0 then Inr (Null, h) else Inl NullDeref)" for n
    by (cases n) (simp_all add: cm_simps mixed_next_def wild_fault_def)
  show ?thesis
    using acc front walk slot mixed_list_fields [OF assms]
    by (auto simp: Utils_MixedListGet_def Utils_MixedListIndex_def UTILS_MIXED_LIST_UNIT_LEN_def
        UTILS_MIXED_LIST_UNIT_FAST_INDEX_def Let_def bindc_apply ret_apply ns mixed_link_def)
qed

theorem mixed_get_empty_witness:
  "Utils_MixedListGet (Ptr 0 0) 5 (sample_heap [int_enc 8 (0 :: u64) @ ptr_enc Null @ ptr_enc Null] 0) =
    Inl NullDeref"
  by (rule mixed_get_empty [of _ _ "[]" "[]"]) (simp add: mixed_list_def mixed_link_def)

text \<open>An index beyond the last element of a non-empty list is recognised, and reading it
  dereferences the NULL that the lookup returns.\<close>

theorem mixed_get_out_of_range:
  fixes index :: u32
  assumes "mixed_list h l count ns ds" and "0 < count" and "count \<le> unat index"
  shows "Utils_MixedListIndex l index h = Inr (Null, h) \<and> Utils_MixedListGet l index h = Inl NullDeref"
proof -
  have i: "unat (ucast index :: u64) = unat index" by (simp add: unat_ucast_up)
  have "unat index < 4294967296" using unsigned_less [of index, where ?'a = nat] by simp
  moreover have "(of_nat count - 1 :: u64) = of_nat (count - 1)" using assms(2) by (simp add: of_nat_diff)
  ultimately have "unat (of_nat count - 1 :: u64) = count - 1"
    using assms(3) by (simp add: unat_of_nat)
  then have "ucast index > (of_nat count - 1 :: u64)"
    using assms(2,3) by (simp add: word_less_nat_alt i)
  then have "Utils_MixedListIndex l index h = Inr (Null, h)"
    using mixed_list_fields [OF assms(1)]
    by (simp add: Utils_MixedListIndex_def bindc_apply ret_apply)
  then show ?thesis by (simp add: Utils_MixedListGet_def bindc_apply cm_simps)
qed

theorem mixed_get_out_of_range_witness:
  "Utils_MixedListIndex (Ptr 0 0) 65 sample_mixed_list = Inr (Null, sample_mixed_list)"
  using mixed_get_out_of_range [OF sample_mixed_list_ok, of 65] by simp

text \<open>\<open>Set\<close> and \<open>Free\<close> have no effect: whenever \<open>Set\<close> returns, memory is what it was, and
  \<open>Free\<close> always returns with memory as it was.\<close>

theorem mixed_set_stores_nothing:
  assumes "Utils_MixedListSet l index p h = Inr (u, h')"
  shows "h' = h \<and> Utils_MixedListFree l h = Inr ((), h)"
  using assms
  by (auto simp: Utils_MixedListSet_def Utils_MixedListFree_def ret_def split: if_splits
      dest!: bindc_eq_InrD thenc_eq_InrD load_as_state mixed_index_state)

theorem mixed_set_stores_nothing_witness:
  "Utils_MixedListSet (Ptr 0 0) 40 (Ptr 9 0) sample_mixed_list = Inr ((), sample_mixed_list)"
proof -
  have "\<exists>h'. Utils_MixedListSet (Ptr 0 0) 40 (Ptr 9 0) sample_mixed_list = Inr ((), h')"
    using mixed_index_run [OF sample_mixed_list_ok, of 40] mixed_list_fields [OF sample_mixed_list_ok]
    by (simp add: Utils_MixedListSet_def bindc_apply thenc_apply ret_apply)
  with mixed_set_stores_nothing show ?thesis by metis
qed

end
