(* ===== verification/Log.thy ===== *)
theory Log
  imports C_Memory
begin

text \<open>
  \<open>Lib/log.c\<close> and \<open>Lib/Inc/log.h\<close>: the logger every other part reports to. Its static state
  \<open>L\<close> and what it does to the outside (lines written to a stream, calls of the lock and of
  registered functions) are the state of the model. The C library's \<open>strftime\<close> on the
  current local time, and the text \<open>vfprintf\<close> makes of the format and its arguments, are
  parameters. A registered function is opaque: the model records that it was called, and it
  does not change \<open>L\<close>. The build does not define \<open>LOG_USE_COLOR\<close>.
\<close>

section \<open>State\<close>

definition LOG_TRACE :: int where "LOG_TRACE = 0"
definition LOG_DEBUG :: int where "LOG_DEBUG = 1"
definition LOG_INFO :: int where "LOG_INFO = 2"
definition LOG_WARN :: int where "LOG_WARN = 3"
definition LOG_ERROR :: int where "LOG_ERROR = 4"
definition LOG_FATAL :: int where "LOG_FATAL = 5"

definition MAX_CALLBACKS :: nat where
  "MAX_CALLBACKS = 32"

text \<open>A \<open>void *\<close> that is a stream, or a pointer the client passed.\<close>

datatype log_udata = Stderr | Udata ptr

text \<open>A \<open>log_LogFn\<close>: the \<open>file_callback\<close> of this file or a client's function.\<close>

datatype log_LogFn = File_Callback | Client_Fn nat

record log_Event =
  ev_fmt :: string
  ev_file :: string
  ev_time :: "nat option"
  ev_udata :: log_udata
  ev_line :: int
  ev_level :: int

record log_Callback =
  cb_fn :: "log_LogFn option"
  cb_udata :: log_udata
  cb_level :: int

record log_L =
  L_udata :: log_udata
  L_lock :: "nat option"
  L_level :: int
  L_quiet :: bool
  L_callbacks :: "log_Callback list"

datatype log_action =
    Locked nat bool log_udata
  | Wrote log_udata string
  | Called nat log_Event

record log_world =
  L :: log_L
  actions :: "log_action list"

text \<open>Static storage starts zeroed.\<close>

definition log_initial :: log_L where
  "log_initial = \<lparr>L_udata = Udata Null, L_lock = None, L_level = 0, L_quiet = False,
     L_callbacks = replicate MAX_CALLBACKS \<lparr>cb_fn = None, cb_udata = Udata Null, cb_level = 0\<rparr>\<rparr>"

definition log_emit :: "log_action \<Rightarrow> (log_world, unit) cm" where
  "log_emit a w = Inr ((), w\<lparr>actions := actions w @ [a]\<rparr>)"

section \<open>Lines\<close>

definition level_strings :: "string list" where
  "level_strings = [''TRACE'', ''DEBUG'', ''INFO'', ''WARN'', ''ERROR'', ''FATAL'']"

definition log_level_string :: "int \<Rightarrow> ('s, string) cm" where
  "log_level_string level =
     (if 0 \<le> level \<and> level < int (length level_strings) then ret (level_strings ! nat level)
      else raise OutOfBounds)"

text \<open>The conversions \<open>%d\<close> and \<open>%-5s\<close>.\<close>

fun decimal_nat :: "nat \<Rightarrow> string" where
  "decimal_nat n = (if n < 10 then [char_of (48 + n)]
     else decimal_nat (n div 10) @ [char_of (48 + n mod 10)])"

declare decimal_nat.simps [simp del]

definition decimal :: "int \<Rightarrow> string" where
  "decimal i = (if i < 0 then ''-'' @ decimal_nat (nat (- i)) else decimal_nat (nat i))"

definition pad_right :: "nat \<Rightarrow> string \<Rightarrow> string" where
  "pad_right n s = s @ replicate (n - length s) CHR '' ''"

text \<open>
  The two callbacks differ in the format of the time; \<open>strftime\<close> and \<open>vfprintf\<close> are the
  parameters. The event's level is used as an array index without a check, the stream handed to
  \<open>fprintf\<close> without one for NULL. A pointer registered as a stream that is not NULL is one.
\<close>

definition log_line ::
  "(string \<Rightarrow> nat option \<Rightarrow> string) \<Rightarrow> string \<Rightarrow> string \<Rightarrow> log_Event \<Rightarrow> (log_world, unit) cm" where
  "log_line strftime message format ev =
     bindc (log_level_string (ev_level ev)) (\<lambda>level.
     if ev_udata ev = Udata Null then raise NullDeref
     else log_emit (Wrote (ev_udata ev)
       (strftime format (ev_time ev) @ '' '' @ pad_right 5 level @ '' '' @ ev_file ev @ '':'' @
        decimal (ev_line ev) @ '': '' @ message @ [CHR 0x0A])))"

definition stdout_callback ::
  "(string \<Rightarrow> nat option \<Rightarrow> string) \<Rightarrow> string \<Rightarrow> log_Event \<Rightarrow> (log_world, unit) cm" where
  "stdout_callback strftime message ev = log_line strftime message ''%H:%M:%S'' ev"

definition file_callback ::
  "(string \<Rightarrow> nat option \<Rightarrow> string) \<Rightarrow> string \<Rightarrow> log_Event \<Rightarrow> (log_world, unit) cm" where
  "file_callback strftime message ev = log_line strftime message ''%Y-%m-%d %H:%M:%S'' ev"

section \<open>Operations\<close>

definition log_lock :: "(log_world, unit) cm" where
  "log_lock = bindc (gets L) (\<lambda>l. case L_lock l of
       Some fn \<Rightarrow> log_emit (Locked fn True (L_udata l)) | None \<Rightarrow> ret ())"

definition log_unlock :: "(log_world, unit) cm" where
  "log_unlock = bindc (gets L) (\<lambda>l. case L_lock l of
       Some fn \<Rightarrow> log_emit (Locked fn False (L_udata l)) | None \<Rightarrow> ret ())"

definition log_set_lock :: "nat option \<Rightarrow> log_udata \<Rightarrow> (log_world, unit) cm" where
  "log_set_lock fn udata w = Inr ((), w\<lparr>L := (L w)\<lparr>L_lock := fn, L_udata := udata\<rparr>\<rparr>)"

definition log_set_level :: "int \<Rightarrow> (log_world, unit) cm" where
  "log_set_level level w = Inr ((), w\<lparr>L := (L w)\<lparr>L_level := level\<rparr>\<rparr>)"

definition log_set_quiet :: "bool \<Rightarrow> (log_world, unit) cm" where
  "log_set_quiet enable w = Inr ((), w\<lparr>L := (L w)\<lparr>L_quiet := enable\<rparr>\<rparr>)"

text \<open>The loop of \<open>log_add_callback\<close>: the first slot without a function is overwritten.\<close>

primrec add_callback :: "log_Callback \<Rightarrow> log_Callback list \<Rightarrow> log_Callback list option" where
  "add_callback cb [] = None"
| "add_callback cb (slot # slots) =
     (if cb_fn slot = None then Some (cb # slots)
      else map_option (Cons slot) (add_callback cb slots))"

definition log_add_callback :: "log_LogFn option \<Rightarrow> log_udata \<Rightarrow> int \<Rightarrow> (log_world, int) cm" where
  "log_add_callback fn udata level w =
     (case add_callback \<lparr>cb_fn = fn, cb_udata = udata, cb_level = level\<rparr> (L_callbacks (L w)) of
        Some slots \<Rightarrow> Inr (0, w\<lparr>L := (L w)\<lparr>L_callbacks := slots\<rparr>\<rparr>)
      | None \<Rightarrow> Inr (-1, w))"

definition log_add_fp :: "log_udata \<Rightarrow> int \<Rightarrow> (log_world, int) cm" where
  "log_add_fp fp level = log_add_callback (Some File_Callback) fp level"

text \<open>The time is taken once, at the first use of the event.\<close>

definition init_event :: "nat \<Rightarrow> log_Event \<Rightarrow> log_udata \<Rightarrow> log_Event" where
  "init_event now ev udata =
     (if ev_time ev = None then ev\<lparr>ev_time := Some now, ev_udata := udata\<rparr>
      else ev\<lparr>ev_udata := udata\<rparr>)"

primrec log_call ::
  "(string \<Rightarrow> nat option \<Rightarrow> string) \<Rightarrow> string \<Rightarrow> log_LogFn \<Rightarrow> log_Event \<Rightarrow> (log_world, unit) cm" where
  "log_call strftime message File_Callback ev = file_callback strftime message ev"
| "log_call strftime message (Client_Fn n) ev = log_emit (Called n ev)"

primrec log_callbacks ::
  "(string \<Rightarrow> nat option \<Rightarrow> string) \<Rightarrow> nat \<Rightarrow> string \<Rightarrow> int \<Rightarrow> log_Callback list \<Rightarrow> log_Event
    \<Rightarrow> (log_world, unit) cm" where
  "log_callbacks strftime now message level [] ev = ret ()"
| "log_callbacks strftime now message level (cb # cbs) ev =
     (case cb_fn cb of None \<Rightarrow> ret ()
      | Some fn \<Rightarrow>
          if level \<ge> cb_level cb then
            let ev = init_event now ev (cb_udata cb) in
            thenc (log_call strftime message fn ev)
              (log_callbacks strftime now message level cbs ev)
          else log_callbacks strftime now message level cbs ev)"

definition log_log ::
  "(string \<Rightarrow> nat option \<Rightarrow> string) \<Rightarrow> nat \<Rightarrow> string \<Rightarrow> int \<Rightarrow> string \<Rightarrow> int \<Rightarrow> string
    \<Rightarrow> (log_world, unit) cm" where
  "log_log strftime now message level file line fmt =
     (let ev = \<lparr>ev_fmt = fmt, ev_file = file, ev_time = None, ev_udata = Udata Null,
                ev_line = line, ev_level = level\<rparr>
      in
      thenc log_lock (
      bindc (gets L) (\<lambda>l.
      bindc
        (if \<not> L_quiet l \<and> level \<ge> L_level l then
           let ev = init_event now ev Stderr in
           thenc (stdout_callback strftime message ev) (ret ev)
         else ret ev) (\<lambda>ev.
      thenc (log_callbacks strftime now message level (L_callbacks l) ev)
        log_unlock))))"

text \<open>The macros the daemon calls; \<open>__FILE__\<close> and \<open>__LINE__\<close> are arguments.\<close>

definition log_trace ::
  "(string \<Rightarrow> nat option \<Rightarrow> string) \<Rightarrow> nat \<Rightarrow> string \<Rightarrow> string \<Rightarrow> int \<Rightarrow> string \<Rightarrow> (log_world, unit) cm" where
  "log_trace strftime now message file line fmt = log_log strftime now message LOG_TRACE file line fmt"

definition log_debug ::
  "(string \<Rightarrow> nat option \<Rightarrow> string) \<Rightarrow> nat \<Rightarrow> string \<Rightarrow> string \<Rightarrow> int \<Rightarrow> string \<Rightarrow> (log_world, unit) cm" where
  "log_debug strftime now message file line fmt = log_log strftime now message LOG_DEBUG file line fmt"

definition log_info ::
  "(string \<Rightarrow> nat option \<Rightarrow> string) \<Rightarrow> nat \<Rightarrow> string \<Rightarrow> string \<Rightarrow> int \<Rightarrow> string \<Rightarrow> (log_world, unit) cm" where
  "log_info strftime now message file line fmt = log_log strftime now message LOG_INFO file line fmt"

definition log_warn ::
  "(string \<Rightarrow> nat option \<Rightarrow> string) \<Rightarrow> nat \<Rightarrow> string \<Rightarrow> string \<Rightarrow> int \<Rightarrow> string \<Rightarrow> (log_world, unit) cm" where
  "log_warn strftime now message file line fmt = log_log strftime now message LOG_WARN file line fmt"

definition log_error ::
  "(string \<Rightarrow> nat option \<Rightarrow> string) \<Rightarrow> nat \<Rightarrow> string \<Rightarrow> string \<Rightarrow> int \<Rightarrow> string \<Rightarrow> (log_world, unit) cm" where
  "log_error strftime now message file line fmt = log_log strftime now message LOG_ERROR file line fmt"

definition log_fatal ::
  "(string \<Rightarrow> nat option \<Rightarrow> string) \<Rightarrow> nat \<Rightarrow> string \<Rightarrow> string \<Rightarrow> int \<Rightarrow> string \<Rightarrow> (log_world, unit) cm" where
  "log_fatal strftime now message file line fmt = log_log strftime now message LOG_FATAL file line fmt"

section \<open>Specification\<close>

text \<open>
  The functions registered, in order, and the invariant of the table: every slot after the
  first empty one is empty.
\<close>

definition log_registered :: "log_L \<Rightarrow> log_Callback list" where
  "log_registered l = takeWhile (\<lambda>cb. cb_fn cb \<noteq> None) (L_callbacks l)"

definition log_wf :: "log_L \<Rightarrow> bool" where
  "log_wf l \<longleftrightarrow> length (L_callbacks l) = MAX_CALLBACKS \<and>
     list_all (\<lambda>cb. cb_fn cb = None) (dropWhile (\<lambda>cb. cb_fn cb \<noteq> None) (L_callbacks l))"

lemma log_wf_initial: "log_wf log_initial"
  by (simp add: log_wf_def log_initial_def list_all_iff dropWhile_eq_drop)

lemma add_callback_spec:
  assumes "list_all (\<lambda>cb. cb_fn cb = None) (dropWhile (\<lambda>cb. cb_fn cb \<noteq> None) slots)"
    and "cb_fn new \<noteq> None"
  shows "case add_callback new slots of
      None \<Rightarrow> list_all (\<lambda>cb. cb_fn cb \<noteq> None) slots
    | Some slots' \<Rightarrow> length slots' = length slots \<and>
        length (takeWhile (\<lambda>cb. cb_fn cb \<noteq> None) slots) < length slots \<and>
        takeWhile (\<lambda>cb. cb_fn cb \<noteq> None) slots' = takeWhile (\<lambda>cb. cb_fn cb \<noteq> None) slots @ [new] \<and>
        list_all (\<lambda>cb. cb_fn cb = None) (dropWhile (\<lambda>cb. cb_fn cb \<noteq> None) slots')"
  using assms(1)
proof (induction slots)
  case Nil
  then show ?case by simp
next
  case (Cons slot slots)
  show ?case
  proof (cases "cb_fn slot = None")
    case True
    moreover have "takeWhile (\<lambda>cb. cb_fn cb \<noteq> None) slots = []"
      and "dropWhile (\<lambda>cb. cb_fn cb \<noteq> None) slots = slots"
      using Cons.prems True by (cases slots; simp)+
    ultimately show ?thesis using Cons.prems assms(2) by simp
  next
    case False
    then show ?thesis using Cons assms(2) by (auto split: option.splits)
  qed
qed

text \<open>What one message makes happen, given the level and the tables.\<close>

definition log_lock_spec :: "bool \<Rightarrow> log_L \<Rightarrow> log_action list" where
  "log_lock_spec b l = (case L_lock l of Some fn \<Rightarrow> [Locked fn b (L_udata l)] | None \<Rightarrow> [])"

definition log_line_spec ::
  "(string \<Rightarrow> nat option \<Rightarrow> string) \<Rightarrow> nat \<Rightarrow> string \<Rightarrow> string \<Rightarrow> log_Event \<Rightarrow> log_udata \<Rightarrow> log_action" where
  "log_line_spec strftime now message format ev udata = Wrote udata
     (strftime format (Some now) @ '' '' @ pad_right 5 (level_strings ! nat (ev_level ev)) @ '' '' @
      ev_file ev @ '':'' @ decimal (ev_line ev) @ '': '' @ message @ [CHR 0x0A])"

definition log_callback_spec ::
  "(string \<Rightarrow> nat option \<Rightarrow> string) \<Rightarrow> nat \<Rightarrow> string \<Rightarrow> log_Event \<Rightarrow> log_Callback \<Rightarrow> log_action" where
  "log_callback_spec strftime now message ev cb = (case cb_fn cb of
       Some (Client_Fn n) \<Rightarrow> Called n (ev\<lparr>ev_time := Some now, ev_udata := cb_udata cb\<rparr>)
     | _ \<Rightarrow> log_line_spec strftime now message ''%Y-%m-%d %H:%M:%S'' ev (cb_udata cb))"

definition log_spec ::
  "(string \<Rightarrow> nat option \<Rightarrow> string) \<Rightarrow> nat \<Rightarrow> string \<Rightarrow> log_Event \<Rightarrow> log_L \<Rightarrow> log_action list" where
  "log_spec strftime now message ev l = log_lock_spec True l @
     (if \<not> L_quiet l \<and> ev_level ev \<ge> L_level l
      then [log_line_spec strftime now message ''%H:%M:%S'' ev Stderr] else []) @
     map (log_callback_spec strftime now message ev)
       (filter (\<lambda>cb. ev_level ev \<ge> cb_level cb) (log_registered l)) @
     log_lock_spec False l"

lemma log_lock_run:
  "log_lock w = Inr ((), w\<lparr>actions := actions w @ log_lock_spec True (L w)\<rparr>)"
  "log_unlock w = Inr ((), w\<lparr>actions := actions w @ log_lock_spec False (L w)\<rparr>)"
  by (simp_all add: log_lock_def log_unlock_def log_lock_spec_def log_emit_def cm_simps
      split: option.split)

text \<open>Where a message goes wrong: a line is to be written for a level that is none of the six, or
  to a stream that is NULL. \<open>std\<close> says whether the standard error stream gets the line, \<open>cbs\<close>
  are the registrations that admit it.\<close>

definition writes_line :: "log_Callback \<Rightarrow> bool" where
  "writes_line cb \<longleftrightarrow> cb_fn cb = Some File_Callback"

definition log_fault :: "bool \<Rightarrow> log_Callback list \<Rightarrow> int \<Rightarrow> c_fault option" where
  "log_fault std cbs level =
     (if (level < 0 \<or> 5 < level) \<and> (std \<or> list_ex writes_line cbs) then Some OutOfBounds
      else if list_ex (\<lambda>cb. writes_line cb \<and> cb_udata cb = Udata Null) cbs then Some NullDeref
      else None)"

lemma log_fault_simps:
  "log_fault False [] level = None"
  "\<not> writes_line cb \<Longrightarrow> log_fault False (cb # cbs) level = log_fault False cbs level"
  "writes_line cb \<Longrightarrow> log_fault False [cb] level = None \<Longrightarrow>
    log_fault False (cb # cbs) level = log_fault False cbs level"
  "log_fault False [cb] level = Some e \<Longrightarrow> log_fault False (cb # cbs) level = Some e"
  by (auto simp: log_fault_def split: if_splits)

lemma log_line_run:
  assumes "ev_time ev = None \<or> ev_time ev = Some now"
  shows "log_line strftime message format (init_event now ev udata) w =
    (if ev_level ev < 0 \<or> 5 < ev_level ev then Inl OutOfBounds
     else if udata = Udata Null then Inl NullDeref
     else Inr ((), w\<lparr>actions := actions w @ [log_line_spec strftime now message format ev udata]\<rparr>))"
  using assms
  by (auto simp: log_line_def log_level_string_def level_strings_def log_emit_def cm_simps
      init_event_def log_line_spec_def)

lemma log_call_run:
  assumes "ev_time ev = None \<or> ev_time ev = Some now" and "cb_fn cb = Some fn"
  shows "log_call strftime message fn (init_event now ev (cb_udata cb)) w =
    (case log_fault False [cb] (ev_level ev) of Some e \<Rightarrow> Inl e
     | None \<Rightarrow> Inr ((), w\<lparr>actions := actions w @ [log_callback_spec strftime now message ev cb]\<rparr>))"
proof (cases fn)
  case File_Callback
  then show ?thesis using assms log_line_run [OF assms(1)]
    by (simp add: file_callback_def log_callback_spec_def log_fault_def writes_line_def)
next
  case (Client_Fn n)
  then show ?thesis using assms
    by (auto simp: log_callback_spec_def log_emit_def init_event_def log_fault_def writes_line_def)
qed

lemma log_spec_event:
  "log_callback_spec strftime now message (init_event now ev udata) cb =
     log_callback_spec strftime now message ev cb"
  by (auto simp: log_callback_spec_def log_line_spec_def init_event_def
      split: option.split log_LogFn.split)

lemma log_callbacks_run:
  assumes "ev_time ev = None \<or> ev_time ev = Some now"
  shows "log_callbacks strftime now message (ev_level ev) cbs ev w =
    (let admit = filter (\<lambda>cb. ev_level ev \<ge> cb_level cb) (takeWhile (\<lambda>cb. cb_fn cb \<noteq> None) cbs) in
     case log_fault False admit (ev_level ev) of Some e \<Rightarrow> Inl e
     | None \<Rightarrow> Inr ((), w\<lparr>actions := actions w @ map (log_callback_spec strftime now message ev) admit\<rparr>))"
  using assms
proof (induction cbs arbitrary: ev w)
  case Nil
  then show ?case by (simp add: cm_simps log_fault_simps)
next
  case (Cons cb cbs)
  let ?ev = "init_event now ev (cb_udata cb)"
  have ev: "ev_level ?ev = ev_level ev" "ev_time ?ev = Some now"
    using Cons.prems by (auto simp: init_event_def)
  show ?case
  proof (cases "cb_fn cb")
    case None
    then show ?thesis by (simp add: cm_simps log_fault_simps)
  next
    case (Some fn)
    note head = log_call_run [OF Cons.prems Some]
    show ?thesis
    proof (cases "log_fault False [cb] (ev_level ev)")
      case None
      then have "log_fault False (cb # cbs') (ev_level ev) = log_fault False cbs' (ev_level ev)" for cbs'
        using log_fault_simps(2,3) by (cases "writes_line cb") auto
      then show ?thesis
        using Cons.IH [of ?ev] Cons.IH [of ev] Cons.prems ev head Some None
        by (auto simp: cm_simps Let_def log_spec_event split: option.split)
    next
      case fault: (Some e)
      then show ?thesis using Cons.IH [of ev] Cons.prems head Some log_fault_simps(4) [OF fault]
        by (simp add: cm_simps Let_def)
    qed
  qed
qed

definition log_event :: "string \<Rightarrow> string \<Rightarrow> int \<Rightarrow> int \<Rightarrow> log_Event" where
  "log_event fmt file line level = \<lparr>ev_fmt = fmt, ev_file = file, ev_time = None,
     ev_udata = Udata Null, ev_line = line, ev_level = level\<rparr>"

lemma log_event_sel [simp]:
  "ev_level (log_event fmt file line level) = level" "ev_time (log_event fmt file line level) = None"
  by (simp_all add: log_event_def)

lemma log_spec_init:
  "log_line_spec strftime now message format (init_event now ev udata') udata =
     log_line_spec strftime now message format ev udata"
  by (auto simp: log_line_spec_def init_event_def)

text \<open>What a message does in every state: the fault, or the actions.\<close>

definition log_std :: "log_L \<Rightarrow> int \<Rightarrow> bool" where
  "log_std l level \<longleftrightarrow> \<not> L_quiet l \<and> level \<ge> L_level l"

definition log_admits :: "log_L \<Rightarrow> int \<Rightarrow> log_Callback list" where
  "log_admits l level = filter (\<lambda>cb. level \<ge> cb_level cb) (log_registered l)"

lemma log_log_run:
  "log_log strftime now message level file line fmt w =
    (case log_fault (log_std (L w) level) (log_admits (L w) level) level of Some e \<Rightarrow> Inl e
     | None \<Rightarrow> Inr ((), w\<lparr>actions := actions w @
         log_spec strftime now message (log_event fmt file line level) (L w)\<rparr>))"
proof -
  let ?ev = "log_event fmt file line level"
  let ?ev' = "init_event now ?ev Stderr"
  have ev: "ev_level ?ev' = level" "ev_time ?ev' = Some now" by (simp_all add: init_event_def)
  have out: "stdout_callback strftime message ?ev' w' = (if level < 0 \<or> 5 < level then Inl OutOfBounds
      else Inr ((), w'\<lparr>actions := actions w' @ [log_line_spec strftime now message ''%H:%M:%S'' ?ev Stderr]\<rparr>))"
    for w' using log_line_run [of ?ev now] by (simp add: stdout_callback_def)
  have cbs: "log_callbacks strftime now message level (L_callbacks l) e w' =
      (case log_fault False (log_admits l level) level of Some e \<Rightarrow> Inl e
       | None \<Rightarrow> Inr ((), w'\<lparr>actions := actions w' @ map (log_callback_spec strftime now message ?ev)
           (log_admits l level)\<rparr>))"
    if "e = ?ev \<or> e = ?ev'" for l e w'
    using that log_callbacks_run [of e now strftime message "L_callbacks l" w'] ev
    by (auto simp: log_registered_def log_admits_def log_spec_event Let_def split: option.split)
  have event: "\<lparr>ev_fmt = fmt, ev_file = file, ev_time = None, ev_udata = Udata Null,
      ev_line = line, ev_level = level\<rparr> = ?ev" by (simp add: log_event_def)
  have std: "log_fault True cbs level = (if level < 0 \<or> 5 < level then Some OutOfBounds else log_fault False cbs level)"
    for cbs by (auto simp: log_fault_def)
  show ?thesis
    unfolding log_log_def Let_def event
    by (auto simp: cm_simps log_lock_run out cbs log_spec_def log_std_def log_admits_def [symmetric] std
        split: option.split)
qed

section \<open>Properties\<close>

text \<open>Registering a function: the table keeps its invariant, and the functions registered are
  the old ones followed by the new one, until 32 are registered; then the call returns -1
  and changes nothing.\<close>

theorem log_add_callback_appends:
  assumes "log_wf (L w)" and "fn \<noteq> None"
  shows "\<exists>r w'. log_add_callback fn udata level w = Inr (r, w') \<and> log_wf (L w') \<and>
    actions w' = actions w \<and>
    (if length (log_registered (L w)) < 32
     then r = 0 \<and> log_registered (L w') =
       log_registered (L w) @ [\<lparr>cb_fn = fn, cb_udata = udata, cb_level = level\<rparr>]
     else r = -1 \<and> w' = w)"
proof -
  let ?cb = "\<lparr>cb_fn = fn, cb_udata = udata, cb_level = level\<rparr>"
  let ?slots = "L_callbacks (L w)"
  have len: "length ?slots = 32"
    and wf: "list_all (\<lambda>cb. cb_fn cb = None) (dropWhile (\<lambda>cb. cb_fn cb \<noteq> None) ?slots)"
    using assms(1) by (simp_all add: log_wf_def MAX_CALLBACKS_def)
  note spec = add_callback_spec [OF wf, of ?cb]
  show ?thesis
  proof (cases "add_callback ?cb ?slots")
    case None
    then have "log_registered (L w) = ?slots"
      using spec assms(2) by (simp add: log_registered_def takeWhile_eq_all_conv list_all_iff)
    then show ?thesis using None len assms(1) by (simp add: log_add_callback_def)
  next
    case (Some slots')
    then show ?thesis using spec assms(2) len
      by (simp add: log_add_callback_def log_registered_def log_wf_def MAX_CALLBACKS_def)
  qed
qed

definition sample_log_world :: log_world where
  "sample_log_world = \<lparr>L = log_initial, actions = []\<rparr>"

lemma sample_log_world_registered: "log_registered (L sample_log_world) = []"
  by (simp add: sample_log_world_def log_initial_def log_registered_def MAX_CALLBACKS_def)

theorem log_add_callback_appends_witness:
  "\<exists>w'. log_add_callback (Some File_Callback) (Udata (Ptr 1 0)) 2 sample_log_world = Inr (0, w') \<and>
    log_registered (L w') = [\<lparr>cb_fn = Some File_Callback, cb_udata = Udata (Ptr 1 0), cb_level = 2\<rparr>]"
proof -
  have "log_wf (L sample_log_world)" by (simp add: sample_log_world_def log_wf_initial)
  from log_add_callback_appends [OF this, of "Some File_Callback" "Udata (Ptr 1 0)" 2]
  show ?thesis by (simp add: sample_log_world_registered) blast
qed

text \<open>One message of a valid level takes the lock, writes the line to the standard error stream
  unless the logger is quiet or the level below its threshold, runs the registered functions
  whose level admits it in the order of registration, all with the time of the first, and
  releases the lock; nothing else.\<close>

theorem log_message:
  assumes "0 \<le> level" and "level \<le> 5"
    and "\<not> list_ex (\<lambda>cb. writes_line cb \<and> cb_udata cb = Udata Null) (log_registered (L w))"
  shows "log_log strftime now message level file line fmt w = Inr ((),
    w\<lparr>actions := actions w @ log_spec strftime now message (log_event fmt file line level) (L w)\<rparr>)"
  using assms by (auto simp: log_log_run log_fault_def log_admits_def list_ex_iff)

theorem log_message_witness:
  "log_log (\<lambda>_ _. ''12:00:00'') 0 ''hi'' LOG_INFO ''test.c'' 87 ''hi'' sample_log_world =
    Inr ((), sample_log_world\<lparr>actions := [Wrote Stderr
      (''12:00:00 INFO  test.c:'' @ decimal 87 @ '': hi'' @ [CHR 0x0A])]\<rparr>)"
proof -
  have "log_spec (\<lambda>_ _. ''12:00:00'') 0 ''hi'' (log_event ''hi'' ''test.c'' 87 2) (L sample_log_world) =
      [Wrote Stderr (''12:00:00 INFO  test.c:'' @ decimal 87 @ '': hi'' @ [CHR 0x0A])]"
    by (simp add: log_spec_def sample_log_world_registered)
      (simp add: sample_log_world_def log_initial_def log_lock_spec_def log_line_spec_def log_event_def
        level_strings_def pad_right_def numeral_2_eq_2)
  with log_message [of LOG_INFO sample_log_world "\<lambda>_ _. ''12:00:00''" 0 "''hi''" "''test.c''" 87 "''hi''"]
  show ?thesis by (simp add: LOG_INFO_def sample_log_world_registered) (simp add: sample_log_world_def)
qed

text \<open>The level is used as an index without a check: a message above FATAL that is not
  suppressed reads beyond the table of level names.\<close>

theorem log_level_overrun:
  assumes "5 < level" and "\<not> L_quiet (L w)" and "L_level (L w) \<le> level"
  shows "log_log strftime now message level file line fmt w = Inl OutOfBounds"
  using assms
  by (simp add: log_log_def cm_simps log_lock_run stdout_callback_def log_line_def
      log_level_string_def level_strings_def init_event_def Let_def)

theorem log_level_overrun_witness:
  "log_log (\<lambda>_ _. []) 0 ''hi'' 6 ''test.c'' 87 ''hi'' sample_log_world = Inl OutOfBounds"
  by (rule log_level_overrun) (simp_all add: sample_log_world_def log_initial_def)

section \<open>Sessions\<close>

text \<open>What a program can do with the logger: any sequence of calls of the functions and macros of
  \<open>log.h\<close>, with any arguments, and what they return.\<close>

datatype log_macro = Trace | Debug | Info | Warn | Error | Fatal

datatype log_command =
    Set_Lock "nat option" log_udata
  | Set_Level int
  | Set_Quiet bool
  | Level_String int
  | Add_Callback "nat option" log_udata int
  | Add_Fp log_udata int
  | Say log_macro nat string string int string
  | Log int nat string string int string

datatype log_value = Void | Status int | Name string

primrec log_say ::
  "(string \<Rightarrow> nat option \<Rightarrow> string) \<Rightarrow> log_macro \<Rightarrow> nat \<Rightarrow> string \<Rightarrow> string \<Rightarrow> int \<Rightarrow> string \<Rightarrow> (log_world, unit) cm" where
  "log_say strftime Trace = log_trace strftime"
| "log_say strftime Debug = log_debug strftime"
| "log_say strftime Info = log_info strftime"
| "log_say strftime Warn = log_warn strftime"
| "log_say strftime Error = log_error strftime"
| "log_say strftime Fatal = log_fatal strftime"

primrec log_command_run :: "(string \<Rightarrow> nat option \<Rightarrow> string) \<Rightarrow> log_command \<Rightarrow> (log_world, log_value) cm" where
  "log_command_run strftime (Set_Lock fn udata) = thenc (log_set_lock fn udata) (ret Void)"
| "log_command_run strftime (Set_Level level) = thenc (log_set_level level) (ret Void)"
| "log_command_run strftime (Set_Quiet enable) = thenc (log_set_quiet enable) (ret Void)"
| "log_command_run strftime (Level_String level) = bindc (log_level_string level) (\<lambda>s. ret (Name s))"
| "log_command_run strftime (Add_Callback fn udata level) =
     bindc (log_add_callback (map_option Client_Fn fn) udata level) (\<lambda>r. ret (Status r))"
| "log_command_run strftime (Add_Fp fp level) = bindc (log_add_fp fp level) (\<lambda>r. ret (Status r))"
| "log_command_run strftime (Say m now message file line fmt) =
     thenc (log_say strftime m now message file line fmt) (ret Void)"
| "log_command_run strftime (Log level now message file line fmt) =
     thenc (log_log strftime now message level file line fmt) (ret Void)"

primrec log_session ::
  "(string \<Rightarrow> nat option \<Rightarrow> string) \<Rightarrow> log_command list \<Rightarrow> (log_world, log_value list) cm" where
  "log_session strftime [] = ret []"
| "log_session strftime (c # cs) =
     bindc (log_command_run strftime c) (\<lambda>r. bindc (log_session strftime cs) (\<lambda>rs. ret (r # rs)))"

text \<open>The logger as its users think of it: a lock, a threshold, and the functions registered in
  order, at most 32; the level of a macro is its place in the list of six. A call that goes
  wrong ends the program.\<close>

record logger =
  lg_lock :: "(nat \<times> log_udata) option"
  lg_level :: int
  lg_quiet :: bool
  lg_callbacks :: "log_Callback list"

definition lg_start :: logger where
  "lg_start = \<lparr>lg_lock = None, lg_level = 0, lg_quiet = False, lg_callbacks = []\<rparr>"

primrec macro_level :: "log_macro \<Rightarrow> int" where
  "macro_level Trace = 0"
| "macro_level Debug = 1"
| "macro_level Info = 2"
| "macro_level Warn = 3"
| "macro_level Error = 4"
| "macro_level Fatal = 5"

type_synonym 'r lg_result = "c_fault + 'r \<times> log_action list \<times> logger"

definition lg_add :: "log_LogFn option \<Rightarrow> log_udata \<Rightarrow> int \<Rightarrow> logger \<Rightarrow> log_value lg_result" where
  "lg_add fn udata level s = Inr (if length (lg_callbacks s) < 32
     then (Status 0, [], if fn = None then s
       else s\<lparr>lg_callbacks := lg_callbacks s @ [\<lparr>cb_fn = fn, cb_udata = udata, cb_level = level\<rparr>]\<rparr>)
     else (Status (-1), [], s))"

definition lg_locks :: "bool \<Rightarrow> logger \<Rightarrow> log_action list" where
  "lg_locks b s = (case lg_lock s of None \<Rightarrow> [] | Some (fn, udata) \<Rightarrow> [Locked fn b udata])"

definition lg_message ::
  "(string \<Rightarrow> nat option \<Rightarrow> string) \<Rightarrow> int \<Rightarrow> nat \<Rightarrow> string \<Rightarrow> string \<Rightarrow> int \<Rightarrow> string \<Rightarrow> logger
    \<Rightarrow> log_value lg_result" where
  "lg_message strftime level now message file line fmt s =
     (let ev = log_event fmt file line level;
          std = (\<not> lg_quiet s \<and> level \<ge> lg_level s);
          cbs = filter (\<lambda>cb. level \<ge> cb_level cb) (lg_callbacks s)
      in case log_fault std cbs level of
           Some e \<Rightarrow> Inl e
         | None \<Rightarrow> Inr (Void, lg_locks True s @
             (if std then [log_line_spec strftime now message ''%H:%M:%S'' ev Stderr] else []) @
             map (log_callback_spec strftime now message ev) cbs @ lg_locks False s, s))"

primrec lg_step :: "(string \<Rightarrow> nat option \<Rightarrow> string) \<Rightarrow> log_command \<Rightarrow> logger \<Rightarrow> log_value lg_result" where
  "lg_step strftime (Set_Lock fn udata) s = Inr (Void, [], s\<lparr>lg_lock := map_option (\<lambda>f. (f, udata)) fn\<rparr>)"
| "lg_step strftime (Set_Level level) s = Inr (Void, [], s\<lparr>lg_level := level\<rparr>)"
| "lg_step strftime (Set_Quiet enable) s = Inr (Void, [], s\<lparr>lg_quiet := enable\<rparr>)"
| "lg_step strftime (Level_String level) s =
     (if level < 0 \<or> 5 < level then Inl OutOfBounds else Inr (Name (level_strings ! nat level), [], s))"
| "lg_step strftime (Add_Callback fn udata level) s = lg_add (map_option Client_Fn fn) udata level s"
| "lg_step strftime (Add_Fp fp level) s = lg_add (Some File_Callback) fp level s"
| "lg_step strftime (Say m now message file line fmt) s =
     lg_message strftime (macro_level m) now message file line fmt s"
| "lg_step strftime (Log level now message file line fmt) s =
     lg_message strftime level now message file line fmt s"

primrec lg_session ::
  "(string \<Rightarrow> nat option \<Rightarrow> string) \<Rightarrow> log_command list \<Rightarrow> logger \<Rightarrow> log_value list lg_result" where
  "lg_session strftime [] s = Inr ([], [], s)"
| "lg_session strftime (c # cs) s =
     (case lg_step strftime c s of Inl e \<Rightarrow> Inl e
      | Inr (r, out, s1) \<Rightarrow> (case lg_session strftime cs s1 of Inl e \<Rightarrow> Inl e
          | Inr (rs, outs, s2) \<Rightarrow> Inr (r # rs, out @ outs, s2)))"

definition logger_of :: "log_L \<Rightarrow> logger" where
  "logger_of l = \<lparr>lg_lock = map_option (\<lambda>f. (f, L_udata l)) (L_lock l), lg_level = L_level l,
     lg_quiet = L_quiet l, lg_callbacks = log_registered l\<rparr>"

lemma logger_of_initial: "logger_of log_initial = lg_start"
  by (simp add: logger_of_def lg_start_def log_initial_def log_registered_def MAX_CALLBACKS_def)

text \<open>A run of the code and what the view says of it.\<close>

definition runs_as :: "log_world \<Rightarrow> 'r lg_result \<Rightarrow> (c_fault + 'r \<times> log_world) \<Rightarrow> bool" where
  "runs_as w spec result \<longleftrightarrow> (case spec of Inl e \<Rightarrow> result = Inl e
     | Inr (r, out, s) \<Rightarrow> \<exists>w'. result = Inr (r, w') \<and> actions w' = actions w @ out \<and>
         logger_of (L w') = s \<and> log_wf (L w'))"

lemma log_say_level:
  "log_say strftime m now message file line fmt = log_log strftime now message (macro_level m) file line fmt"
  by (cases m) (simp_all add: log_trace_def log_debug_def log_info_def log_warn_def log_error_def
      log_fatal_def LOG_TRACE_def LOG_DEBUG_def LOG_INFO_def LOG_WARN_def LOG_ERROR_def LOG_FATAL_def)

text \<open>Registering NULL overwrites an empty slot by an empty one.\<close>

lemma add_callback_empty:
  assumes "cb_fn new = None" and "list_all (\<lambda>cb. cb_fn cb = None) (dropWhile (\<lambda>cb. cb_fn cb \<noteq> None) slots)"
  shows "case add_callback new slots of
      None \<Rightarrow> length (takeWhile (\<lambda>cb. cb_fn cb \<noteq> None) slots) = length slots
    | Some slots' \<Rightarrow> length slots' = length slots \<and> length (takeWhile (\<lambda>cb. cb_fn cb \<noteq> None) slots) < length slots \<and>
        takeWhile (\<lambda>cb. cb_fn cb \<noteq> None) slots' = takeWhile (\<lambda>cb. cb_fn cb \<noteq> None) slots \<and>
        list_all (\<lambda>cb. cb_fn cb = None) (dropWhile (\<lambda>cb. cb_fn cb \<noteq> None) slots')"
  using assms(2)
proof (induction slots)
  case (Cons slot slots)
  show ?case
  proof (cases "cb_fn slot = None")
    case True
    moreover have "takeWhile (\<lambda>cb. cb_fn cb \<noteq> None) slots = []"
      and "dropWhile (\<lambda>cb. cb_fn cb \<noteq> None) slots = slots"
      using Cons.prems True by (cases slots; simp)+
    ultimately show ?thesis using Cons.prems assms(1) by simp
  next
    case False
    then show ?thesis using Cons by (cases "add_callback new slots") auto
  qed
qed simp

lemma log_add_refines:
  assumes "log_wf (L w)"
  shows "runs_as w (lg_add fn udata level (logger_of (L w)))
    (bindc (log_add_callback fn udata level) (\<lambda>r. ret (Status r)) w)"
proof -
  let ?new = "\<lparr>cb_fn = fn, cb_udata = udata, cb_level = level\<rparr>"
  have len: "length (L_callbacks (L w)) = 32"
    and wf: "list_all (\<lambda>cb. cb_fn cb = None) (dropWhile (\<lambda>cb. cb_fn cb \<noteq> None) (L_callbacks (L w)))"
    using assms by (simp_all add: log_wf_def MAX_CALLBACKS_def)
  have reg: "log_registered (L w) = takeWhile (\<lambda>cb. cb_fn cb \<noteq> None) (L_callbacks (L w))"
    by (simp add: log_registered_def)
  show ?thesis
  proof (cases fn)
    case None
    then show ?thesis using add_callback_empty [OF _ wf, of ?new] len assms
      by (auto simp: runs_as_def lg_add_def logger_of_def log_add_callback_def bindc_apply ret_apply reg
          log_registered_def log_wf_def MAX_CALLBACKS_def split: option.splits)
  next
    case (Some f)
    then obtain r w' where add: "log_add_callback fn udata level w = Inr (r, w')" "log_wf (L w')"
      "actions w' = actions w" "if length (log_registered (L w)) < 32
       then r = 0 \<and> log_registered (L w') = log_registered (L w) @ [?new]
       else r = -1 \<and> w' = w"
      using log_add_callback_appends [OF assms, of fn udata level] by auto
    moreover have "L_lock (L w') = L_lock (L w)" "L_udata (L w') = L_udata (L w)"
      "L_level (L w') = L_level (L w)" "L_quiet (L w') = L_quiet (L w)"
      using add(1) by (auto simp: log_add_callback_def split: option.splits)
    ultimately show ?thesis using Some
      by (auto simp: runs_as_def lg_add_def logger_of_def bindc_apply ret_apply split: if_splits)
  qed
qed

lemma log_message_refines:
  assumes "log_wf (L w)"
  shows "runs_as w (lg_message strftime level now message file line fmt (logger_of (L w)))
    (thenc (log_log strftime now message level file line fmt) (ret Void) w)"
  using assms
  by (simp add: thenc_apply ret_apply log_log_run runs_as_def lg_message_def logger_of_def log_spec_def
      log_std_def log_admits_def lg_locks_def log_lock_spec_def Let_def split: option.split)

lemma log_command_refines:
  assumes "log_wf (L w)"
  shows "runs_as w (lg_step strftime c (logger_of (L w))) (log_command_run strftime c w)"
proof (cases c)
  case (Add_Callback fn udata level)
  then show ?thesis using log_add_refines [OF assms] by simp
next
  case (Add_Fp fp level)
  then show ?thesis using log_add_refines [OF assms] by (simp add: log_add_fp_def)
next
  case (Say m now message src line fmt)
  then show ?thesis using log_message_refines [OF assms] by (simp add: log_say_level)
next
  case (Log level now message src line fmt)
  then show ?thesis using log_message_refines [OF assms] by simp
next
  case (Level_String level)
  then show ?thesis using assms
    by (simp add: runs_as_def log_level_string_def level_strings_def bindc_apply ret_apply raise_apply)
qed (use assms in \<open>simp_all add: cm_simps log_set_lock_def log_set_level_def log_set_quiet_def
  runs_as_def logger_of_def log_wf_def log_registered_def\<close>)

lemma log_session_run:
  "log_wf (L w) \<Longrightarrow> runs_as w (lg_session strftime cs (logger_of (L w))) (log_session strftime cs w)"
proof (induction cs arbitrary: w)
  case Nil
  then show ?case by (simp add: cm_simps runs_as_def)
next
  case (Cons c cs)
  note one = log_command_refines [OF Cons.prems, of strftime c]
  show ?case
  proof (cases "lg_step strftime c (logger_of (L w))")
    case (Inl e)
    then show ?thesis using one by (simp add: runs_as_def bindc_apply)
  next
    case (Inr res)
    then obtain r out w1 where "lg_step strftime c (logger_of (L w)) = Inr (r, out, logger_of (L w1))"
      "log_command_run strftime c w = Inr (r, w1)" "actions w1 = actions w @ out" "log_wf (L w1)"
      using one by (cases res) (auto simp: runs_as_def)
    then show ?thesis using Cons.IH [of w1]
      by (auto simp: runs_as_def bindc_apply ret_apply split: sum.splits prod.splits)
  qed
qed

text \<open>C37: The logger from the start of the process, whatever is done with it: any sequence of calls
  of its functions and macros, \<open>log_log\<close> with a level of its own and \<open>log_level_string\<close> included,
  ends as its users' view says. That view has each call return its value, each message go,
  under the lock in force, to the standard error stream unless the logger is quiet or the level
  below the threshold, and to everything registered whose level admits it, in the order of
  registration; the 33rd registration is refused with -1. Only two things go wrong: a level
  that is none of the six is named or to be written, which reads beyond the table of names, and
  a line is to be written to a stream registered as NULL.\<close>

theorem log_session_refines:
  "map_sum id (\<lambda>(rs, w). (rs, actions w, logger_of (L w))) (log_session strftime cs \<lparr>L = log_initial, actions = []\<rparr>) =
     lg_session strftime cs lg_start"
  using log_session_run [of "\<lparr>L = log_initial, actions = []\<rparr>" strftime cs] log_wf_initial
  by (auto simp: runs_as_def logger_of_initial split: sum.splits prod.splits)

end
