(* ===== verification/Spec2Isabelle.thy ===== *)
theory Spec2Isabelle
  imports Thread_Loops Dhcp_Wire Descriptors Histories Frames Collection Log
begin

text \<open>
  A verification library for pdrad, a daemon that obtains an IPv6 prefix by DHCPv6 prefix
  delegation (RFC 8415) and announces it on the local network with Router Advertisements
  (RFC 4861, 4191). It models the C sources under \<open>Src\<close>, \<open>Inc\<close> and \<open>Lib\<close>.

  THE PROGRAM. \<open>main\<close> (\<open>Src/test.c\<close>) reads the command line, initialises the interface queries
  (\<open>Src/utils.c\<close>) and starts up to three threads. The DHCPv6 thread builds a Solicit message
  from options (\<open>Src/dh_options.c\<close>, \<open>Src/dh_packets.c\<close>), sends it, parses the reply and stores
  the delegated prefix in the static structure \<open>_prefix\<close>. The RA thread advertises that prefix
  periodically, the RS thread whenever a Router Solicitation arrives; both build their
  messages from Neighbor Discovery options (\<open>Src/ndp_options.c\<close>, \<open>Src/ndp_packets.c\<close>). A mutex
  guards \<open>_prefix\<close>. Everything reports to the logger (\<open>Lib/log.c\<close>). \<open>Src/collection.c\<close>, an
  unrolled list, is compiled in but not used.

  THEORIES, in the order of their imports:

  \<^item> \<open>Pdrad_Prelude\<close>: lists, byte sequences of words in both byte orders, the \<open>endian.h\<close>
    conversions, the collections of rewrite rules, and the locale \<open>option_codec\<close>, the contract of
    an encoder and decoder of options, interpreted on those of both protocols.
  \<^item> \<open>C_Memory\<close>: the C the program is written in. A state-passing error monad \<open>cm\<close>; a heap of
    blocks of bytes, each undefined, an integer byte or a byte of a pointer; \<open>malloc\<close>, which
    may run out, \<open>free\<close>, \<open>memcpy\<close>, typed loads and stores. Every undefined behaviour is a
    \<open>c_fault\<close>, so \<open>Inr\<close> in a theorem also says the code has none. The locale \<open>scalar_type\<close> is
    the contract of a type in memory, \<open>fresh_object\<close> that of an option constructor; both are
    interpreted on the code's own types and constructors.
  \<^item> \<open>Ndp_Options\<close>, \<open>Ndp_Wire\<close> (\<open>ndp_options.h/.c\<close>): the structures and constructors of the
    Neighbor Discovery options; the receiver's view of them, an encoder and decoder of the
    RFC formats, and the refinement of the one by the other.
  \<^item> \<open>Ndp_Packets\<close> (\<open>ndp_packets.h/.c\<close>): the Router Advertisement builder against a decoder of the
    RFC format, and the checksum routines against the one's complement sum of RFC 1071.
  \<^item> \<open>Dh_Options\<close> (\<open>dh_options.h/.c\<close>): the structures and constructors of the DHCPv6 options.
  \<^item> \<open>Dh_Packets\<close> (\<open>dh_packets.h/.c\<close>): the packet and Solicit builders, the parser of replies with
    its list of prefix delegations, and the round trip between them.
  \<^item> \<open>Pdrad_World\<close> (\<open>global.h\<close>, the static variables of \<open>utils.c\<close> and \<open>test.c\<close>): the state the
    daemon's functions work on, the heap extended by its variables and a trace of the system
    calls that matter outside; the frame relation \<open>world_keeps\<close>; the multicast groups.
  \<^item> \<open>Utils\<close> (\<open>utils.c\<close>): initialisation, hardware address and link-local address.
  \<^item> \<open>Daemon\<close> (\<open>test.c\<close>): \<open>sendRouterAdv\<close>, \<open>ReceiveSrcAddrFromRouterSolicit\<close>, \<open>print_memory_hex\<close>
    and \<open>requestAndReceiveDhcp\<close>.
  \<^item> \<open>Daemon_Threads\<close> (\<open>test.c\<close>): the rounds and the whole bodies of the three threads, the signal
    handler, the command line and the start of \<open>main\<close>. \<open>atoi\<close> outside \<open>int\<close> is a fault.
  \<^item> \<open>Thread_Loops\<close> (\<open>test.c\<close>): the three threads from start to end. The locale \<open>answered_loop\<close>
    carries what a round does over the loop of a thread until a signal ends it, and is
    interpreted on the loop of each; also the setups that fail, and the daemon with a static
    prefix from its command line to the network.
  \<^item> \<open>Prefix_Sharing\<close> (\<open>test.c\<close>): \<open>main\<close> and the threads as a transition system in which every
    access to the shared state is a step; the specification is the daemon with atomic rounds.
    An exchange takes several: the request is sent, if its socket is still open, the thread waits
    until an answer arrives, and every exchange closes the socket. The locales \<open>run_invariant\<close>
    and \<open>receive_blocked\<close> carry invariants from steps to runs.
  \<^item> \<open>Schedule\<close>: the code's rounds over memory refine the atomic daemon too, so that the two
    views meet: what the transition system says of records, the bytes in memory and on the
    wire say of them.
  \<^item> \<open>Dhcp_Wire\<close>: DHCPv6 messages as RFC 8415 has them, with DUIDs and the options inside options; an
    encoder and a decoder written from the standard. What the daemon sends is read as its Solicit,
    and what a server encodes is what the hosts are told.
  \<^item> \<open>Histories\<close>: which histories the interleaved daemon can show, exactly; at most one request is
    sent and answered in them.
  \<^item> \<open>Frames\<close>: what each function may write, on any input, by one rule per construct.
  \<^item> \<open>Descriptors\<close>: the descriptor table the threads share, and the clash of their sockets in it.
  \<^item> \<open>Collection\<close> (\<open>collection.c\<close>) and \<open>Log\<close> (\<open>log.h/.c\<close>): the unused list and the logger.

  HOW THE MODEL READS THE SOURCE. A C function is a definition of the same name in \<open>cm\<close>, with
  its loads and stores in the order of the source, and loops as recursion over what they
  count. A structure is a record with a function giving its bytes; in memory it is only bytes,
  and fields are reached by their offsets. Integers keep their width. A local array whose
  address is passed on is a block of its own. Results of system calls, the clock, the random
  generator, \<open>strftime\<close>, \<open>vfprintf\<close> and \<open>inet_pton\<close> are parameters; a signal is one of the
  answers to a round. Two rules of the kernel are used where a theorem says so: nothing is sent
  through a descriptor that was closed, and a socket made later, which in this program is a
  raw ICMPv6 socket, does not carry a request to the DHCPv6 port.

  WHAT IS SHOWN. Builders: what they leave in memory is the intended wire format, and what
  happens when memory runs out; every DHCPv6 option is one block. Parser: the result on
  well-formed replies, what it changes in any packet, octets after a cut header included,
  termination on every input, and what it accepts that it should not. Checksum: the sum
  it computes, and where it departs from the standard. Utilities, list, logger: the behaviour on
  each branch. Daemon: an exchange stores the delegated prefix, an advertising round sends
  it; each thread from its socket to its end, with all the calls it makes; a server that follows RFC 8415 and hosts that follow RFC 4861 read the daemon as intended;
  mutual exclusion; the interleaved daemon refines the atomic one, and its histories are known
  exactly; the holder of the mutex can release it unless it waits for a server; a signal ends the
  process past the busy wait. Memory: the objects each function can change, on every input.
  Logger: any sequence of calls, of any level and on any stream, is what the users' view of it
  says, the faults included. The same theorems show where the program
  fails: the leak in every advertisement, the lifetimes swapped by a failed renewal, the text of a
  refusal advertised as a prefix, the socket of one thread closed by another, the DHCPv6 thread
  that sends one Solicit in its life, the failed setups nobody is told of, the busy wait that
  never ends, the mutex held while waiting for the server.

  BOUNDS. Only two loops need fuel, both over memory: the option loop of the parser, bounded by the
  length of the packet's block, since every iteration reads a header further on in it, and
  the walk to the end of the result list, bounded by the number of blocks. \<open>parse_terminates\<close>
  shows the bounds are never reached. Loops that wait for the network or a signal run over the
  list of answers; when it is used up they report \<open>OutOfFuel\<close>, which stands for going on.

  READINGS. \<open>test.c\<close> does not compile as it stands: the DHCPv6 thread passes its mutex by value, one
  statement lacks its semicolon and \<open>inet_ntop\<close> its last argument. The model reads what is
  meant. Evaluation order the standard leaves open is taken from left to right. The sizes
  are those of x86-64 with glibc.

  NOT MODELLED. The texts the daemon logs and \<open>inet_ntop\<close>, which only makes them: with no function
  and no lock registered the logger changes nothing the daemon reads. Counters of type \<open>int\<close>
  beyond their range. The colours of the logger, which the build does not define, and the 32-bit
  variant of \<open>htobe_inet6\<close>. The types the program declares and never uses: \<open>ndp_rs\<close>,
  \<open>ndp_parsedOptions\<close>, \<open>Thread_sendRouterAdv_Arg\<close>. In the transition system, memory: a
  fault is a step that ends the process. Build files, editor settings and the README.
\<close>

end
